(* ===== verification/Prelude.thy ===== *)
theory Prelude
  imports
    Main
    "HOL-Library.Word"
    "HOL-Library.Monad_Syntax"
begin

text \<open>
  The ground the other theories stand on: the machine integers of the C sources, little-endian
  byte access, the pointers into C objects, and the machine itself (the memory bus with the
  peripherals behind it, the RAM and the control registers of the core).

  \<^item> A run that has no defined result (a busy-wait loop that never ends, a read outside a C
    object) is \<open>None\<close>; \<open>Some\<close> means that the code returns.
  \<^item> What is behind the bus is not code of the repository. It is a parameter: \<open>'h\<close> is the
    state of all peripherals and of the flash array, and a \<open>'h bus\<close> says how a volatile read or
    write acts on it. A volatile read may change the device, so time can pass while a driver polls.
\<close>

unbundle bit_operations_syntax

section \<open>Lemma collections\<close>

named_theorems machine_simps "unfolding rules of the memory, register and CSR accessors"
named_theorems frame_simps "what an operation leaves unchanged"
named_theorems run_elims "elimination of an equation that says an operation returned"

section \<open>Machine integers and little-endian bytes\<close>

type_synonym u8 = "8 word"
type_synonym u16 = "16 word"
type_synonym u32 = "32 word"
type_synonym u64 = "64 word"

definition le16 :: "u8 \<Rightarrow> u8 \<Rightarrow> u16" where
  "le16 b0 b1 = ucast b0 OR push_bit 8 (ucast b1)"

definition le32 :: "u8 \<Rightarrow> u8 \<Rightarrow> u8 \<Rightarrow> u8 \<Rightarrow> u32" where
  "le32 b0 b1 b2 b3 =
     ucast b0 OR push_bit 8 (ucast b1) OR push_bit 16 (ucast b2) OR push_bit 24 (ucast b3)"

definition lo8 :: "u16 \<Rightarrow> u8" where
  "lo8 w = ucast w"

definition hi8 :: "u16 \<Rightarrow> u8" where
  "hi8 w = ucast (drop_bit 8 w)"

definition bytes16 :: "u16 \<Rightarrow> u8 list" where
  "bytes16 w = [lo8 w, hi8 w]"

definition byte32 :: "nat \<Rightarrow> u32 \<Rightarrow> u8" where
  "byte32 i w = ucast (drop_bit (8 * i) w)"

definition bytes32 :: "u32 \<Rightarrow> u8 list" where
  "bytes32 w = [byte32 0 w, byte32 1 w, byte32 2 w, byte32 3 w]"

lemma length_bytes16 [simp]: "length (bytes16 w) = 2"
  by (simp add: bytes16_def)

lemma length_bytes32 [simp]: "length (bytes32 w) = 4"
  by (simp add: bytes32_def)

lemma le16_split [simp]: "le16 (lo8 w) (hi8 w) = w"
  by (rule bit_word_eqI) (auto simp: le16_def lo8_def hi8_def bit_or_iff bit_push_bit_iff
    bit_ucast_iff bit_drop_bit_eq)

lemma lo8_le16 [simp]: "lo8 (le16 a b) = a"
  by (rule bit_word_eqI) (auto simp: le16_def lo8_def bit_or_iff bit_push_bit_iff bit_ucast_iff)

lemma hi8_le16 [simp]: "hi8 (le16 a b) = b"
proof (rule bit_word_eqI)
  fix n assume "n < LENGTH(8)"
  moreover have "\<not> bit a (8 + n)"
    using bit_imp_le_length [of a "8 + n"] by auto
  ultimately show "bit (hi8 (le16 a b)) n = bit b n"
    by (auto simp: le16_def hi8_def bit_or_iff bit_push_bit_iff bit_ucast_iff bit_drop_bit_eq)
qed

lemma le32_split [simp]: "le32 (byte32 0 w) (byte32 (Suc 0) w) (byte32 2 w) (byte32 3 w) = w"
proof (rule bit_word_eqI)
  fix n assume n: "n < LENGTH(32)"
  have "bit (byte32 i w) m \<longleftrightarrow> m < 8 \<and> bit w (8 * i + m)" for i m
    by (auto simp: byte32_def bit_ucast_iff bit_drop_bit_eq)
  with n show "bit (le32 (byte32 0 w) (byte32 (Suc 0) w) (byte32 2 w) (byte32 3 w)) n = bit w n"
    by (cases "n < 8"; cases "n < 16"; cases "n < 24") (auto simp: le32_def bit_or_iff bit_push_bit_iff bit_ucast_iff)
qed

lemma byte32_le32 [simp]:
  "byte32 0 (le32 b0 b1 b2 b3) = b0" "byte32 (Suc 0) (le32 b0 b1 b2 b3) = b1"
  "byte32 2 (le32 b0 b1 b2 b3) = b2" "byte32 3 (le32 b0 b1 b2 b3) = b3"
proof -
  have big: "8 \<le> n \<Longrightarrow> \<not> bit b n" for b :: u8 and n using bit_imp_le_length [of b n] by auto
  show "byte32 0 (le32 b0 b1 b2 b3) = b0"
    by (rule bit_word_eqI) (auto simp: le32_def byte32_def bit_or_iff bit_push_bit_iff
      bit_ucast_iff bit_drop_bit_eq)
  show "byte32 (Suc 0) (le32 b0 b1 b2 b3) = b1"
    by (rule bit_word_eqI) (auto simp: le32_def byte32_def bit_or_iff bit_push_bit_iff
      bit_ucast_iff bit_drop_bit_eq big)
  show "byte32 2 (le32 b0 b1 b2 b3) = b2"
    by (rule bit_word_eqI) (auto simp: le32_def byte32_def bit_or_iff bit_push_bit_iff
      bit_ucast_iff bit_drop_bit_eq big)
  show "byte32 3 (le32 b0 b1 b2 b3) = b3"
    by (rule bit_word_eqI) (auto simp: le32_def byte32_def bit_or_iff bit_push_bit_iff
      bit_ucast_iff bit_drop_bit_eq big)
qed

text \<open>A set flag of a register: the C test \<open>reg & mask\<close>.\<close>

abbreviation flag_set :: "'a::len word \<Rightarrow> 'a word \<Rightarrow> bool" where
  "flag_set w m \<equiv> w AND m \<noteq> 0"

section \<open>Pointers into C objects\<close>

text \<open>
  A \<open>const uint8_t *\<close> is the address of the byte it points at and the bytes from there to the
  end of the object. \<open>p + n\<close> moves both; a read past the end of the object is undefined in C
  and \<open>None\<close> here.
\<close>

record cptr =
  cp_addr :: u32
  cp_bytes :: "u8 list"

definition cp_add :: "cptr \<Rightarrow> nat \<Rightarrow> cptr" where
  "cp_add p n = \<lparr>cp_addr = cp_addr p + of_nat n, cp_bytes = drop n (cp_bytes p)\<rparr>"

definition cp_rd8 :: "cptr \<Rightarrow> nat \<Rightarrow> u8 option" where
  "cp_rd8 p i = (if i < length (cp_bytes p) then Some (cp_bytes p ! i) else None)"

definition cp_rd32 :: "cptr \<Rightarrow> u32 option" where
  "cp_rd32 p = do {
     b0 \<leftarrow> cp_rd8 p 0; b1 \<leftarrow> cp_rd8 p 1; b2 \<leftarrow> cp_rd8 p 2; b3 \<leftarrow> cp_rd8 p 3;
     Some (le32 b0 b1 b2 b3) }"

text \<open>\<open>memcpy(buf + off, src, n)\<close> between two C objects.\<close>

definition memcpy_buf :: "'a list \<Rightarrow> nat \<Rightarrow> 'a list \<Rightarrow> nat \<Rightarrow> 'a list option" where
  "memcpy_buf buf off src n =
     (if n \<le> length src \<and> off + n \<le> length buf
      then Some (take off buf @ take n src @ drop (off + n) buf) else None)"

lemma cp_add_simps [simp]:
  "cp_addr (cp_add p n) = cp_addr p + of_nat n"
  "cp_bytes (cp_add p n) = drop n (cp_bytes p)"
  "cp_add p 0 = p"
  by (simp_all add: cp_add_def)

lemma cp_add_add [simp]: "cp_add (cp_add p m) n = cp_add p (m + n)"
  by (simp add: cp_add_def add.commute)

lemma cp_rd8_Some_iff: "cp_rd8 p i = Some b \<longleftrightarrow> i < length (cp_bytes p) \<and> b = cp_bytes p ! i"
  by (auto simp: cp_rd8_def)

lemma cp_rd32_returns:
  assumes "4 \<le> length (cp_bytes p)" obtains w where "cp_rd32 p = Some w"
proof -
  from assms have "cp_bytes p \<noteq> []" by auto
  with assms that show thesis by (simp add: cp_rd32_def cp_rd8_def)
qed

lemma length_memcpy_buf: "memcpy_buf buf off src n = Some buf' \<Longrightarrow> length buf' = length buf"
  by (auto simp: memcpy_buf_def split: if_splits)

lemma take_memcpy_buf:
  "memcpy_buf buf off src n = Some buf' \<Longrightarrow> take (off + n) buf' = take off buf @ take n src"
  by (auto simp: memcpy_buf_def split: if_splits)

section \<open>The machine\<close>

record 'h bus =
  bus_rd32 :: "u32 \<Rightarrow> 'h \<Rightarrow> u32 \<times> 'h"   \<comment> \<open>a volatile 32-bit read of a peripheral register\<close>
  bus_wr32 :: "u32 \<Rightarrow> u32 \<Rightarrow> 'h \<Rightarrow> 'h"     \<comment> \<open>a volatile 32-bit write\<close>
  bus_mem8 :: "'h \<Rightarrow> u32 \<Rightarrow> u8"            \<comment> \<open>the content of the flash array\<close>

record 'h mach =
  csr :: "12 word \<Rightarrow> u32"     \<comment> \<open>control and status registers of the core\<close>
  ram :: "u32 \<Rightarrow> u8"          \<comment> \<open>the 64 KB of SRAM\<close>
  dev :: 'h                    \<comment> \<open>the peripherals and the flash array\<close>

definition rd32 :: "'h bus \<Rightarrow> u32 \<Rightarrow> 'h mach \<Rightarrow> u32 \<times> 'h mach" where
  "rd32 io a m = (case bus_rd32 io a (dev m) of (v, d) \<Rightarrow> (v, m\<lparr>dev := d\<rparr>))"

definition wr32 :: "'h bus \<Rightarrow> u32 \<Rightarrow> u32 \<Rightarrow> 'h mach \<Rightarrow> 'h mach" where
  "wr32 io a v m = m\<lparr>dev := bus_wr32 io a v (dev m)\<rparr>"

text \<open>\<open>reg |= v\<close> and \<open>reg &= v\<close>: a read, then a write.\<close>

definition or32 :: "'h bus \<Rightarrow> u32 \<Rightarrow> u32 \<Rightarrow> 'h mach \<Rightarrow> 'h mach" where
  "or32 io a v m = (case rd32 io a m of (w, m1) \<Rightarrow> wr32 io a (w OR v) m1)"

definition and32 :: "'h bus \<Rightarrow> u32 \<Rightarrow> u32 \<Rightarrow> 'h mach \<Rightarrow> 'h mach" where
  "and32 io a v m = (case rd32 io a m of (w, m1) \<Rightarrow> wr32 io a (w AND v) m1)"

text \<open>Plain loads from the flash array, and from memory in general (SRAM or flash).\<close>

definition flash8 :: "'h bus \<Rightarrow> 'h mach \<Rightarrow> u32 \<Rightarrow> u8" where
  "flash8 io m a = bus_mem8 io (dev m) a"

definition flash32 :: "'h bus \<Rightarrow> 'h mach \<Rightarrow> u32 \<Rightarrow> u32" where
  "flash32 io m a =
     le32 (flash8 io m a) (flash8 io m (a + 1)) (flash8 io m (a + 2)) (flash8 io m (a + 3))"

definition in_ram :: "u32 \<Rightarrow> bool" where
  "in_ram a \<longleftrightarrow> 0x20000000 \<le> a \<and> a < 0x20010000"

definition ld8 :: "'h bus \<Rightarrow> 'h mach \<Rightarrow> u32 \<Rightarrow> u8" where
  "ld8 io m a = (if in_ram a then ram m a else flash8 io m a)"

definition ld32 :: "'h bus \<Rightarrow> 'h mach \<Rightarrow> u32 \<Rightarrow> u32" where
  "ld32 io m a = le32 (ld8 io m a) (ld8 io m (a + 1)) (ld8 io m (a + 2)) (ld8 io m (a + 3))"

definition st8 :: "u32 \<Rightarrow> u8 \<Rightarrow> 'h mach \<Rightarrow> 'h mach" where
  "st8 a b m = m\<lparr>ram := (ram m)(a := b)\<rparr>"

definition st32 :: "u32 \<Rightarrow> u32 \<Rightarrow> 'h mach \<Rightarrow> 'h mach" where
  "st32 a w m = m\<lparr>ram := (ram m)(a := byte32 0 w, a + 1 := byte32 1 w,
                                 a + 2 := byte32 2 w, a + 3 := byte32 3 w)\<rparr>"

text \<open>The instructions \<open>csrw\<close>, \<open>csrs\<close> and \<open>csrc\<close>.\<close>

definition csrw :: "12 word \<Rightarrow> u32 \<Rightarrow> 'h mach \<Rightarrow> 'h mach" where
  "csrw r v m = m\<lparr>csr := (csr m)(r := v)\<rparr>"

definition csrs :: "12 word \<Rightarrow> u32 \<Rightarrow> 'h mach \<Rightarrow> 'h mach" where
  "csrs r v m = m\<lparr>csr := (csr m)(r := csr m r OR v)\<rparr>"

definition csrc :: "12 word \<Rightarrow> u32 \<Rightarrow> 'h mach \<Rightarrow> 'h mach" where
  "csrc r v m = m\<lparr>csr := (csr m)(r := csr m r AND NOT v)\<rparr>"

definition MSTATUS :: "12 word" where "MSTATUS = 0x300"
definition MIE_BIT :: u32 where "MIE_BIT = 8"

definition irq_enabled :: "'h mach \<Rightarrow> bool" where
  "irq_enabled m \<longleftrightarrow> flag_set (csr m MSTATUS) MIE_BIT"

lemma flash8_frame [frame_simps, simp]:
  "flash8 io (csrw r v m) = flash8 io m"
  "flash8 io (csrs r v m) = flash8 io m"
  "flash8 io (csrc r v m) = flash8 io m"
  "flash8 io (st8 a b m) = flash8 io m"
  "flash8 io (st32 a w m) = flash8 io m"
  by (simp_all add: fun_eq_iff flash8_def csrw_def csrs_def csrc_def st8_def st32_def)

lemma flash32_cong: "flash8 io m = flash8 io' m' \<Longrightarrow> flash32 io m = flash32 io' m'"
  by (simp add: fun_eq_iff flash32_def)

lemma wr32_frame [frame_simps, simp]:
  "csr (wr32 io a v m) = csr m" "ram (wr32 io a v m) = ram m"
  by (simp_all add: wr32_def)

lemma rd32_frame [frame_simps]:
  "csr (snd (rd32 io a m)) = csr m" "ram (snd (rd32 io a m)) = ram m"
  by (simp_all add: rd32_def split: prod.splits)

lemma rd32_dev: "rd32 io a m = (v, m') \<Longrightarrow> dev m' = snd (bus_rd32 io a (dev m)) \<and> ram m' = ram m"
  by (auto simp: rd32_def split: prod.splits)

lemma rd32_frameD: "rd32 io a m = (v, m') \<Longrightarrow> csr m' = csr m \<and> ram m' = ram m"
  by (auto simp: rd32_def split: prod.splits)

text \<open>
  What a routine leaves alone, as an interface: a view of the machine that no register read and no
  write to a quiet register changes. The routines that are built of such accesses leave it alone,
  whatever it is: the RAM and the control registers, the content of the flash, the flash controller.
\<close>

locale bus_view =
  fixes io :: "'h bus" and V :: "'h mach \<Rightarrow> 'v" and quiet :: "u32 \<Rightarrow> bool"
  assumes rd32_view: "rd32 io a m = (v, m') \<Longrightarrow> V m' = V m"
    and wr32_view: "quiet a \<Longrightarrow> V (wr32 io a v m) = V m"
begin

lemma or32_view: "quiet a \<Longrightarrow> V (or32 io a v m) = V m"
  by (auto simp: or32_def wr32_view dest: rd32_view split: prod.split)

lemma and32_view: "quiet a \<Longrightarrow> V (and32 io a v m) = V m"
  by (auto simp: and32_def wr32_view dest: rd32_view split: prod.split)

lemmas access_view = wr32_view or32_view and32_view

end

interpretation frame: bus_view io "\<lambda>m. (csr m, ram m)" "\<lambda>_. True" for io
  by unfold_locales (auto dest: rd32_frameD)

lemma or32_frame [frame_simps, simp]:
  "csr (or32 io a v m) = csr m" "ram (or32 io a v m) = ram m"
  using frame.or32_view [of io a v m] by simp_all

lemma and32_frame [frame_simps, simp]:
  "csr (and32 io a v m) = csr m" "ram (and32 io a v m) = ram m"
  using frame.and32_view [of io a v m] by simp_all

lemma csr_frame [frame_simps, simp]:
  "ram (csrw r v m) = ram m" "ram (csrs r v m) = ram m" "ram (csrc r v m) = ram m"
  "dev (csrw r v m) = dev m" "dev (csrs r v m) = dev m" "dev (csrc r v m) = dev m"
  by (simp_all add: csrw_def csrs_def csrc_def)

lemma irq_enabled_csrs [simp]: "irq_enabled (csrs MSTATUS MIE_BIT m)"
  by (simp add: irq_enabled_def csrs_def MIE_BIT_def and.commute [of _ 8] bit.conj_disj_distrib)

lemma not_irq_enabled_csrc [simp]: "\<not> irq_enabled (csrc MSTATUS MIE_BIT m)"
  by (simp add: irq_enabled_def csrc_def and.assoc)

section \<open>Runs that return\<close>

lemma bind_SomeE [run_elims]:
  assumes "Option.bind x f = Some y"
  obtains a where "x = Some a" and "f a = Some y"
  using assms by (cases x) auto

lemma bind_Some_iff: "Option.bind x f = Some y \<longleftrightarrow> (\<exists>a. x = Some a \<and> f a = Some y)"
  by (cases x) auto

section \<open>Aligning addresses\<close>

lemma unat_align_down: "unat (x AND NOT (mask n)) = unat x - unat x mod 2 ^ n"
  for x :: "'a::len word"
proof -
  have "push_bit n (drop_bit n x) = x AND NOT (mask n)"
    by (rule bit_word_eqI) (auto simp: bit_push_bit_iff bit_drop_bit_eq bit_and_iff bit_not_iff
      bit_mask_iff)
  then have "x AND NOT (mask n) = x - take_bit n x"
    using bits_ident [of n x] by (metis add_diff_cancel_right')
  moreover have "unat (take_bit n x) = unat x mod 2 ^ n"
    by (simp only: unsigned_take_bit_eq) (simp add: take_bit_nat_def)
  ultimately show ?thesis
    by (simp add: unat_sub_if')
qed

lemma unat_add_small: "unat x + unat y < 2 ^ LENGTH('a) \<Longrightarrow> unat (x + y) = unat x + unat y"
  for x y :: "'a::len word"
  by (simp add: unat_add_lem)

lemma unat_plus_nat: "unat a + k < 2 ^ 32 \<Longrightarrow> unat (a + of_nat k) = unat a + k" for a :: u32
  using unat_add_small [of a "of_nat k"] by (simp add: unsigned_of_nat take_bit_nat_eq_self)

lemma unat_ucast_16_32 [simp]: "unat (ucast (w :: u16) :: u32) = unat w"
  using unsigned_less [where ?'a = nat, of w] by (simp add: unsigned_ucast_eq take_bit_nat_eq_self)

lemma unat_ucast_32_64 [simp]: "unat (ucast (w :: u32) :: u64) = unat w"
  using unsigned_less [where ?'a = nat, of w] by (simp add: unsigned_ucast_eq take_bit_nat_eq_self)

lemma unat_pred_less: "x \<noteq> 0 \<Longrightarrow> unat (x - 1) < unat x"
  for x :: "'a::len word"
  using unat_minus_one [of x] unat_gt_0 [of x] by linarith

text \<open>\<open>a < lim\<close> and room for one more step: the step does not wrap.\<close>

lemma unat_step_below:
  fixes a lim :: u32
  assumes "a < lim" and "unat lim \<le> 2 ^ 32 - k" and "k < 2 ^ 32"
  shows "unat (a + of_nat k) = unat a + k"
proof -
  have "unat (of_nat k :: u32) = k"
    using assms(3) by (simp add: unat_of_nat take_bit_eq_mod)
  moreover have "unat a < unat lim" using assms(1) by (simp add: word_less_nat_alt)
  ultimately show ?thesis
    using unat_add_small [of a "of_nat k"] assms(2,3) by simp
qed

end
