(* ===== verification/Startup.thy ===== *)
theory Startup
  imports Prelude
begin

text \<open>
  The C run-time start of both stages: the loops in assembly that copy \<open>.data\<close> and clear \<open>.bss\<close>
  (\<^verbatim>\<open>riscv_ch32v3x/start.cpp\<close>, \<^verbatim>\<open>src_stage2/stage2_entry.cpp\<close>), over the addresses the linker
  gives, which are parameters. Addresses are compared as signed words, as \<open>bge\<close> and \<open>bgt\<close> do; a
  loop whose end is never met is \<open>None\<close>. The local variables live in registers or on the stack,
  outside the memory the loops write.
\<close>

section \<open>The loops\<close>

record sections =
  data_lma :: u32
  data_begin :: u32
  data_end :: u32
  bss_begin :: u32
  bss_end :: u32

text \<open>Stage 2 tests before each word, stage 1 after it.\<close>

partial_function (option) copy_words ::
  "'h bus \<Rightarrow> u32 \<Rightarrow> u32 \<Rightarrow> u32 \<Rightarrow> 'h mach \<Rightarrow> 'h mach option" where
  "copy_words io t0 t1 t2 m =
     (if word_sle t2 t1 then Some m
      else copy_words io (t0 + 4) (t1 + 4) t2 (st32 t1 (ld32 io m t0) m))"

partial_function (option) zero_words :: "u32 \<Rightarrow> u32 \<Rightarrow> 'h mach \<Rightarrow> 'h mach option" where
  "zero_words t0 t1 m =
     (if word_sle t1 t0 then Some m else zero_words (t0 + 4) t1 (st32 t0 0 m))"

partial_function (option) copy_words_do ::
  "'h bus \<Rightarrow> u32 \<Rightarrow> u32 \<Rightarrow> u32 \<Rightarrow> 'h mach \<Rightarrow> 'h mach option" where
  "copy_words_do io t0 t1 t2 m =
     (let t3 = ld32 io m t0; m = st32 t1 t3 m; t0 = t0 + 4; t1 = t1 + 4
      in if word_sless t1 t2 then copy_words_do io t0 t1 t2 m else Some m)"

partial_function (option) zero_words_do :: "u32 \<Rightarrow> u32 \<Rightarrow> 'h mach \<Rightarrow> 'h mach option" where
  "zero_words_do t0 t1 m =
     (let m = st32 t0 0 m; t0 = t0 + 4
      in if word_sless t0 t1 then zero_words_do t0 t1 m else Some m)"

text \<open>The start of stage 1 up to the call of \<open>main\<close>: the marker words survive.\<close>

definition start_c :: "'h bus \<Rightarrow> sections \<Rightarrow> 'h mach \<Rightarrow> 'h mach option" where
  "start_c io l m = do {
     let r0 = ld32 io m 0x20000000;
     let r1 = ld32 io m 0x20000004;
     m \<leftarrow> copy_words_do io (data_lma l) (data_begin l) (data_end l) m;
     m \<leftarrow> zero_words_do (bss_begin l) (bss_end l) m;
     let m = st32 0x20000000 r0 m;
     Some (st32 0x20000004 r1 m) }"

text \<open>The part of \<open>handle_reset\<close> that is not the set-up of registers: the interrupt mask.\<close>

definition handle_reset :: "'h mach \<Rightarrow> 'h mach" where
  "handle_reset = csrw 0xBC0 0x1F"

definition stage2_sections :: "'h bus \<Rightarrow> sections \<Rightarrow> 'h mach \<Rightarrow> 'h mach option" where
  "stage2_sections io l m = do {
     m \<leftarrow> copy_words io (data_lma l) (data_begin l) (data_end l) m;
     zero_words (bss_begin l) (bss_end l) m }"

section \<open>Equivalence of the two kinds of loop\<close>

lemma word_sless_not_sle: "word_sless a b \<longleftrightarrow> \<not> word_sle b a"
  by (simp add: word_sless_alt word_sle_eq not_le)

lemma copy_words_do_eq:
  "copy_words_do io t0 t1 t2 m = copy_words io (t0 + 4) (t1 + 4) t2 (st32 t1 (ld32 io m t0) m)"
proof -
  have "copy_words io (t0 + 4) (t1 + 4) t2 (st32 t1 (ld32 io m t0) m) = Some r"
    if "copy_words_do io t0 t1 t2 m = Some r" for r
  proof (rule copy_words_do.raw_induct [OF _ that, where P = "\<lambda>io t0 t1 t2 m r.
      copy_words io (t0 + 4) (t1 + 4) t2 (st32 t1 (ld32 io m t0) m) = Some r"])
    fix f and io :: "'b bus" and t0 t1 t2 m r
    assume IH: "\<And>(io :: 'b bus) t0 t1 t2 m r. f io t0 t1 t2 m = Some r \<Longrightarrow>
        copy_words io (t0 + 4) (t1 + 4) t2 (st32 t1 (ld32 io m t0) m) = Some r"
      and run: "(let t3 = ld32 io m t0; m = st32 t1 t3 m; t0 = t0 + 4; t1 = t1 + 4
        in if word_sless t1 t2 then f io t0 t1 t2 m else Some m) = Some r"
    from run IH [of io "t0 + 4" "t1 + 4" t2 "st32 t1 (ld32 io m t0) m" r]
    show "copy_words io (t0 + 4) (t1 + 4) t2 (st32 t1 (ld32 io m t0) m) = Some r"
      by (subst copy_words.simps) (simp add: Let_def word_sless_not_sle split: if_split_asm)
  qed
  moreover have "copy_words_do io t0 t1 t2 m = Some r"
    if "copy_words io (t0 + 4) (t1 + 4) t2 (st32 t1 (ld32 io m t0) m) = Some r" for r
  proof -
    have "\<forall>s0 s1 m. t0 = s0 + 4 \<longrightarrow> t1 = s1 + 4 \<longrightarrow> m' = st32 s1 (ld32 io m s0) m \<longrightarrow>
        copy_words_do io s0 s1 t2 m = Some r"
      if "copy_words io t0 t1 t2 m' = Some r" for io :: "'a bus" and t0 t1 t2 m' r
    proof (rule copy_words.raw_induct [OF _ that, where P = "\<lambda>io t0 t1 t2 m' r.
        \<forall>s0 s1 m. t0 = s0 + 4 \<longrightarrow> t1 = s1 + 4 \<longrightarrow> m' = st32 s1 (ld32 io m s0) m \<longrightarrow>
        copy_words_do io s0 s1 t2 m = Some r"])
      fix f and io :: "'b bus" and t0 t1 t2 m' r
      assume IH: "\<And>(io :: 'b bus) t0 t1 t2 m' r. f io t0 t1 t2 m' = Some r \<Longrightarrow>
          \<forall>s0 s1 m. t0 = s0 + 4 \<longrightarrow> t1 = s1 + 4 \<longrightarrow> m' = st32 s1 (ld32 io m s0) m \<longrightarrow>
          copy_words_do io s0 s1 t2 m = Some r"
        and run: "(if word_sle t2 t1 then Some m'
          else f io (t0 + 4) (t1 + 4) t2 (st32 t1 (ld32 io m' t0) m')) = Some r"
      from run IH show "\<forall>s0 s1 m. t0 = s0 + 4 \<longrightarrow> t1 = s1 + 4 \<longrightarrow> m' = st32 s1 (ld32 io m s0) m \<longrightarrow>
          copy_words_do io s0 s1 t2 m = Some r"
        by (intro allI impI, subst copy_words_do.simps)
          (auto simp: Let_def word_sless_not_sle split: if_split_asm)
    qed
    with that show ?thesis by blast
  qed
  ultimately show ?thesis by (metis not_None_eq)
qed

section \<open>What the loops do\<close>

text \<open>The byte range of \<open>k\<close> bytes from \<open>b\<close> on.\<close>

definition in_range :: "u32 \<Rightarrow> nat \<Rightarrow> u32 \<Rightarrow> bool" where
  "in_range b k a \<longleftrightarrow> unat b \<le> unat a \<and> unat a < unat b + k"

definition with_bytes :: "u32 \<Rightarrow> nat \<Rightarrow> (u32 \<Rightarrow> u8) \<Rightarrow> 'h mach \<Rightarrow> 'h mach" where
  "with_bytes b k f m = m\<lparr>ram := \<lambda>a. if in_range b k a then f a else ram m a\<rparr>"

lemma sint_low: "unat (w :: u32) < 2 ^ 31 \<Longrightarrow> sint w = int (unat w)"
proof -
  assume "unat w < 2 ^ 31"
  then have "int (unat w) < int (2 ^ 31)" by (simp only: of_nat_less_iff)
  then have less: "uint w < 2 ^ 31" by simp
  have "sint w = signed_take_bit 31 (uint w)" by (simp add: sint_uint)
  also have "\<dots> = uint w"
  proof (rule signed_take_bit_int_eq_self)
    have "0 \<le> uint w" by simp
    then show "- (2 ^ 31) \<le> uint w" by (rule order_trans [rotated]) simp
  qed (rule less)
  finally show ?thesis by simp
qed

lemma word_sle_low:
  "unat (v :: u32) < 2 ^ 31 \<Longrightarrow> unat (w :: u32) < 2 ^ 31 \<Longrightarrow> word_sle v w \<longleftrightarrow> unat v \<le> unat w"
  by (simp only: word_sle_eq sint_low of_nat_le_iff)

lemma unat_plus4: "unat a + 4 < 2 ^ 32 \<Longrightarrow> unat (a + 4) = unat a + 4" for a :: u32
  using unat_add_small [of a 4] by simp

lemma in_range_word:
  assumes "unat b + 4 < 2 ^ 32"
  shows "in_range b 4 a \<longleftrightarrow> a = b \<or> a = b + 1 \<or> a = b + 2 \<or> a = b + 3"
proof -
  have "unat (b + 1) = unat b + 1" "unat (b + 2) = unat b + 2" "unat (b + 3) = unat b + 3"
    using assms unat_add_small [of b 1] unat_add_small [of b 2] unat_add_small [of b 3] by simp_all
  then show ?thesis unfolding in_range_def word_unat_eq_iff by auto
qed

lemma st32_with_bytes:
  assumes "unat b + 4 < 2 ^ 32"
  shows "st32 b w m = with_bytes b 4 (\<lambda>a. byte32 (unat (a - b)) w) m"
proof -
  have "b + 1 \<noteq> b" "b + 2 \<noteq> b" "b + 3 \<noteq> b" "b + 1 \<noteq> b + 2" "b + 1 \<noteq> b + 3" "b + 2 \<noteq> b + 3"
    by (simp_all add: add_left_cancel)
  then show ?thesis
    by (auto simp: st32_def with_bytes_def in_range_word [OF assms] fun_eq_iff)
qed

lemma in_range_split:
  assumes "unat b + 4 < 2 ^ 32"
  shows "in_range b (4 + k) a \<longleftrightarrow> in_range b 4 a \<or> in_range (b + 4) k a"
  using unat_plus4 [OF assms] by (auto simp: in_range_def)

lemma with_bytes_append:
  assumes "unat b + 4 < 2 ^ 32"
  shows "with_bytes (b + 4) k f (with_bytes b 4 f m) = with_bytes b (4 + k) f m"
  by (auto simp: with_bytes_def in_range_split [OF assms] fun_eq_iff)

lemma with_bytes_cong:
  assumes "\<And>a. in_range b k a \<Longrightarrow> f a = g a"
  shows "with_bytes b k f m = with_bytes b k g m"
  using assms by (auto simp: with_bytes_def fun_eq_iff)

lemma in_range_0 [simp]: "\<not> in_range b 0 a"
  by (auto simp: in_range_def)

lemma with_bytes_0 [simp]: "with_bytes b 0 f m = m"
  by (simp add: with_bytes_def)

lemma zero_words_spec:
  assumes "unat b + 4 * n < 2 ^ 31"
  shows "zero_words b (b + of_nat (4 * n)) m = Some (with_bytes b (4 * n) (\<lambda>_. 0) m)"
  using assms
proof (induction n arbitrary: b m)
  case 0
  then show ?case by (subst zero_words.simps) (simp add: word_sle_eq)
next
  case (Suc n)
  have lim: "unat (b + of_nat (4 * Suc n)) = unat b + 4 * Suc n"
    using Suc.prems by (intro unat_plus_nat) simp
  then have "\<not> word_sle (b + of_nat (4 * Suc n)) b"
    using Suc.prems by (subst word_sle_low; simp only: lim) simp_all
  moreover have "unat (b + 4) + 4 * n < 2 ^ 31" using Suc.prems unat_plus4 [of b] by simp
  note IH = Suc.IH [OF this]
  moreover have "st32 b 0 m = with_bytes b 4 (\<lambda>_. 0) m"
    using Suc.prems by (simp add: st32_with_bytes byte32_def)
  ultimately show ?case
    using Suc.prems
    by (subst zero_words.simps) (simp add: with_bytes_append algebra_simps)
qed


lemma zero_words_do_spec:
  assumes "unat b + 4 * Suc n < 2 ^ 31"
  shows "zero_words_do b (b + of_nat (4 * Suc n)) m = Some (with_bytes b (4 * Suc n) (\<lambda>_. 0) m)"
  using assms
proof (induction n arbitrary: b m)
  case 0
  then show ?case
    by (subst zero_words_do.simps) (simp add: Let_def word_sless_alt st32_with_bytes byte32_def)
next
  case (Suc n)
  have lim: "unat (b + of_nat (4 * Suc (Suc n))) = unat b + 4 * Suc (Suc n)"
    using Suc.prems by (intro unat_plus_nat) simp
  have b4: "unat (b + 4) = unat b + 4" using Suc.prems unat_plus4 [of b] by simp
  have "\<not> word_sle (b + of_nat (4 * Suc (Suc n))) (b + 4)"
    using Suc.prems by (subst word_sle_low; simp only: lim b4) simp_all
  moreover have "unat (b + 4) + 4 * Suc n < 2 ^ 31" using Suc.prems b4 by simp
  note IH = Suc.IH [OF this]
  moreover have "st32 b 0 m = with_bytes b 4 (\<lambda>_. 0) m"
    using Suc.prems by (simp add: st32_with_bytes byte32_def)
  ultimately show ?case
    using Suc.prems
    by (subst zero_words_do.simps)
      (simp add: Let_def word_sless_not_sle with_bytes_append algebra_simps)
qed

lemma ld8_with_bytes: "\<not> in_range b k a \<Longrightarrow> ld8 io (with_bytes b k f m) a = ld8 io m a"
  by (simp add: ld8_def with_bytes_def flash8_def)

lemma st32_ld32:
  assumes "unat d + 4 < 2 ^ 32"
  shows "st32 d (ld32 io m s) m = with_bytes d 4 (\<lambda>a. ld8 io m (s + (a - d))) m"
  unfolding st32_with_bytes [OF assms]
  by (rule with_bytes_cong) (auto simp: in_range_word [OF assms] ld32_def)

text \<open>The byte \<open>a\<close> of the destination comes from the source byte at the same distance.\<close>

lemma copied_from:
  assumes "in_range d k a" "unat s + k < 2 ^ 32" "unat d + k < 2 ^ 32"
  shows "unat (s + (a - d)) = unat s + (unat a - unat d)"
proof -
  have "unat (a - d) = unat a - unat d"
    using assms(1) by (simp add: in_range_def unat_sub word_le_nat_alt)
  moreover have "unat s + (unat a - unat d) < 2 ^ 32" using assms by (auto simp: in_range_def)
  ultimately show ?thesis using unat_add_small [of s "a - d"] by simp
qed

definition apart :: "u32 \<Rightarrow> u32 \<Rightarrow> nat \<Rightarrow> bool" where
  "apart s d k \<longleftrightarrow> unat s + k < 2 ^ 32 \<and> (unat s + k \<le> unat d \<or> unat d + k \<le> unat s)"

lemma copy_words_spec:
  assumes "unat d + 4 * n < 2 ^ 31" "apart s d (4 * n)"
  shows "copy_words io s d (d + of_nat (4 * n)) m =
     Some (with_bytes d (4 * n) (\<lambda>a. ld8 io m (s + (a - d))) m)"
  using assms
proof (induction n arbitrary: s d m)
  case 0
  then show ?case by (subst copy_words.simps) (simp add: word_sle_eq)
next
  case (Suc n)
  have lim: "unat (d + of_nat (4 * Suc n)) = unat d + 4 * Suc n"
    using Suc.prems by (intro unat_plus_nat) simp
  have d4: "unat (d + 4) = unat d + 4" and s4: "unat (s + 4) = unat s + 4"
    using Suc.prems unat_plus4 [of d] unat_plus4 [of s] by (simp_all add: apart_def)
  have more: "\<not> word_sle (d + of_nat (4 * Suc n)) d"
    using Suc.prems by (subst word_sle_low; simp only: lim) simp_all
  have "unat (d + 4) + 4 * n < 2 ^ 31" "apart (s + 4) (d + 4) (4 * n)"
    using Suc.prems by (auto simp: d4 s4 apart_def)
  note IH = Suc.IH [OF this, of "st32 d (ld32 io m s) m"]
  have st: "st32 d (ld32 io m s) m = with_bytes d 4 (\<lambda>a. ld8 io m (s + (a - d))) m"
    using Suc.prems by (intro st32_ld32) simp
  have "with_bytes (d + 4) (4 * n) (\<lambda>a. ld8 io (st32 d (ld32 io m s) m) (s + 4 + (a - (d + 4))))
      (st32 d (ld32 io m s) m) =
    with_bytes (d + 4) (4 * n) (\<lambda>a. ld8 io m (s + (a - d))) (st32 d (ld32 io m s) m)"
  proof (rule with_bytes_cong)
    fix a assume a: "in_range (d + 4) (4 * n) a"
    then have "in_range d (4 * Suc n) a" by (auto simp: in_range_def d4)
    with Suc.prems have "unat (s + (a - d)) = unat s + (unat a - unat d)"
      by (intro copied_from) (auto simp: apart_def)
    with a Suc.prems have "\<not> in_range d 4 (s + (a - d))"
      by (auto simp: in_range_def d4 apart_def)
    then show "ld8 io (st32 d (ld32 io m s) m) (s + 4 + (a - (d + 4))) = ld8 io m (s + (a - d))"
      unfolding st by (simp add: ld8_with_bytes algebra_simps)
  qed
  also have "\<dots> = with_bytes d (4 + 4 * n) (\<lambda>a. ld8 io m (s + (a - d))) m"
    unfolding st using Suc.prems by (intro with_bytes_append) simp
  finally have E: "with_bytes (d + 4) (4 * n)
      (\<lambda>a. ld8 io (st32 d (ld32 io m s) m) (s + 4 + (a - (d + 4)))) (st32 d (ld32 io m s) m) =
    with_bytes d (4 + 4 * n) (\<lambda>a. ld8 io m (s + (a - d))) m" .
  have "copy_words io (s + 4) (d + 4) (d + 4 + of_nat (4 * n)) (st32 d (ld32 io m s) m) =
      Some (with_bytes d (4 * Suc n) (\<lambda>a. ld8 io m (s + (a - d))) m)" unfolding IH E by simp
  moreover have "d + 4 + of_nat (4 * n) = d + of_nat (4 * Suc n)" by (simp add: algebra_simps)
  ultimately show ?case using more by (subst copy_words.simps) (simp only: if_False)
qed

lemma copy_words_do_spec:
  assumes "unat d + 4 * Suc n < 2 ^ 31" "apart s d (4 * Suc n)"
  shows "copy_words_do io s d (d + of_nat (4 * Suc n)) m =
     Some (with_bytes d (4 * Suc n) (\<lambda>a. ld8 io m (s + (a - d))) m)"
proof -
  have lim: "unat (d + of_nat (4 * Suc n)) = unat d + 4 * Suc n"
    using assms by (intro unat_plus_nat) simp
  have "\<not> word_sle (d + of_nat (4 * Suc n)) d"
    using assms by (subst word_sle_low; simp only: lim) simp_all
  then have "copy_words io s d (d + of_nat (4 * Suc n)) m =
      copy_words io (s + 4) (d + 4) (d + of_nat (4 * Suc n)) (st32 d (ld32 io m s) m)"
    by (subst copy_words.simps) (simp only: if_False)
  with copy_words_spec [OF assms, of io m] show ?thesis by (simp only: copy_words_do_eq)
qed

section \<open>The start-up code as a whole\<close>

text \<open>The RAM with \<open>.data\<close> (\<open>n\<close> bytes) copied and \<open>.bss\<close> (\<open>k\<close> bytes) cleared.\<close>

definition loaded :: "'h bus \<Rightarrow> sections \<Rightarrow> nat \<Rightarrow> nat \<Rightarrow> 'h mach \<Rightarrow> 'h mach" where
  "loaded io l n k m = m\<lparr>ram := \<lambda>a.
     if in_range (bss_begin l) k a then 0
     else if in_range (data_begin l) n a then ld8 io m (data_lma l + (a - data_begin l))
     else ram m a\<rparr>"

definition section_sizes :: "sections \<Rightarrow> nat \<Rightarrow> nat \<Rightarrow> bool" where
  "section_sizes l n k \<longleftrightarrow>
     data_end l = data_begin l + of_nat n \<and> bss_end l = bss_begin l + of_nat k \<and>
     unat (data_begin l) + n < 2 ^ 31 \<and> unat (bss_begin l) + k < 2 ^ 31 \<and>
     apart (data_lma l) (data_begin l) n"

lemma stage2_sections_loaded:
  assumes "section_sizes l (4 * n) (4 * k)"
  shows "stage2_sections io l m = Some (loaded io l (4 * n) (4 * k) m)"
proof -
  let ?m = "with_bytes (data_begin l) (4 * n) (\<lambda>a. ld8 io m (data_lma l + (a - data_begin l))) m"
  have "copy_words io (data_lma l) (data_begin l) (data_end l) m = Some ?m"
    using assms by (simp only: section_sizes_def copy_words_spec)
  moreover have "zero_words (bss_begin l) (bss_end l) ?m =
      Some (with_bytes (bss_begin l) (4 * k) (\<lambda>_. 0) ?m)"
    using assms by (simp only: section_sizes_def zero_words_spec)
  ultimately show ?thesis by (simp add: stage2_sections_def loaded_def with_bytes_def cong: if_cong)
qed

lemma marker_addr_neq:
  "(0x20000000 :: u32) + 1 \<noteq> 0x20000004" by simp

lemma ld32_st32: "in_ram b \<Longrightarrow> in_ram (b + 1) \<Longrightarrow> in_ram (b + 2) \<Longrightarrow> in_ram (b + 3) \<Longrightarrow>
    ld32 io (st32 b w m) b = w"
  by (simp add: ld32_def ld8_def st32_def add_left_cancel)

lemma marker_kept:
  "ld32 io (st32 0x20000004 r1 (st32 0x20000000 r0 m)) 0x20000000 = r0"
  "ld32 io (st32 0x20000004 r1 (st32 0x20000000 r0 m)) 0x20000004 = r1"
  by (simp_all add: ld32_def ld8_def st32_def in_ram_def)

lemma st32_same: "in_ram b \<Longrightarrow> in_ram (b + 1) \<Longrightarrow> in_ram (b + 2) \<Longrightarrow> in_ram (b + 3) \<Longrightarrow>
    st32 b (ld32 io m b) m = m"
  by (simp add: st32_def ld32_def ld8_def)

lemma arg_cong4: "a = a' \<Longrightarrow> b = b' \<Longrightarrow> c = c' \<Longrightarrow> d = d' \<Longrightarrow> f a b c d = f a' b' c' d'"
  by simp

lemma start_c_loaded:
  assumes sizes: "section_sizes l (4 * Suc n) (4 * Suc k)"
    and above: "0x20000008 \<le> unat (data_begin l)" "0x20000008 \<le> unat (bss_begin l)"
  shows "start_c io l m = Some (loaded io l (4 * Suc n) (4 * Suc k) m)"
proof -
  let ?m = "with_bytes (data_begin l) (4 * Suc n) (\<lambda>a. ld8 io m (data_lma l + (a - data_begin l))) m"
  let ?r = "loaded io l (4 * Suc n) (4 * Suc k) m"
  have 1: "copy_words_do io (data_lma l) (data_begin l) (data_end l) m = Some ?m"
    using sizes by (simp only: section_sizes_def copy_words_do_spec)
  have 2: "zero_words_do (bss_begin l) (bss_end l) ?m = Some ?r"
    using sizes by (simp only: section_sizes_def zero_words_do_spec)
      (simp add: loaded_def with_bytes_def cong: if_cong)
  have low: "ld8 io ?r a = ld8 io m a" if "unat a < 0x20000008" for a
    using that above by (simp add: ld8_def flash8_def loaded_def in_range_def)
  have "ld32 io m 0x20000000 = ld32 io ?r 0x20000000" "ld32 io m 0x20000004 = ld32 io ?r 0x20000004"
    unfolding ld32_def by (intro arg_cong4 [where f = le32] low [symmetric]; simp)+
  then show ?thesis
    using 2 by (simp add: start_c_def 1 st32_same in_ram_def)
qed

lemma start_c_marker:
  assumes "start_c io l m = Some m'"
  shows "ld32 io m' 0x20000000 = ld32 io m 0x20000000" "ld32 io m' 0x20000004 = ld32 io m 0x20000004"
  using assms by (auto simp: start_c_def Let_def marker_kept elim!: bind_SomeE)

section \<open>Properties\<close>

definition demo_sections :: sections where
  "demo_sections = \<lparr>data_lma = 0x3000, data_begin = 0x20000010, data_end = 0x20000018,
     bss_begin = 0x20000018, bss_end = 0x20000020\<rparr>"

definition demo_bus :: "unit bus" where
  "demo_bus = \<lparr>bus_rd32 = \<lambda>a d. (0, d), bus_wr32 = \<lambda>a v d. d, bus_mem8 = \<lambda>d a. ucast a\<rparr>"

definition demo_mach :: "unit mach" where
  "demo_mach = \<lparr>csr = \<lambda>_. 0, ram = \<lambda>_. 0xA5, dev = ()\<rparr>"

lemma demo_sizes: "section_sizes demo_sections (4 * Suc 1) (4 * Suc 1)"
  by (simp add: section_sizes_def demo_sections_def apart_def)

text \<open>C36: the start of stage 1 returns with \<open>.data\<close> copied from its load address, \<open>.bss\<close> cleared and
  every other byte of RAM (the reboot marker included) as it was, for sections of at least one word
  that lie above the marker and below 2 GB.\<close>

theorem start_c_loads_sections:
  assumes "section_sizes l (4 * Suc n) (4 * Suc k)"
    and "0x20000008 \<le> unat (data_begin l)" and "0x20000008 \<le> unat (bss_begin l)"
  shows "start_c io l m = Some (loaded io l (4 * Suc n) (4 * Suc k) m)"
  by (rule start_c_loaded [OF assms])

theorem start_c_loads_sections_witness:
  "map_option (\<lambda>m. (ram m 0x20000011, ram m 0x20000019, ram m 0x20000001))
     (start_c demo_bus demo_sections demo_mach) = Some (1, 0, 0xA5)"
proof -
  have "start_c demo_bus demo_sections demo_mach =
      Some (loaded demo_bus demo_sections (4 * Suc 1) (4 * Suc 1) demo_mach)"
    by (rule start_c_loads_sections [OF demo_sizes]) (simp_all add: demo_sections_def)
  then show ?thesis
    by (simp add: loaded_def in_range_def demo_sections_def demo_mach_def demo_bus_def ld8_def
      in_ram_def flash8_def)
qed

text \<open>C37: whatever the linker's addresses are, a start of stage 1 that returns hands the two words of
  the reboot marker to \<open>main\<close> unchanged.\<close>

theorem start_c_keeps_marker:
  assumes "start_c io l m = Some m'"
  shows "ld32 io m' 0x20000000 = ld32 io m 0x20000000 \<and>
     ld32 io m' 0x20000004 = ld32 io m 0x20000004"
  using start_c_marker [OF assms] by simp

theorem start_c_keeps_marker_witness:
  "ld32 demo_bus (loaded demo_bus demo_sections (4 * Suc 1) (4 * Suc 1) demo_mach) 0x20000000 =
     ld32 demo_bus demo_mach 0x20000000"
proof -
  have "start_c demo_bus demo_sections demo_mach =
      Some (loaded demo_bus demo_sections (4 * Suc 1) (4 * Suc 1) demo_mach)"
    by (rule start_c_loaded [OF demo_sizes]) (simp_all add: demo_sections_def)
  from start_c_keeps_marker [OF this] show ?thesis by simp
qed

text \<open>The loops of stage 1, which test after each word, run like the loops of stage 2, which test
  before it, after one word: with an empty section they still write a word.\<close>

theorem copy_loops_equivalent:
  "copy_words_do io t0 t1 t2 m = copy_words io (t0 + 4) (t1 + 4) t2 (st32 t1 (ld32 io m t0) m)"
  by (rule copy_words_do_eq)

text \<open>The start of stage 2 copies \<open>.data\<close> and clears \<open>.bss\<close>, empty sections included.\<close>

theorem stage2_loads_sections:
  assumes "section_sizes l (4 * n) (4 * k)"
  shows "stage2_sections io l m = Some (loaded io l (4 * n) (4 * k) m)"
  by (rule stage2_sections_loaded [OF assms])

theorem stage2_loads_sections_witness:
  "stage2_sections demo_bus (demo_sections\<lparr>data_end := 0x20000010, bss_end := 0x20000018\<rparr>) demo_mach =
     Some demo_mach"
proof -
  let ?l = "demo_sections\<lparr>data_end := 0x20000010, bss_end := 0x20000018\<rparr>"
  have "section_sizes ?l (4 * 0) (4 * 0)" by (simp add: section_sizes_def demo_sections_def apart_def)
  from stage2_loads_sections [OF this, of demo_bus demo_mach] show ?thesis
    by (simp add: loaded_def)
qed

end
