(* ===== verification/Clock.thy ===== *)
theory Clock
  imports Prelude
begin

text \<open>
  Clocks and peripheral enables: \<^verbatim>\<open>esprit_mini/rcu.cpp\<close>, \<^verbatim>\<open>esprit_mini/peripheral.cpp\<close> and their
  register constants in \<^verbatim>\<open>esprit_mini/include\<close>. Every access goes over the bus; a busy wait that
  never ends is \<open>None\<close>.
\<close>

section \<open>Registers\<close>

definition LN_RCU_ADR :: u32 where "LN_RCU_ADR = 0x40021000"
definition LN_FMC_ADR :: u32 where "LN_FMC_ADR = 0x40022000"

definition RCU_CTL :: u32 where "RCU_CTL = LN_RCU_ADR + 0x00"
definition RCU_CFG0 :: u32 where "RCU_CFG0 = LN_RCU_ADR + 0x04"
definition RCU_AHBEN :: u32 where "RCU_AHBEN = LN_RCU_ADR + 0x14"
definition RCU_APB2EN :: u32 where "RCU_APB2EN = LN_RCU_ADR + 0x18"
definition RCU_CFG1 :: u32 where "RCU_CFG1 = LN_RCU_ADR + 0x2c"

lemmas rcu_addr_defs = LN_RCU_ADR_def RCU_CTL_def RCU_CFG0_def RCU_AHBEN_def RCU_APB2EN_def
  RCU_CFG1_def

definition LN_RCU_CTL_IRC8MEN :: u32 where "LN_RCU_CTL_IRC8MEN = push_bit 0 1"
definition LN_RCU_CTL_IRC8MSTB :: u32 where "LN_RCU_CTL_IRC8MSTB = push_bit 1 1"
definition LN_RCU_CTL_HXTALEN :: u32 where "LN_RCU_CTL_HXTALEN = push_bit 16 1"
definition LN_RCU_CTL_HXTASTB :: u32 where "LN_RCU_CTL_HXTASTB = push_bit 17 1"
definition LN_RCU_CTL_PLLEN :: u32 where "LN_RCU_CTL_PLLEN = push_bit 24 1"
definition LN_RCU_CTL_PLLSTB :: u32 where "LN_RCU_CTL_PLLSTB = push_bit 25 1"

definition LN_RCU_APB2_AFEN :: u32 where "LN_RCU_APB2_AFEN = push_bit 0 1"
definition LN_RCU_APB2_PAEN :: u32 where "LN_RCU_APB2_PAEN = push_bit 2 1"
definition LN_RCU_APB2_PBEN :: u32 where "LN_RCU_APB2_PBEN = push_bit 3 1"
definition LN_RCU_APB2_PCEN :: u32 where "LN_RCU_APB2_PCEN = push_bit 4 1"
definition LN_RCU_APB2_PDEN :: u32 where "LN_RCU_APB2_PDEN = push_bit 5 1"
definition LN_RCU_APB2_PEEN :: u32 where "LN_RCU_APB2_PEEN = push_bit 6 1"
definition LN_RCU_AHB_DMA0EN :: u32 where "LN_RCU_AHB_DMA0EN = push_bit 0 1"
definition LN_RCU_AHB_DMA1EN :: u32 where "LN_RCU_AHB_DMA1EN = push_bit 1 1"
definition LN_RCU_AHB_USBHSEN_CH32V3x :: u32 where "LN_RCU_AHB_USBHSEN_CH32V3x = push_bit 11 1"
definition LN_RCU_AHB_USBFSEN_OTG_CH32V3x :: u32 where
  "LN_RCU_AHB_USBFSEN_OTG_CH32V3x = push_bit 12 1"

definition LN_RCU_CFG0_SYSCLOCK_MASK :: u32 where "LN_RCU_CFG0_SYSCLOCK_MASK = 3"
definition LN_RCU_CFG0_SYSCLOCK_PLL :: u32 where "LN_RCU_CFG0_SYSCLOCK_PLL = push_bit 1 1"
definition LN_RCU_CFG0_SYSCLOCK_IRC8 :: u32 where "LN_RCU_CFG0_SYSCLOCK_IRC8 = 0"
definition LN_RCU_CFG0_PLLSEL :: u32 where "LN_RCU_CFG0_PLLSEL = push_bit 16 1"
definition LN_RCU_CFG0_PREDIV :: u32 where "LN_RCU_CFG0_PREDIV = push_bit 17 1"
definition LN_RCU_CFG0_USBPSC_MASK :: u32 where "LN_RCU_CFG0_USBPSC_MASK = NOT (push_bit 22 3)"
definition LN_RCU_CFG0_USBPSC :: "u32 \<Rightarrow> u32" where "LN_RCU_CFG0_USBPSC x = push_bit 22 (x AND 3)"
definition LN_RCU_CFG0_PLLMUL_MASK :: u32 where "LN_RCU_CFG0_PLLMUL_MASK = push_bit 18 0xf"
definition LN_RCU_CFG0_PLLMUL :: "u32 \<Rightarrow> u32" where "LN_RCU_CFG0_PLLMUL x = push_bit 18 x"
definition LN_RCU_CFG0_AHB_MASK :: u32 where "LN_RCU_CFG0_AHB_MASK = push_bit 4 0xf"
definition LN_RCU_CFG0_AHB_DIV :: "u32 \<Rightarrow> u32" where "LN_RCU_CFG0_AHB_DIV x = push_bit 4 x"
definition LN_RCU_CFG0_APB1_MASK :: u32 where "LN_RCU_CFG0_APB1_MASK = push_bit 8 7"
definition LN_RCU_CFG0_APB1_DIV :: "u32 \<Rightarrow> u32" where "LN_RCU_CFG0_APB1_DIV x = push_bit 8 x"
definition LN_RCU_CFG0_APB2_MASK :: u32 where "LN_RCU_CFG0_APB2_MASK = push_bit 11 7"
definition LN_RCU_CFG0_APB2_DIV :: "u32 \<Rightarrow> u32" where "LN_RCU_CFG0_APB2_DIV x = push_bit 11 x"
definition LN_FMC_WS_LATENCY_2 :: u32 where "LN_FMC_WS_LATENCY_2 = 2"

lemmas rcu_bit_defs = LN_RCU_CTL_IRC8MEN_def LN_RCU_CTL_IRC8MSTB_def LN_RCU_CTL_HXTALEN_def
  LN_RCU_CTL_HXTASTB_def LN_RCU_CTL_PLLEN_def LN_RCU_CTL_PLLSTB_def LN_RCU_APB2_AFEN_def
  LN_RCU_APB2_PAEN_def LN_RCU_APB2_PBEN_def LN_RCU_APB2_PCEN_def LN_RCU_APB2_PDEN_def
  LN_RCU_APB2_PEEN_def LN_RCU_AHB_DMA0EN_def LN_RCU_AHB_DMA1EN_def LN_RCU_AHB_USBHSEN_CH32V3x_def
  LN_RCU_AHB_USBFSEN_OTG_CH32V3x_def

lemmas cfg0_defs = LN_RCU_CFG0_SYSCLOCK_MASK_def LN_RCU_CFG0_SYSCLOCK_PLL_def
  LN_RCU_CFG0_SYSCLOCK_IRC8_def LN_RCU_CFG0_PLLSEL_def LN_RCU_CFG0_PREDIV_def
  LN_RCU_CFG0_USBPSC_MASK_def LN_RCU_CFG0_USBPSC_def LN_RCU_CFG0_PLLMUL_MASK_def
  LN_RCU_CFG0_PLLMUL_def LN_RCU_CFG0_AHB_MASK_def LN_RCU_CFG0_AHB_DIV_def
  LN_RCU_CFG0_APB1_MASK_def LN_RCU_CFG0_APB1_DIV_def LN_RCU_CFG0_APB2_MASK_def
  LN_RCU_CFG0_APB2_DIV_def

section \<open>Peripheral enables\<close>

datatype Peripherals =
  pNONE | pSPI0 | pSPI1 | pSPI2 | pUART0 | pUART1 | pUART2 | pUART3 | pUART4 | pI2C0 | pI2C1
| pCAN0 | pCAN1 | pDAC | pPMU | pBKPI | pWWDGT | pTIMER0 | pTIMER1 | pTIMER2 | pTIMER3 | pTIMER4
| pTIMER5 | pTIMER6 | pUSB | pADC0 | pADC1 | pGPIOA | pGPIOB | pGPIOC | pGPIOD | pGPIOE | pAF
| pDMA0 | pDMA1 | pUSBHS_CH32v3x | pUSBFS_OTG_CH32v3x | pAPB1 | pAPB2 | pSYSCLOCK

definition enable_periph :: "'h bus \<Rightarrow> Peripherals \<Rightarrow> 'h mach \<Rightarrow> 'h mach" where
  "enable_periph io periph = (case periph of
     pGPIOA \<Rightarrow> or32 io RCU_APB2EN LN_RCU_APB2_PAEN
   | pGPIOB \<Rightarrow> or32 io RCU_APB2EN LN_RCU_APB2_PBEN
   | pGPIOC \<Rightarrow> or32 io RCU_APB2EN LN_RCU_APB2_PCEN
   | pGPIOD \<Rightarrow> or32 io RCU_APB2EN LN_RCU_APB2_PDEN
   | pGPIOE \<Rightarrow> or32 io RCU_APB2EN LN_RCU_APB2_PEEN
   | pAF \<Rightarrow> or32 io RCU_APB2EN LN_RCU_APB2_AFEN
   | pUSB \<Rightarrow> or32 io RCU_AHBEN LN_RCU_AHB_USBFSEN_OTG_CH32V3x
   | pUSBFS_OTG_CH32v3x \<Rightarrow> or32 io RCU_AHBEN LN_RCU_AHB_USBFSEN_OTG_CH32V3x
   | pUSBHS_CH32v3x \<Rightarrow> or32 io RCU_AHBEN LN_RCU_AHB_USBHSEN_CH32V3x
   | pDMA0 \<Rightarrow> or32 io RCU_AHBEN LN_RCU_AHB_DMA0EN
   | pDMA1 \<Rightarrow> or32 io RCU_AHBEN LN_RCU_AHB_DMA1EN
   | _ \<Rightarrow> id)"

definition disable_periph :: "'h bus \<Rightarrow> Peripherals \<Rightarrow> 'h mach \<Rightarrow> 'h mach" where
  "disable_periph io periph = (case periph of
     pGPIOA \<Rightarrow> and32 io RCU_APB2EN (NOT LN_RCU_APB2_PAEN)
   | pGPIOB \<Rightarrow> and32 io RCU_APB2EN (NOT LN_RCU_APB2_PBEN)
   | pGPIOC \<Rightarrow> and32 io RCU_APB2EN (NOT LN_RCU_APB2_PCEN)
   | pGPIOD \<Rightarrow> and32 io RCU_APB2EN (NOT LN_RCU_APB2_PDEN)
   | pGPIOE \<Rightarrow> and32 io RCU_APB2EN (NOT LN_RCU_APB2_PEEN)
   | pAF \<Rightarrow> and32 io RCU_APB2EN (NOT LN_RCU_APB2_AFEN)
   | pUSB \<Rightarrow> and32 io RCU_AHBEN (NOT LN_RCU_AHB_USBFSEN_OTG_CH32V3x)
   | pUSBFS_OTG_CH32v3x \<Rightarrow> and32 io RCU_AHBEN (NOT LN_RCU_AHB_USBFSEN_OTG_CH32V3x)
   | pUSBHS_CH32v3x \<Rightarrow> and32 io RCU_AHBEN (NOT LN_RCU_AHB_USBHSEN_CH32V3x)
   | _ \<Rightarrow> id)"

definition reset_periph :: "Peripherals \<Rightarrow> 'h mach \<Rightarrow> 'h mach" where
  "reset_periph periph = id"

section \<open>Clock set-up\<close>

text \<open>
  \<open>while (!(reg & mask));\<close> and its variants: the register at \<open>a\<close> is read until the test holds.
\<close>

partial_function (option) wait_until ::
  "'h bus \<Rightarrow> u32 \<Rightarrow> (u32 \<Rightarrow> bool) \<Rightarrow> 'h mach \<Rightarrow> 'h mach option" where
  "wait_until io a test m =
     (case rd32 io a m of (v, m) \<Rightarrow> if test v then Some m else wait_until io a test m)"

definition waitControlBit :: "'h bus \<Rightarrow> u32 \<Rightarrow> 'h mach \<Rightarrow> 'h mach option" where
  "waitControlBit io mask_bits = wait_until io RCU_CTL (\<lambda>v. flag_set v mask_bits)"

definition Multipliers :: "u32 list" where
  "Multipliers = [0, 0, 0, 1,  2, 3, 4, 5,  6, 7, 8, 9,  10, 11, 12, 13,  14, 14, 15]"

text \<open>The value \<open>setPll\<close> gives \<open>CFG0\<close>.\<close>

definition pll_cfg :: "nat \<Rightarrow> bool \<Rightarrow> u32 \<Rightarrow> u32" where
  "pll_cfg multiplier external c0 =
     (let c0 = c0 AND NOT (LN_RCU_CFG0_PLLMUL_MASK OR LN_RCU_CFG0_PLLSEL OR LN_RCU_CFG0_PREDIV);
          c0 = c0 OR LN_RCU_CFG0_PLLMUL (Multipliers ! multiplier)
      in if external then c0 OR LN_RCU_CFG0_PLLSEL else c0 AND NOT LN_RCU_CFG0_PLLSEL)"

definition setPll :: "'h bus \<Rightarrow> nat \<Rightarrow> bool \<Rightarrow> 'h mach \<Rightarrow> 'h mach option" where
  "setPll io multiplier external m =
     (let m = wr32 io RCU_CFG1 0 m;
          (c0, m) = rd32 io RCU_CFG0 m;
          m = wr32 io RCU_CFG0 (pll_cfg multiplier external c0) m;
          m = or32 io RCU_CTL LN_RCU_CTL_PLLEN m
      in waitControlBit io LN_RCU_CTL_PLLSTB m)"

text \<open>The globals of rcu.cpp.\<close>

record clocks =
  SystemCoreClock :: u32
  rcuClockApb1 :: u32
  rcuClockApb2 :: u32

definition set_clocks :: "clocks \<Rightarrow> clocks" where
  "set_clocks g =
     (let inputClock = 8; multiplier = 144 div inputClock;
          g = g\<lparr>SystemCoreClock := inputClock * multiplier * 1000000\<rparr>
      in g\<lparr>rcuClockApb1 := SystemCoreClock g, rcuClockApb2 := SystemCoreClock g\<rparr>)"

definition lnInitSystemClock_limited :: "clocks \<Rightarrow> clocks" where
  "lnInitSystemClock_limited g = set_clocks g"

text \<open>The prescaler fields, and the switch to the PLL.\<close>

definition bus_cfg :: "u32 \<Rightarrow> u32" where
  "bus_cfg clks =
     (let clks = clks AND NOT LN_RCU_CFG0_AHB_MASK; clks = clks OR LN_RCU_CFG0_AHB_DIV 0;
          clks = clks AND NOT LN_RCU_CFG0_APB1_MASK; clks = clks OR LN_RCU_CFG0_APB1_DIV 0;
          clks = clks AND NOT LN_RCU_CFG0_APB2_MASK; clks = clks OR LN_RCU_CFG0_APB2_DIV 0;
          clks = clks AND LN_RCU_CFG0_USBPSC_MASK
      in clks OR LN_RCU_CFG0_USBPSC 2)"

definition pll_switch :: "u32 \<Rightarrow> u32" where
  "pll_switch clks = (clks AND NOT LN_RCU_CFG0_SYSCLOCK_MASK) OR LN_RCU_CFG0_SYSCLOCK_PLL"

definition lnInitSystemClock ::
  "'h bus \<Rightarrow> clocks \<Rightarrow> 'h mach \<Rightarrow> (clocks \<times> 'h mach) option" where
  "lnInitSystemClock io g m = do {
     let m = or32 io RCU_CTL LN_RCU_CTL_IRC8MEN m;
     m \<leftarrow> waitControlBit io LN_RCU_CTL_IRC8MSTB m;
     let (sysClock, m) = rd32 io RCU_CFG0 m;
     let m = wr32 io RCU_CFG0 (sysClock AND NOT LN_RCU_CFG0_SYSCLOCK_MASK) m;
     m \<leftarrow> wait_until io RCU_CFG0
           (\<lambda>v. v AND LN_RCU_CFG0_SYSCLOCK_MASK = LN_RCU_CFG0_SYSCLOCK_IRC8) m;
     let m = and32 io RCU_CTL (NOT LN_RCU_CTL_HXTALEN) m;
     let m = and32 io RCU_CTL (NOT LN_RCU_CTL_PLLEN) m;
     let m = or32 io RCU_CTL LN_RCU_CTL_HXTALEN m;
     m \<leftarrow> waitControlBit io LN_RCU_CTL_HXTASTB m;
     m \<leftarrow> setPll io (144 div 8) True m;
     let g = set_clocks g;
     let (clks, m) = rd32 io RCU_CFG0 m;
     let clks = bus_cfg clks;
     let m = wr32 io RCU_CFG0 clks m;
     let m = wr32 io (LN_FMC_ADR + 0x00) LN_FMC_WS_LATENCY_2 m;
     let clks = pll_switch clks;
     let m = wr32 io RCU_CFG0 clks m;
     m \<leftarrow> wait_until io RCU_CFG0
           (\<lambda>v. v AND LN_RCU_CFG0_SYSCLOCK_MASK = LN_RCU_CFG0_SYSCLOCK_PLL) m;
     Some (g, m) }"

section \<open>Properties\<close>

lemma wait_until_frame:
  "wait_until io a test m = Some m' \<Longrightarrow> csr m' = csr m \<and> ram m' = ram m"
proof (rule wait_until.raw_induct [where P = "\<lambda>io a test m m'. csr m' = csr m \<and> ram m' = ram m"])
  show "\<And>f io a test m m'.
       (\<And>io a test m m'. f io a test m = Some m' \<Longrightarrow> csr m' = csr m \<and> ram m' = ram m) \<Longrightarrow>
       (case rd32 io a m of (v, m) \<Rightarrow> if test v then Some m else f io a test m) = Some m' \<Longrightarrow>
       csr m' = csr m \<and> ram m' = ram m"
    by (force split: prod.split_asm if_split_asm dest: rd32_frameD)
qed

text \<open>A register that becomes ready: the number of reads until the test holds is bounded.\<close>

definition becomes_ready :: "'h bus \<Rightarrow> u32 \<Rightarrow> (u32 \<Rightarrow> bool) \<Rightarrow> ('h \<Rightarrow> nat) \<Rightarrow> bool" where
  "becomes_ready io a test f \<longleftrightarrow>
     (\<forall>d v d'. bus_rd32 io a d = (v, d') \<longrightarrow> test v \<or> f d' < f d)"

lemma wait_until_returns:
  assumes "becomes_ready io a test f" shows "wait_until io a test m \<noteq> None"
proof (induction "f (dev m)" arbitrary: m rule: less_induct)
  case less
  obtain v d where rd: "bus_rd32 io a (dev m) = (v, d)" by force
  then have m1: "rd32 io a m = (v, m\<lparr>dev := d\<rparr>)" by (simp add: rd32_def)
  show ?case
  proof (cases "test v")
    case True
    then show ?thesis by (subst wait_until.simps) (simp add: m1)
  next
    case False
    with assms rd have "f d < f (dev m)" by (auto simp: becomes_ready_def)
    with less [of "m\<lparr>dev := d\<rparr>"] False show ?thesis by (subst wait_until.simps) (simp add: m1)
  qed
qed

lemma waitControlBit_frame:
  "waitControlBit io b m = Some m' \<Longrightarrow> csr m' = csr m \<and> ram m' = ram m"
  unfolding waitControlBit_def by (rule wait_until_frame)

lemma setPll_frame:
  "setPll io k e m = Some m' \<Longrightarrow> csr m' = csr m \<and> ram m' = ram m"
  by (auto simp: setPll_def Let_def split: prod.split_asm dest!: waitControlBit_frame rd32_frameD)

lemma lnInitSystemClock_frame:
  assumes "lnInitSystemClock io g m = Some (g', m')"
  shows "csr m' = csr m" "ram m' = ram m" "g' = set_clocks g"
  using assms
  by (auto simp: lnInitSystemClock_def Let_def elim!: bind_SomeE split: prod.split_asm
    dest!: waitControlBit_frame setPll_frame wait_until_frame rd32_frameD)

lemma periph_frame [simp]:
  "csr (enable_periph io p m) = csr m" "ram (enable_periph io p m) = ram m"
  "csr (disable_periph io p m) = csr m" "ram (disable_periph io p m) = ram m"
  by (cases p; simp add: enable_periph_def disable_periph_def)+

text \<open>The fields of the clock configuration that the switch to the PLL leaves.\<close>

definition cfg_field :: "nat \<Rightarrow> nat \<Rightarrow> u32 \<Rightarrow> u32" where
  "cfg_field lo n w = w AND push_bit lo (mask n)"

lemma clock_fields:
  "cfg_field 18 4 (pll_switch (bus_cfg (pll_cfg 18 True c))) = push_bit 18 15"
  "cfg_field 16 2 (pll_switch (bus_cfg (pll_cfg 18 True c))) = push_bit 16 1"
  "cfg_field 4 4 (pll_switch (bus_cfg (pll_cfg 18 True c))) = 0"
  "cfg_field 8 6 (pll_switch (bus_cfg (pll_cfg 18 True c))) = 0"
  "cfg_field 22 2 (pll_switch (bus_cfg (pll_cfg 18 True c))) = push_bit 22 2"
  "cfg_field 0 2 (pll_switch (bus_cfg (pll_cfg 18 True c))) = 2"
  by (simp_all add: cfg_field_def pll_switch_def bus_cfg_def pll_cfg_def cfg0_defs Multipliers_def
    Let_def mask_eq_exp_minus_1 bit.conj_disj_distrib2 and.assoc)

end
