(* ===== verification/Timer.thy ===== *)
theory Timer
  imports Clock
begin

text \<open>
  The interrupt controller (\<^verbatim>\<open>esprit_mini/irq.cpp\<close>, \<^verbatim>\<open>src_stage2/stage2_irq.cpp\<close>) and the system
  timer (\<^verbatim>\<open>esprit_mini/system_timer.cpp\<close>).

  The only interrupt of the bootloader is SysTick. It can be taken wherever interrupts are enabled,
  but it touches only the tick counter and the timer's status register, so it matters only where the
  code reads the counter. There \<open>take_irq\<close> lets it happen: the parameter \<open>fires\<close> says for a device
  state whether the interrupt is pending, and how the device state moves on.
\<close>

section \<open>The interrupt controller\<close>

definition LN_PFIC_ADR :: u32 where "LN_PFIC_ADR = 0xE000E000"
definition PFIC_CFGR :: u32 where "PFIC_CFGR = LN_PFIC_ADR + 0x48"
definition PFIC_IENR :: u32 where "PFIC_IENR = LN_PFIC_ADR + 0x100"
definition PFIC_IRER :: u32 where "PFIC_IRER = LN_PFIC_ADR + 0x180"
definition PFIC_IPRIOIR :: u32 where "PFIC_IPRIOIR = LN_PFIC_ADR + 0x400"

datatype LnIRQ =
  LN_IRQ_NONE | LN_IRQ_USBFS | LN_IRQ_USBFS_WKUP | LN_IRQ_SYSTICK | LN_IRQ_SW | LN_IRQ_LAST

fun irq_num :: "LnIRQ \<Rightarrow> nat" where
  "irq_num LN_IRQ_NONE = 0"
| "irq_num LN_IRQ_USBFS = 82"
| "irq_num LN_IRQ_USBFS_WKUP = 42"
| "irq_num LN_IRQ_SYSTICK = 12"
| "irq_num LN_IRQ_SW = 14"
| "irq_num LN_IRQ_LAST = 15"

definition lnNoInterrupt :: "'h mach \<Rightarrow> 'h mach" where
  "lnNoInterrupt = csrc MSTATUS MIE_BIT"

definition lnInterrupts :: "'h mach \<Rightarrow> 'h mach" where
  "lnInterrupts = csrs MSTATUS MIE_BIT"

definition lnEnableInterrupt :: "'h bus \<Rightarrow> LnIRQ \<Rightarrow> 'h mach \<Rightarrow> 'h mach" where
  "lnEnableInterrupt io irq =
     wr32 io (PFIC_IENR + 4 * of_nat (irq_num irq div 32)) (push_bit (irq_num irq mod 32) 1)"

definition lnDisableInterrupt :: "'h bus \<Rightarrow> LnIRQ \<Rightarrow> 'h mach \<Rightarrow> 'h mach" where
  "lnDisableInterrupt io irq =
     wr32 io (PFIC_IRER + 4 * of_nat (irq_num irq div 32)) (push_bit (irq_num irq mod 32) 1)"

text \<open>The word of four priority bytes with the one of \<open>irq\<close> replaced.\<close>

definition prio_word :: "LnIRQ \<Rightarrow> u32 \<Rightarrow> u32 \<Rightarrow> u32" where
  "prio_word irq prio b =
     (let s = irq_num irq mod 4 * 8
      in (b AND NOT (push_bit s 0xff)) OR push_bit s (push_bit 4 prio))"

definition lnIrqSetPriority :: "'h bus \<Rightarrow> LnIRQ \<Rightarrow> u32 \<Rightarrow> 'h mach \<Rightarrow> 'h mach" where
  "lnIrqSetPriority io irq prio m =
     (let r = irq_num irq div 4;
          (b, m) = rd32 io (PFIC_IPRIOIR + 4 * of_nat r) m
      in wr32 io (PFIC_IPRIOIR + 4 * of_nat r) (prio_word irq prio b) m)"

section \<open>Vectored interrupts in stage 2\<close>

definition CSR_INTMASK :: "12 word" where "CSR_INTMASK = 0xBC0"
definition CSR_INTSYSCR :: "12 word" where "CSR_INTSYSCR = 0x804"
definition CSR_MIE :: "12 word" where "CSR_MIE = 0x304"
definition CSR_MTVEC :: "12 word" where "CSR_MTVEC = 0x305"

definition CSR_BC0_MSIE :: u32 where "CSR_BC0_MSIE = push_bit 0 1"
definition CSR_BC0_MEIE :: u32 where "CSR_BC0_MEIE = push_bit 2 1"
definition CSR_BC0_OTHER :: u32 where "CSR_BC0_OTHER = push_bit 3 1 OR push_bit 4 1"
definition INTMASK_VALUE :: u32 where
  "INTMASK_VALUE = CSR_BC0_MSIE OR CSR_BC0_MEIE OR CSR_BC0_OTHER"
definition INTSYSCR_INESTEN :: u32 where "INTSYSCR_INESTEN = push_bit 1 1"
definition INTSYSCR_MPTCFG_2 :: u32 where "INTSYSCR_MPTCFG_2 = push_bit 2 1"
definition INTSYSCR_HWSTKOVEN :: u32 where "INTSYSCR_HWSTKOVEN = push_bit 4 1"
definition INTSYSCR_VALUE :: u32 where
  "INTSYSCR_VALUE = INTSYSCR_INESTEN OR INTSYSCR_MPTCFG_2 OR INTSYSCR_HWSTKOVEN"
definition MIE_MEIE :: u32 where "MIE_MEIE = push_bit 11 1"
definition MTVEC_WCH_VECTORED :: u32 where "MTVEC_WCH_VECTORED = 3"
definition PFIC_CFGR_VECTORED :: u32 where "PFIC_CFGR_VECTORED = push_bit 0 1"
definition PFIC_CFGR_RESETSYS :: u32 where "PFIC_CFGR_RESETSYS = push_bit 7 1"
definition PFIC_IPRIOIR_COUNT :: nat where "PFIC_IPRIOIR_COUNT = 64"
definition PFIC_PRIO :: "u32 \<Rightarrow> u32" where "PFIC_PRIO x = push_bit 4 x"
definition PFIC_DEFAULT_PRIO :: u32 where "PFIC_DEFAULT_PRIO = 5"
definition PFIC_VECTOR_SYSTICK :: nat where "PFIC_VECTOR_SYSTICK = 12"
definition VEC_TABLE_SIZE :: nat where "VEC_TABLE_SIZE = 256"

text \<open>Addresses the linker chooses: the vector table and the two handlers.\<close>

record vectors =
  vec_table_addr :: u32
  default_vector :: u32
  systick_vector :: u32

definition init_vec_table :: "vectors \<Rightarrow> u32 list" where
  "init_vec_table l =
     (replicate VEC_TABLE_SIZE (default_vector l))[PFIC_VECTOR_SYSTICK := systick_vector l]"

fun set_priorities :: "'h bus \<Rightarrow> u32 \<Rightarrow> nat \<Rightarrow> 'h mach \<Rightarrow> 'h mach" where
  "set_priorities io prio32 0 m = m"
| "set_priorities io prio32 (Suc n) m =
     set_priorities io prio32 n
       (wr32 io (PFIC_IPRIOIR + 4 * of_nat (PFIC_IPRIOIR_COUNT - Suc n)) prio32 m)"

definition stage2_irq_init :: "'h bus \<Rightarrow> vectors \<Rightarrow> 'h mach \<Rightarrow> u32 list \<times> 'h mach" where
  "stage2_irq_init io l m =
     (let vec_table = init_vec_table l;
          m = csrw CSR_INTMASK INTMASK_VALUE m;
          m = csrw CSR_MIE MIE_MEIE m;
          m = csrw CSR_INTSYSCR INTSYSCR_VALUE m;
          m = set_priorities io (PFIC_PRIO PFIC_DEFAULT_PRIO * 0x01010101) PFIC_IPRIOIR_COUNT m;
          m = or32 io PFIC_CFGR PFIC_CFGR_VECTORED m;
          m = csrw CSR_MTVEC (vec_table_addr l OR MTVEC_WCH_VECTORED) m
      in (vec_table, m))"

text \<open>\<open>system_reset\<close> writes the reset key and does not return.\<close>

definition system_reset :: "'h bus \<Rightarrow> 'h mach \<Rightarrow> 'h mach" where
  "system_reset io = wr32 io PFIC_CFGR (PFIC_CFGR_RESETSYS OR push_bit 16 0xbeef)"

section \<open>The system timer\<close>

definition LN_STK_ADR :: u32 where "LN_STK_ADR = 0xE000F000"
definition STK_CTLR :: u32 where "STK_CTLR = LN_STK_ADR + 0x00"
definition STK_SR :: u32 where "STK_SR = LN_STK_ADR + 0x04"
definition STK_CTN_LO :: u32 where "STK_CTN_LO = LN_STK_ADR + 0x08"
definition STK_CTN_HI :: u32 where "STK_CTN_HI = LN_STK_ADR + 0x0C"
definition STK_CMP_LO :: u32 where "STK_CMP_LO = LN_STK_ADR + 0x10"
definition STK_CMP_HI :: u32 where "STK_CMP_HI = LN_STK_ADR + 0x14"

definition SYSTICK_STEN :: u32 where "SYSTICK_STEN = push_bit 0 1"
definition SYSTICK_STIE :: u32 where "SYSTICK_STIE = push_bit 1 1"
definition SYSTICK_STCLK :: u32 where "SYSTICK_STCLK = push_bit 2 1"
definition SYSTICK_STRE :: u32 where "SYSTICK_STRE = push_bit 3 1"
definition SYSTICK_MODE_UP :: u32 where "SYSTICK_MODE_UP = push_bit 4 0"
definition SYSTICK_INIT :: u32 where "SYSTICK_INIT = push_bit 5 1"

record timer =
  tickPerUs :: u64
  sys_tick_count :: u32

definition timer_reset :: timer where
  "timer_reset = \<lparr>tickPerUs = 1, sys_tick_count = 0\<rparr>"

definition systick_isr :: "'h bus \<Rightarrow> timer \<times> 'h mach \<Rightarrow> timer \<times> 'h mach" where
  "systick_isr io s = (case s of (t, m) \<Rightarrow>
     (t\<lparr>sys_tick_count := sys_tick_count t + 1\<rparr>, wr32 io STK_SR 0 m))"

definition getTickCount :: "timer \<Rightarrow> u32" where
  "getTickCount t = sys_tick_count t"

definition stage2_get_ticks :: "timer \<Rightarrow> u32" where
  "stage2_get_ticks t = getTickCount t"

definition take_irq ::
  "'h bus \<Rightarrow> ('h \<Rightarrow> bool \<times> 'h) \<Rightarrow> timer \<times> 'h mach \<Rightarrow> timer \<times> 'h mach" where
  "take_irq io fires s = (case s of (t, m) \<Rightarrow>
     (case fires (dev m) of (pending, d) \<Rightarrow>
        if pending \<and> irq_enabled m then systick_isr io (t, m\<lparr>dev := d\<rparr>) else (t, m\<lparr>dev := d\<rparr>)))"

definition lnSystemTimerInit :: "clocks \<Rightarrow> timer \<Rightarrow> timer" where
  "lnSystemTimerInit g t = t\<lparr>tickPerUs := ucast (SystemCoreClock g div (1000 * 1000))\<rparr>"

definition lnGetCycle32 :: "'h bus \<Rightarrow> 'h mach \<Rightarrow> u32 \<times> 'h mach" where
  "lnGetCycle32 io = rd32 io STK_CTN_LO"

text \<open>Read high, low, high until both high words agree.\<close>

partial_function (option) lnGetCycle64 :: "'h bus \<Rightarrow> 'h mach \<Rightarrow> (u64 \<times> 'h mach) option" where
  "lnGetCycle64 io m =
     (case rd32 io STK_CTN_HI m of (high, m) \<Rightarrow>
      case rd32 io STK_CTN_LO m of (low, m) \<Rightarrow>
      case rd32 io STK_CTN_HI m of (high2, m) \<Rightarrow>
        if high = high2 then Some (push_bit 32 (ucast high) + ucast low, m)
        else lnGetCycle64 io m)"

definition lnGetUs64 :: "'h bus \<Rightarrow> timer \<Rightarrow> 'h mach \<Rightarrow> (u64 \<times> 'h mach) option" where
  "lnGetUs64 io t m = do {
     (tick, m) \<leftarrow> lnGetCycle64 io m;
     if tickPerUs t = 0 then None else Some (tick div tickPerUs t, m) }"

definition lnGetUs :: "'h bus \<Rightarrow> timer \<Rightarrow> 'h mach \<Rightarrow> (u32 \<times> 'h mach) option" where
  "lnGetUs io t m = do {
     (tick, m) \<leftarrow> lnGetCycle64 io m;
     if tickPerUs t = 0 then None else Some (ucast (tick div tickPerUs t), m) }"

partial_function (option) delay_us_loop ::
  "'h bus \<Rightarrow> timer \<Rightarrow> u64 \<Rightarrow> 'h mach \<Rightarrow> 'h mach option" where
  "delay_us_loop io t target m =
     Option.bind (lnGetUs64 io t m) (\<lambda>(us, m).
       if us < target then delay_us_loop io t target m else Some m)"

definition lnDelayUs :: "'h bus \<Rightarrow> timer \<Rightarrow> u32 \<Rightarrow> 'h mach \<Rightarrow> 'h mach option" where
  "lnDelayUs io t wait m = do {
     (us, m) \<leftarrow> lnGetUs64 io t m;
     delay_us_loop io t (us + ucast wait) m }"

partial_function (option) delay_loop ::
  "'h bus \<Rightarrow> ('h \<Rightarrow> bool \<times> 'h) \<Rightarrow> u32 \<Rightarrow> timer \<times> 'h mach \<Rightarrow> (timer \<times> 'h mach) option" where
  "delay_loop io fires until_tick s =
     (if sys_tick_count (fst s) < until_tick
      then delay_loop io fires until_tick (take_irq io fires s) else Some s)"

definition lnDelay ::
  "'h bus \<Rightarrow> ('h \<Rightarrow> bool \<times> 'h) \<Rightarrow> u32 \<Rightarrow> timer \<times> 'h mach \<Rightarrow> (timer \<times> 'h mach) option" where
  "lnDelay io fires wait s = delay_loop io fires (sys_tick_count (fst s) + wait) s"

text \<open>The compare value is written high word first; the low word latches it.\<close>

definition init_timer_irq ::
  "'h bus \<Rightarrow> clocks \<Rightarrow> timer \<times> 'h mach \<Rightarrow> timer \<times> 'h mach" where
  "init_timer_irq io g s =
     (let t = lnSystemTimerInit g (fst s);
          (lo, m) = rd32 io STK_CTN_LO (snd s);
          (hi, m) = rd32 io STK_CTN_HI m;
          now = ucast lo OR push_bit 32 (ucast hi) :: u64;
          cmp = now + ucast (SystemCoreClock g div 1000);
          m = wr32 io STK_CMP_HI (ucast (drop_bit 32 cmp)) m;
          m = wr32 io STK_CMP_LO (ucast (cmp AND 0xFFFFFFFF)) m;
          m = wr32 io STK_CTLR (SYSTICK_STEN OR SYSTICK_STIE OR SYSTICK_STCLK OR SYSTICK_MODE_UP OR
                SYSTICK_INIT OR SYSTICK_STRE) m
      in (t, m))"

end
