(* ===== verification/Gpio.thy ===== *)
theory Gpio
  imports Prelude "HOL-Library.Signed_Division"
begin

text \<open>
  The GPIO driver of \<^verbatim>\<open>esprit_mini/gpio.cpp\<close>: pin numbers, the mode nibbles of the configuration
  registers, and the set/clear/toggle/read operations, as register accesses on the bus. The ports
  are hardware, so what a register access does is the bus's business; what is modelled is which
  accesses the driver makes and with which values.
\<close>

section \<open>Pins and modes\<close>

text \<open>\<open>enum lnPin : int\<close>: sixteen pins per port, \<open>PA0 = 0\<close>, \<open>PB0 = 16\<close> and so on.\<close>

type_synonym lnPin = int

definition PB7 :: lnPin where "PB7 = 16 + 7"
definition PB13 :: lnPin where "PB13 = 16 + 13"
definition LED_PIN :: lnPin where "LED_PIN = PB13"
definition DFU_PIN :: lnPin where "DFU_PIN = PB7"

definition valid_pin :: "lnPin \<Rightarrow> bool" where
  "valid_pin pin \<longleftrightarrow> 0 \<le> pin \<and> pin < 80"

datatype lnGpioMode =
  lnFLOATING | lnINPUT_FLOATING | lnINPUT_PULLUP | lnINPUT_PULLDOWN | lnOUTPUT
| lnOUTPUT_OPEN_DRAIN | lnALTERNATE_PP | lnALTERNATE_OD | lnPWM | lnADC_MODE | lnDAC_MODE
| lnUART | lnSPI_MODE | lnUART_Alt

definition LN_GPIOA_ADR :: u32 where "LN_GPIOA_ADR = 0x40010800"

text \<open>Register offsets in \<open>struct LN_GPIOx\<close>.\<close>

definition GPIO_CFGLR :: u32 where "GPIO_CFGLR = 0x00"
definition GPIO_CFGHR :: u32 where "GPIO_CFGHR = 0x04"
definition GPIO_INDR :: u32 where "GPIO_INDR = 0x08"
definition GPIO_OUTDR :: u32 where "GPIO_OUTDR = 0x0C"
definition GPIO_BSHR :: u32 where "GPIO_BSHR = 0x10"
definition GPIO_BCR :: u32 where "GPIO_BCR = 0x14"

definition gpioPort :: "int \<Rightarrow> u32" where
  "gpioPort port = LN_GPIOA_ADR + word_of_int (port * 0x400)"

text \<open>C's \<open>/\<close> and \<open>%\<close> on \<open>int\<close> truncate towards zero.\<close>

definition decodePin :: "lnPin \<Rightarrow> int \<times> int" where
  "decodePin pin = (pin sdiv 16, pin smod 16)"

section \<open>Operations\<close>

text \<open>The nibble a mode stores; the modes the switch does not name store nothing.\<close>

fun mode_bits :: "lnGpioMode \<Rightarrow> u32" where
  "mode_bits lnFLOATING = 4"
| "mode_bits lnINPUT_FLOATING = 4"
| "mode_bits lnINPUT_PULLUP = 8"
| "mode_bits lnINPUT_PULLDOWN = 8"
| "mode_bits lnOUTPUT = 1"
| "mode_bits lnOUTPUT_OPEN_DRAIN = 6"
| "mode_bits _ = 0"

definition pin_shift :: "int \<Rightarrow> nat" where
  "pin_shift bit_no = nat (if bit_no < 8 then bit_no * 4 else (bit_no - 8) * 4)"

definition pin_ctl :: "nat \<Rightarrow> lnGpioMode \<Rightarrow> u32 \<Rightarrow> u32" where
  "pin_ctl shift mode ctl =
     (ctl AND NOT (push_bit shift 0xF)) OR push_bit shift (mode_bits mode)"

definition lnPinMode :: "'h bus \<Rightarrow> lnPin \<Rightarrow> lnGpioMode \<Rightarrow> 'h mach \<Rightarrow> 'h mach" where
  "lnPinMode io pin mode m =
     (let (port, bit_no) = decodePin pin;
          gp = gpioPort port;
          cfg = gp + (if bit_no < 8 then GPIO_CFGLR else GPIO_CFGHR);
          (ctl, m) = rd32 io cfg m;
          m = wr32 io cfg (pin_ctl (pin_shift bit_no) mode ctl) m
      in if mode = lnINPUT_PULLUP then wr32 io (gp + GPIO_BSHR) (push_bit (nat bit_no) 1) m
         else if mode = lnINPUT_PULLDOWN then wr32 io (gp + GPIO_BCR) (push_bit (nat bit_no) 1) m
         else m)"

definition lnDigitalWrite :: "'h bus \<Rightarrow> lnPin \<Rightarrow> bool \<Rightarrow> 'h mach \<Rightarrow> 'h mach" where
  "lnDigitalWrite io pin value m =
     (let (port, bit_no) = decodePin pin; gp = gpioPort port
      in if value then wr32 io (gp + GPIO_BSHR) (push_bit (nat bit_no) 1) m
         else wr32 io (gp + GPIO_BCR) (push_bit (nat bit_no) 1) m)"

definition lnDigitalRead :: "'h bus \<Rightarrow> lnPin \<Rightarrow> 'h mach \<Rightarrow> bool \<times> 'h mach" where
  "lnDigitalRead io pin m =
     (let (port, bit_no) = decodePin pin; (v, m) = rd32 io (gpioPort port + GPIO_INDR) m
      in (drop_bit (nat bit_no) v AND 1 \<noteq> 0, m))"

definition lnDigitalToggle :: "'h bus \<Rightarrow> lnPin \<Rightarrow> 'h mach \<Rightarrow> 'h mach" where
  "lnDigitalToggle io pin m =
     (let (port, bit_no) = decodePin pin; gp = gpioPort port;
          (v, m) = rd32 io (gp + GPIO_OUTDR) m
      in if flag_set v (push_bit (nat bit_no) 1)
         then wr32 io (gp + GPIO_BCR) (push_bit (nat bit_no) 1) m
         else wr32 io (gp + GPIO_BSHR) (push_bit (nat bit_no) 1) m)"

section \<open>Properties\<close>

lemma decodePin_valid:
  assumes "valid_pin pin" and "decodePin pin = (port, bit_no)"
  shows "0 \<le> port \<and> port < 5 \<and> 0 \<le> bit_no \<and> bit_no < 16 \<and> pin = 16 * port + bit_no"
proof -
  have "port = pin div 16" "bit_no = pin mod 16"
    using assms by (auto simp: decodePin_def valid_pin_def signed_divide_int_def
      signed_modulo_int_def sgn_if minus_div_mult_eq_mod)
  then show ?thesis using assms(1) unfolding valid_pin_def by presburger
qed

lemma decode_pins: "decodePin LED_PIN = (1, 13)" "decodePin DFU_PIN = (1, 7)"
  by (simp_all add: decodePin_def LED_PIN_def PB13_def DFU_PIN_def PB7_def signed_divide_int_def
    signed_modulo_int_def)

lemma take_bit_mode_bits: "take_bit 4 (mode_bits mode) = mode_bits mode"
  by (cases mode) simp_all

lemma bit_mode_bits: "bit (mode_bits mode) i \<Longrightarrow> i < 4"
  by (metis take_bit_mode_bits bit_take_bit_iff)

lemma bit_15 [simp]: "bit (15 :: int) i \<longleftrightarrow> i < 4"
proof -
  have "(15 :: int) = mask 4" by (simp add: mask_eq_exp_minus_1)
  then show ?thesis by (simp only: bit_mask_iff) auto
qed

lemma pin_shift_bound:
  assumes "0 \<le> bit_no" and "bit_no < 16" shows "pin_shift bit_no \<le> 28"
  using assms by (auto simp: pin_shift_def)

lemma pin_ctl_bit:
  assumes "i < 32"
  shows "bit (pin_ctl shift mode ctl) i =
           (if shift \<le> i \<and> i < shift + 4 then bit (mode_bits mode) (i - shift) else bit ctl i)"
  using assms
  by (auto simp: pin_ctl_def bit_or_iff bit_and_iff bit_not_iff bit_push_bit_iff
    dest: bit_mode_bits)

lemma lnDigitalWrite_frame [frame_simps, simp]:
  "csr (lnDigitalWrite io pin v m) = csr m" "ram (lnDigitalWrite io pin v m) = ram m"
  by (simp_all add: lnDigitalWrite_def Let_def split: prod.splits)

lemma lnPinMode_frame [frame_simps, simp]:
  "csr (lnPinMode io pin mode m) = csr m" "ram (lnPinMode io pin mode m) = ram m"
  by (auto simp: lnPinMode_def Let_def split: prod.splits dest: rd32_frameD)

text \<open>
  Reconfiguring a pin writes one nibble of one configuration register: the four bits of the pin
  take the value of the mode and the other seven pins of the register keep theirs.
\<close>

definition reg_field :: "u32 \<Rightarrow> nat \<Rightarrow> u32" where
  "reg_field r k = drop_bit (4 * k) r AND 0xF"

lemma reg_field_bit: "bit (reg_field r k) i \<longleftrightarrow> i < 4 \<and> bit r (4 * k + i)"
  by (auto simp: reg_field_def bit_and_iff bit_drop_bit_eq)

lemma pin_ctl_same_field:
  assumes "k < 8" shows "reg_field (pin_ctl (4 * k) mode ctl) k = mode_bits mode"
proof (rule bit_word_eqI)
  fix i
  from assms have "i < 4 \<Longrightarrow> 4 * k + i < 32" by simp
  then show "bit (reg_field (pin_ctl (4 * k) mode ctl) k) i = bit (mode_bits mode) i"
    using bit_mode_bits [of mode i] by (auto simp: reg_field_bit pin_ctl_bit)
qed

lemma pin_ctl_other_field:
  assumes "k < 8" and "j < 8" and "j \<noteq> k"
  shows "reg_field (pin_ctl (4 * k) mode ctl) j = reg_field ctl j"
proof (rule bit_word_eqI)
  fix i
  have "4 * j + i < 32" and "\<not> (4 * k \<le> 4 * j + i \<and> 4 * j + i < 4 * k + 4)" if "i < 4"
    using that assms by auto
  then show "bit (reg_field (pin_ctl (4 * k) mode ctl) j) i = bit (reg_field ctl j) i"
    by (auto simp: reg_field_bit pin_ctl_bit)
qed

end
