(* ===== verification/Memory_Config.thy ===== *)
theory Memory_Config
  imports Prelude
begin

text \<open>
  The memory layout the build writes into \<^verbatim>\<open>flash_config.h\<close> and \<^verbatim>\<open>memory_config.h\<close>, with the
  sizes of \<^verbatim>\<open>bootloader_config.cmake\<close>.
\<close>

definition FLASH_BOOTLDR_SIZE_KB :: u32 where "FLASH_BOOTLDR_SIZE_KB = 16"
definition FLASH_APP_SIZE_KB :: u32 where "FLASH_APP_SIZE_KB = 240"

text \<open>The addresses of \<^verbatim>\<open>src_common/registers.h\<close>.\<close>

definition APP_ADDRESS :: u32 where "APP_ADDRESS = 0x00000000 + FLASH_BOOTLDR_SIZE_KB * 1024"
definition FLASH_START_ADDR :: u32 where "FLASH_START_ADDR = 0x00000000"
definition RAM_START_ADDR :: u32 where "RAM_START_ADDR = 0x20000000"

lemmas flash_config_defs = FLASH_BOOTLDR_SIZE_KB_def FLASH_APP_SIZE_KB_def

end
