(* ===== verification/Usb_Protocol.thy ===== *)
theory Usb_Protocol
  imports Prelude
begin

text \<open>
  The protocol half of \<^verbatim>\<open>src_stage2/usb.h\<close>: the packed descriptor structures and their bytes on the
  wire, the setup packet, the DFU requests, status codes and states, and the transfer sizes.
\<close>

section \<open>Constants\<close>

definition USB_DT_DEVICE :: u8 where "USB_DT_DEVICE = 1"
definition USB_DT_CONFIG :: u8 where "USB_DT_CONFIG = 2"
definition USB_DT_STRING :: u8 where "USB_DT_STRING = 3"
definition USB_DT_INTERFACE :: u8 where "USB_DT_INTERFACE = 4"
definition DFU_FUNCTIONAL :: u8 where "DFU_FUNCTIONAL = 0x21"
definition USB_REQ_GET_DESCRIPTOR :: u8 where "USB_REQ_GET_DESCRIPTOR = 0x06"
definition USB_REQ_SET_ADDRESS :: u8 where "USB_REQ_SET_ADDRESS = 0x05"
definition USB_DIR_IN :: u8 where "USB_DIR_IN = 0x80"
definition USB_VERSION_1_1 :: u16 where "USB_VERSION_1_1 = 0x0110"
definition USB_LANGID_ENGLISH_US :: u16 where "USB_LANGID_ENGLISH_US = 0x0409"
definition USB_DT_DEVICE_SIZE :: nat where "USB_DT_DEVICE_SIZE = 18"
definition USB_DT_CONFIG_SIZE :: nat where "USB_DT_CONFIG_SIZE = 9"
definition USB_DT_INTERFACE_SIZE :: nat where "USB_DT_INTERFACE_SIZE = 9"
definition USB_DT_STRING_HEADER :: nat where "USB_DT_STRING_HEADER = 2"
definition USB_CONFIG_SELF_POWERED :: u8 where "USB_CONFIG_SELF_POWERED = 0x80"
definition USB_DFU_CLASS :: u8 where "USB_DFU_CLASS = 0xFE"
definition USB_DFU_SUBCLASS :: u8 where "USB_DFU_SUBCLASS = 0x01"
definition USB_DFU_PROTOCOL :: u8 where "USB_DFU_PROTOCOL = 0x02"
definition USB_DFU_CAN_DOWNLOAD :: u8 where "USB_DFU_CAN_DOWNLOAD = 0x01"
definition USB_DFU_CAN_UPLOAD :: u8 where "USB_DFU_CAN_UPLOAD = 0x02"
definition USB_DFU_MANIFEST_TOLERANT :: u8 where "USB_DFU_MANIFEST_TOLERANT = 0x04"
definition USB_DFU_WILL_DETACH :: u8 where "USB_DFU_WILL_DETACH = 0x08"

definition DFU_TRANSFER_SIZE :: nat where "DFU_TRANSFER_SIZE = 4096"
definition DFU_SECTOR_SIZE_KB :: nat where "DFU_SECTOR_SIZE_KB = 4"
definition DFU_SECTOR_SIZE :: nat where "DFU_SECTOR_SIZE = DFU_SECTOR_SIZE_KB * 1024"

section \<open>Packed structures\<close>

record usb_dfu_descriptor =
  fd_bLength :: u8
  fd_bDescriptorType :: u8
  fd_bmAttributes :: u8
  fd_wDetachTimeout :: u16
  fd_wTransferSize :: u16
  fd_bcdDFUVersion :: u16

definition dfu_descriptor_bytes :: "usb_dfu_descriptor \<Rightarrow> u8 list" where
  "dfu_descriptor_bytes d =
     [fd_bLength d, fd_bDescriptorType d, fd_bmAttributes d] @
     bytes16 (fd_wDetachTimeout d) @ bytes16 (fd_wTransferSize d) @ bytes16 (fd_bcdDFUVersion d)"

record usb_device_descriptor =
  dd_bLength :: u8
  dd_bDescriptorType :: u8
  dd_bcdUSB :: u16
  dd_bDeviceClass :: u8
  dd_bDeviceSubClass :: u8
  dd_bDeviceProtocol :: u8
  dd_bMaxPacketSize0 :: u8
  dd_idVendor :: u16
  dd_idProduct :: u16
  dd_bcdDevice :: u16
  dd_iManufacturer :: u8
  dd_iProduct :: u8
  dd_iSerialNumber :: u8
  dd_bNumConfigurations :: u8

definition device_descriptor_bytes :: "usb_device_descriptor \<Rightarrow> u8 list" where
  "device_descriptor_bytes d =
     [dd_bLength d, dd_bDescriptorType d] @ bytes16 (dd_bcdUSB d) @
     [dd_bDeviceClass d, dd_bDeviceSubClass d, dd_bDeviceProtocol d, dd_bMaxPacketSize0 d] @
     bytes16 (dd_idVendor d) @ bytes16 (dd_idProduct d) @ bytes16 (dd_bcdDevice d) @
     [dd_iManufacturer d, dd_iProduct d, dd_iSerialNumber d, dd_bNumConfigurations d]"

record usb_config_descriptor =
  cd_bLength :: u8
  cd_bDescriptorType :: u8
  cd_wTotalLength :: u16
  cd_bNumInterfaces :: u8
  cd_bConfigurationValue :: u8
  cd_iConfiguration :: u8
  cd_bmAttributes :: u8
  cd_bMaxPower :: u8

definition config_descriptor_bytes :: "usb_config_descriptor \<Rightarrow> u8 list" where
  "config_descriptor_bytes d =
     [cd_bLength d, cd_bDescriptorType d] @ bytes16 (cd_wTotalLength d) @
     [cd_bNumInterfaces d, cd_bConfigurationValue d, cd_iConfiguration d, cd_bmAttributes d,
      cd_bMaxPower d]"

record usb_interface_descriptor =
  id_bLength :: u8
  id_bDescriptorType :: u8
  id_bInterfaceNumber :: u8
  id_bAlternateSetting :: u8
  id_bNumEndpoints :: u8
  id_bInterfaceClass :: u8
  id_bInterfaceSubClass :: u8
  id_bInterfaceProtocol :: u8
  id_iInterface :: u8

definition interface_descriptor_bytes :: "usb_interface_descriptor \<Rightarrow> u8 list" where
  "interface_descriptor_bytes d =
     [id_bLength d, id_bDescriptorType d, id_bInterfaceNumber d, id_bAlternateSetting d,
      id_bNumEndpoints d, id_bInterfaceClass d, id_bInterfaceSubClass d, id_bInterfaceProtocol d,
      id_iInterface d]"

lemma length_descriptor_bytes [simp]:
  "length (dfu_descriptor_bytes fd) = 9"
  "length (device_descriptor_bytes dd) = USB_DT_DEVICE_SIZE"
  "length (config_descriptor_bytes cd) = USB_DT_CONFIG_SIZE"
  "length (interface_descriptor_bytes idd) = USB_DT_INTERFACE_SIZE"
  by (simp_all add: dfu_descriptor_bytes_def device_descriptor_bytes_def
    config_descriptor_bytes_def interface_descriptor_bytes_def USB_DT_DEVICE_SIZE_def
    USB_DT_CONFIG_SIZE_def USB_DT_INTERFACE_SIZE_def)

section \<open>The setup packet\<close>

record usb_setup_packet =
  bmRequestType :: u8
  bRequest :: u8
  wValue :: u16
  wIndex :: u16
  wLength :: u16

definition setup_bytes :: "usb_setup_packet \<Rightarrow> u8 list" where
  "setup_bytes r =
     [bmRequestType r, bRequest r] @ bytes16 (wValue r) @ bytes16 (wIndex r) @ bytes16 (wLength r)"

text \<open>
  \<open>(const struct usb_setup_packet *)ep0_buffer\<close>: the fields as the packed structure overlays the
  first eight bytes of the buffer.
\<close>

definition setup_at :: "u8 list \<Rightarrow> usb_setup_packet" where
  "setup_at b = \<lparr>bmRequestType = b ! 0, bRequest = b ! 1, wValue = le16 (b ! 2) (b ! 3),
                wIndex = le16 (b ! 4) (b ! 5), wLength = le16 (b ! 6) (b ! 7)\<rparr>"

lemma length_setup_bytes [simp]: "length (setup_bytes r) = 8"
  by (simp add: setup_bytes_def)

lemma setup_roundtrip [simp]: "setup_at (setup_bytes r @ rest) = r"
  by (simp add: setup_at_def setup_bytes_def bytes16_def)

section \<open>DFU requests, status codes and states\<close>

definition DFU_DETACH :: u8 where "DFU_DETACH = 0"
definition DFU_DNLOAD :: u8 where "DFU_DNLOAD = 1"
definition DFU_UPLOAD :: u8 where "DFU_UPLOAD = 2"
definition DFU_GETSTATUS :: u8 where "DFU_GETSTATUS = 3"
definition DFU_CLRSTATUS :: u8 where "DFU_CLRSTATUS = 4"
definition DFU_GETSTATE :: u8 where "DFU_GETSTATE = 5"
definition DFU_ABORT :: u8 where "DFU_ABORT = 6"

lemmas dfu_req_defs = DFU_DETACH_def DFU_DNLOAD_def DFU_UPLOAD_def DFU_GETSTATUS_def
  DFU_CLRSTATUS_def DFU_GETSTATE_def DFU_ABORT_def

datatype dfu_status =
  DFU_STATUS_OK | DFU_STATUS_ERR_TARGET | DFU_STATUS_ERR_FILE | DFU_STATUS_ERR_WRITE
| DFU_STATUS_ERR_ERASE | DFU_STATUS_ERR_CHECK_ERASED | DFU_STATUS_ERR_PROG
| DFU_STATUS_ERR_VERIFY | DFU_STATUS_ERR_ADDRESS | DFU_STATUS_ERR_NOTDONE
| DFU_STATUS_ERR_FIRMWARE | DFU_STATUS_ERR_VENDOR | DFU_STATUS_ERR_USBR | DFU_STATUS_ERR_POR
| DFU_STATUS_ERR_UNKNOWN | DFU_STATUS_ERR_STALLEDPKT

datatype dfu_state =
  STATE_APP_IDLE | STATE_APP_DETACH | STATE_DFU_IDLE | STATE_DFU_DNLOAD_SYNC | STATE_DFU_DNBUSY
| STATE_DFU_DNLOAD_IDLE | STATE_DFU_MANIFEST_SYNC | STATE_DFU_MANIFEST
| STATE_DFU_MANIFEST_WAIT_RESET | STATE_DFU_UPLOAD_IDLE | STATE_DFU_ERROR

text \<open>The values C gives the enumerators, and what they become when stored in a byte.\<close>

fun status_val :: "dfu_status \<Rightarrow> u8" where
  "status_val DFU_STATUS_OK = 0"
| "status_val DFU_STATUS_ERR_TARGET = 1"
| "status_val DFU_STATUS_ERR_FILE = 2"
| "status_val DFU_STATUS_ERR_WRITE = 3"
| "status_val DFU_STATUS_ERR_ERASE = 4"
| "status_val DFU_STATUS_ERR_CHECK_ERASED = 5"
| "status_val DFU_STATUS_ERR_PROG = 6"
| "status_val DFU_STATUS_ERR_VERIFY = 7"
| "status_val DFU_STATUS_ERR_ADDRESS = 8"
| "status_val DFU_STATUS_ERR_NOTDONE = 9"
| "status_val DFU_STATUS_ERR_FIRMWARE = 10"
| "status_val DFU_STATUS_ERR_VENDOR = 11"
| "status_val DFU_STATUS_ERR_USBR = 12"
| "status_val DFU_STATUS_ERR_POR = 13"
| "status_val DFU_STATUS_ERR_UNKNOWN = 14"
| "status_val DFU_STATUS_ERR_STALLEDPKT = 15"

fun state_val :: "dfu_state \<Rightarrow> u8" where
  "state_val STATE_APP_IDLE = 0"
| "state_val STATE_APP_DETACH = 1"
| "state_val STATE_DFU_IDLE = 2"
| "state_val STATE_DFU_DNLOAD_SYNC = 3"
| "state_val STATE_DFU_DNBUSY = 4"
| "state_val STATE_DFU_DNLOAD_IDLE = 5"
| "state_val STATE_DFU_MANIFEST_SYNC = 6"
| "state_val STATE_DFU_MANIFEST = 7"
| "state_val STATE_DFU_MANIFEST_WAIT_RESET = 8"
| "state_val STATE_DFU_UPLOAD_IDLE = 9"
| "state_val STATE_DFU_ERROR = 10"

lemma status_val_inj: "status_val s = status_val t \<longleftrightarrow> s = t"
  by (cases s; cases t) simp_all

lemma state_val_inj: "state_val s = state_val t \<longleftrightarrow> s = t"
  by (cases s; cases t) simp_all

text \<open>The enumerators are ordered as in C, by their values.\<close>

instantiation dfu_state :: linorder
begin

definition less_eq_dfu_state :: "dfu_state \<Rightarrow> dfu_state \<Rightarrow> bool" where
  "less_eq_dfu_state s t \<longleftrightarrow> state_val s \<le> state_val t"

definition less_dfu_state :: "dfu_state \<Rightarrow> dfu_state \<Rightarrow> bool" where
  "less_dfu_state s t \<longleftrightarrow> state_val s < state_val t"

instance
  by standard (auto simp: less_eq_dfu_state_def less_dfu_state_def less_le state_val_inj)

end

end
