(* ===== verification/Printf.thy ===== *)
theory Printf
  imports Prelude
begin

text \<open>
  The formatter \<^verbatim>\<open>src_stage2/embedded_printf/printf.c\<close> as the bootloader builds it
  (\<^verbatim>\<open>embedded_printf/CMakeLists.txt\<close> disables floating point, exponents, \<open>long long\<close> and
  \<open>ptrdiff_t\<close>), on a 32-bit target: \<open>int\<close>, \<open>long\<close>, \<open>size_t\<close> and pointers are 32 bits wide and
  \<open>char\<close> is unsigned.

  \<^item> A C string is the list of its characters before the terminator; reading at its end gives the
    terminator, moving a pointer past the terminator is undefined and \<open>None\<close>.
  \<^item> \<open>va_list\<close> is the list of the arguments not yet taken; taking one that is missing or has
    another type is \<open>None\<close>.
  \<^item> The output goes through an output function, as in C: it gets a character, the buffer, the
    index and the limit. \<open>None\<close> is a write outside the buffer.
  \<^item> The digit buffer \<open>char buf[32]\<close> with its fill level \<open>len\<close> is the list of the characters stored
    so far (\<open>buf[len++] = c\<close> appends, \<open>len--\<close> drops the last).
\<close>

section \<open>Flags\<close>

definition FLAGS_ZEROPAD :: u32 where "FLAGS_ZEROPAD = push_bit 0 1"
definition FLAGS_LEFT :: u32 where "FLAGS_LEFT = push_bit 1 1"
definition FLAGS_PLUS :: u32 where "FLAGS_PLUS = push_bit 2 1"
definition FLAGS_SPACE :: u32 where "FLAGS_SPACE = push_bit 3 1"
definition FLAGS_HASH :: u32 where "FLAGS_HASH = push_bit 4 1"
definition FLAGS_UPPERCASE :: u32 where "FLAGS_UPPERCASE = push_bit 5 1"
definition FLAGS_CHAR :: u32 where "FLAGS_CHAR = push_bit 6 1"
definition FLAGS_SHORT :: u32 where "FLAGS_SHORT = push_bit 7 1"
definition FLAGS_LONG :: u32 where "FLAGS_LONG = push_bit 8 1"
definition FLAGS_LONG_LONG :: u32 where "FLAGS_LONG_LONG = push_bit 9 1"
definition FLAGS_PRECISION :: u32 where "FLAGS_PRECISION = push_bit 10 1"

lemmas flags_defs = FLAGS_ZEROPAD_def FLAGS_LEFT_def FLAGS_PLUS_def FLAGS_SPACE_def FLAGS_HASH_def
  FLAGS_UPPERCASE_def FLAGS_CHAR_def FLAGS_SHORT_def FLAGS_LONG_def FLAGS_LONG_LONG_def
  FLAGS_PRECISION_def

definition PRINTF_NTOA_BUFFER_SIZE :: nat where "PRINTF_NTOA_BUFFER_SIZE = 32"

abbreviation NUL :: char where "NUL \<equiv> CHR 0x00"

section \<open>Output functions\<close>

type_synonym 'b out_fct_type = "char \<Rightarrow> 'b \<Rightarrow> u32 \<Rightarrow> u32 \<Rightarrow> 'b option"

definition out_buffer :: "char list out_fct_type" where
  "out_buffer character buffer idx maxlen =
     (if idx < maxlen then
        (if unat idx < length buffer then Some (buffer[unat idx := character]) else None)
      else Some buffer)"

definition out_null :: "'b out_fct_type" where
  "out_null character buffer idx maxlen = Some buffer"

text \<open>\<open>_putchar\<close> is supplied by the program; the bootloader's (in \<^verbatim>\<open>stubs.cpp\<close>) does nothing.\<close>

definition out_char :: "(char \<Rightarrow> 'b \<Rightarrow> 'b) \<Rightarrow> 'b out_fct_type" where
  "out_char putchar character buffer idx maxlen =
     Some (if character \<noteq> NUL then putchar character buffer else buffer)"

definition stub_putchar :: "char \<Rightarrow> 'b \<Rightarrow> 'b" where
  "stub_putchar c b = b"

definition out_fct :: "(char \<Rightarrow> 'b \<Rightarrow> 'b) \<Rightarrow> 'b out_fct_type" where
  "out_fct fct character buffer idx maxlen =
     Some (if character \<noteq> NUL then fct character buffer else buffer)"

text \<open>\<open>out(c, buffer, idx++, maxlen)\<close>, and a run of such calls.\<close>

definition emit :: "'b out_fct_type \<Rightarrow> u32 \<Rightarrow> char \<Rightarrow> 'b \<times> u32 \<Rightarrow> ('b \<times> u32) option" where
  "emit out maxlen c st = (case st of (b, idx) \<Rightarrow> do {
     b' \<leftarrow> out c b idx maxlen;
     Some (b', idx + 1) })"

fun emits :: "'b out_fct_type \<Rightarrow> u32 \<Rightarrow> char list \<Rightarrow> 'b \<times> u32 \<Rightarrow> ('b \<times> u32) option" where
  "emits out maxlen [] st = Some st"
| "emits out maxlen (c # cs) st = do { st \<leftarrow> emit out maxlen c st; emits out maxlen cs st }"

fun emit_times :: "'b out_fct_type \<Rightarrow> u32 \<Rightarrow> nat \<Rightarrow> char \<Rightarrow> 'b \<times> u32 \<Rightarrow> ('b \<times> u32) option" where
  "emit_times out maxlen 0 c st = Some st"
| "emit_times out maxlen (Suc n) c st = do {
     st \<leftarrow> emit out maxlen c st; emit_times out maxlen n c st }"

section \<open>Strings and numbers\<close>

definition cur :: "char list \<Rightarrow> char" where
  "cur s = (case s of [] \<Rightarrow> NUL | c # _ \<Rightarrow> c)"

fun strnlen_s :: "char list \<Rightarrow> u32 \<Rightarrow> u32" where
  "strnlen_s [] maxsize = 0"
| "strnlen_s (c # s) maxsize =
     (if c \<noteq> NUL \<and> maxsize \<noteq> 0 then 1 + strnlen_s s (maxsize - 1) else 0)"

definition is_digit :: "char \<Rightarrow> bool" where
  "is_digit ch \<longleftrightarrow> of_char CHR ''0'' \<le> (of_char ch :: nat) \<and> (of_char ch :: nat) \<le> of_char CHR ''9''"

fun atoi :: "u32 \<Rightarrow> char list \<Rightarrow> u32 \<times> char list" where
  "atoi i [] = (i, [])"
| "atoi i (c # s) =
     (if is_digit c then atoi (i * 10 + of_nat (of_char c - 48)) s else (i, c # s))"

text \<open>Padding on the right: \<open>while (idx - start_idx < width) out(' ', buffer, idx++, maxlen)\<close>.\<close>

function pad_right ::
  "'b out_fct_type \<Rightarrow> u32 \<Rightarrow> u32 \<Rightarrow> u32 \<Rightarrow> 'b \<Rightarrow> u32 \<Rightarrow> ('b \<times> u32) option" where
  "pad_right out maxlen start width b idx =
     (if idx - start < width then do {
        b' \<leftarrow> out CHR '' '' b idx maxlen;
        pad_right out maxlen start width b' (idx + 1) }
      else Some (b, idx))"
  by pat_completeness auto
termination
proof (relation "measure (\<lambda>(out, maxlen, start, width, b, idx). unat (width - (idx - start)))")
  fix out :: "'b out_fct_type" and maxlen start width idx :: u32 and b b'
  assume "idx - start < width"
  then have "width - (idx - start) \<noteq> 0" by auto
  then have "unat (width - (idx - start) - 1) < unat (width - (idx - start))"
    by (rule unat_pred_less)
  then show "((out, maxlen, start, width, b', idx + 1), out, maxlen, start, width, b, idx)
      \<in> measure (\<lambda>(out, maxlen, start, width, b, idx). unat (width - (idx - start)))"
    by (simp add: algebra_simps)
qed auto

declare pad_right.simps [simp del]

definition out_rev :: "'b out_fct_type \<Rightarrow> u32 \<Rightarrow> char list \<Rightarrow> u32 \<Rightarrow> u32 \<Rightarrow> 'b \<times> u32 \<Rightarrow> ('b \<times> u32) option" where
  "out_rev out maxlen buf width flags st = do {
     let start_idx = snd st;
     st \<leftarrow> (if \<not> flag_set flags FLAGS_LEFT \<and> \<not> flag_set flags FLAGS_ZEROPAD
           then emit_times out maxlen (unat width - length buf) CHR '' '' st else Some st);
     st \<leftarrow> emits out maxlen (rev buf) st;
     if flag_set flags FLAGS_LEFT then pad_right out maxlen start_idx width (fst st) (snd st)
     else Some st }"

function pad_zeros :: "nat \<Rightarrow> char list \<Rightarrow> char list" where
  "pad_zeros lim buf =
     (if length buf < lim \<and> length buf < PRINTF_NTOA_BUFFER_SIZE
      then pad_zeros lim (buf @ [CHR ''0'']) else buf)"
  by pat_completeness auto
termination
  by (relation "measure (\<lambda>(lim, buf). lim - length buf)") auto

declare pad_zeros.simps [simp del]

text \<open>\<open>if (len < PRINTF_NTOA_BUFFER_SIZE) buf[len++] = c;\<close>\<close>

definition push_if_room :: "char \<Rightarrow> char list \<Rightarrow> char list" where
  "push_if_room c buf = (if length buf < PRINTF_NTOA_BUFFER_SIZE then buf @ [c] else buf)"

definition ntoa_zero_padding :: "bool \<Rightarrow> u32 \<Rightarrow> u32 \<Rightarrow> u32 \<Rightarrow> char list \<Rightarrow> u32 \<times> char list" where
  "ntoa_zero_padding negative prec width flags buf =
     (if \<not> flag_set flags FLAGS_LEFT then
        (let width = (if width \<noteq> 0 \<and> flag_set flags FLAGS_ZEROPAD \<and>
                         (negative \<or> flag_set flags (FLAGS_PLUS OR FLAGS_SPACE))
                      then width - 1 else width);
             buf = pad_zeros (unat prec) buf;
             buf = (if flag_set flags FLAGS_ZEROPAD then pad_zeros (unat width) buf else buf)
         in (width, buf))
      else (width, buf))"

definition ntoa_hash :: "u32 \<Rightarrow> u32 \<Rightarrow> u32 \<Rightarrow> u32 \<Rightarrow> char list \<Rightarrow> char list" where
  "ntoa_hash base prec width flags buf =
     (if flag_set flags FLAGS_HASH then
        (let buf = (if \<not> flag_set flags FLAGS_PRECISION \<and> buf \<noteq> [] \<and>
                       (length buf = unat prec \<or> length buf = unat width)
                    then (let buf = butlast buf
                          in if buf \<noteq> [] \<and> base = 16 then butlast buf else buf)
                    else buf);
             buf = (if base = 16 \<and> \<not> flag_set flags FLAGS_UPPERCASE \<and>
                       length buf < PRINTF_NTOA_BUFFER_SIZE then buf @ ''x''
                    else if base = 16 \<and> flag_set flags FLAGS_UPPERCASE \<and>
                       length buf < PRINTF_NTOA_BUFFER_SIZE then buf @ ''X''
                    else if base = 2 \<and> length buf < PRINTF_NTOA_BUFFER_SIZE then buf @ ''b''
                    else buf)
         in push_if_room CHR ''0'' buf)
      else buf)"

definition ntoa_sign :: "bool \<Rightarrow> u32 \<Rightarrow> char list \<Rightarrow> char list" where
  "ntoa_sign negative flags buf =
     (if length buf < PRINTF_NTOA_BUFFER_SIZE then
        if negative then buf @ ''-''
        else if flag_set flags FLAGS_PLUS then buf @ ''+''
        else if flag_set flags FLAGS_SPACE then buf @ '' ''
        else buf
      else buf)"

definition ntoa_format ::
  "'b out_fct_type \<Rightarrow> u32 \<Rightarrow> char list \<Rightarrow> bool \<Rightarrow> u32 \<Rightarrow> u32 \<Rightarrow> u32 \<Rightarrow> u32 \<Rightarrow> 'b \<times> u32 \<Rightarrow> ('b \<times> u32) option" where
  "ntoa_format out maxlen buf negative base prec width flags st =
     (let (width, buf) = ntoa_zero_padding negative prec width flags buf;
          buf = ntoa_hash base prec width flags buf;
          buf = ntoa_sign negative flags buf
      in out_rev out maxlen buf width flags st)"

text \<open>The digits, least significant first: \<open>do { \<dots> } while (value && len < 32)\<close>.\<close>

definition digit_char :: "u32 \<Rightarrow> u32 \<Rightarrow> char" where
  "digit_char flags digit =
     (if digit < 10 then char_of (48 + unat digit)
      else char_of ((if flag_set flags FLAGS_UPPERCASE then 65 else 97) + unat digit - 10))"

function ntoa_digits :: "u32 \<Rightarrow> u32 \<Rightarrow> u32 \<Rightarrow> char list \<Rightarrow> char list" where
  "ntoa_digits flags base value buf =
     (let buf = buf @ [digit_char flags (value mod base)]; value = value div base
      in if value \<noteq> 0 \<and> length buf < PRINTF_NTOA_BUFFER_SIZE
         then ntoa_digits flags base value buf else buf)"
  by pat_completeness auto
termination
  by (relation "measure (\<lambda>(flags, base, value, buf). PRINTF_NTOA_BUFFER_SIZE - length buf)") auto

declare ntoa_digits.simps [simp del]

definition ntoa_long ::
  "'b out_fct_type \<Rightarrow> u32 \<Rightarrow> u32 \<Rightarrow> bool \<Rightarrow> u32 \<Rightarrow> u32 \<Rightarrow> u32 \<Rightarrow> u32 \<Rightarrow> 'b \<times> u32 \<Rightarrow> ('b \<times> u32) option" where
  "ntoa_long out maxlen value negative base prec width flags st =
     (let flags = (if value = 0 then flags AND NOT FLAGS_HASH else flags);
          buf = (if \<not> flag_set flags FLAGS_PRECISION \<or> value \<noteq> 0
                 then ntoa_digits flags base value [] else [])
      in ntoa_format out maxlen buf negative base prec width flags st)"

section \<open>The fields of a conversion: \<open>%[flags][width][.precision][length]\<close>\<close>

text \<open>A promoted argument: an \<open>int\<close> or \<open>long\<close> of either sign, a string, another pointer.\<close>

datatype va_arg = VInt u32 | VStr "char list" | VPtr u32

definition va_int :: "va_arg list \<Rightarrow> (u32 \<times> va_arg list) option" where
  "va_int va = (case va of VInt w # va \<Rightarrow> Some (w, va) | _ \<Rightarrow> None)"

definition va_str :: "va_arg list \<Rightarrow> (char list \<times> va_arg list) option" where
  "va_str va = (case va of VStr s # va \<Rightarrow> Some (s, va) | _ \<Rightarrow> None)"

definition va_ptr :: "va_arg list \<Rightarrow> (u32 \<times> va_arg list) option" where
  "va_ptr va = (case va of VPtr p # va \<Rightarrow> Some (p, va) | _ \<Rightarrow> None)"

text \<open>\<open>format++\<close>, undefined once \<open>format\<close> is at the terminator and is read again.\<close>

definition advance :: "char list \<Rightarrow> char list option" where
  "advance fmt = (case fmt of [] \<Rightarrow> None | c # s \<Rightarrow> Some s)"

fun parse_flags :: "u32 \<Rightarrow> char list \<Rightarrow> u32 \<times> char list" where
  "parse_flags flags [] = (flags, [])"
| "parse_flags flags (c # s) =
     (if c = CHR ''0'' then parse_flags (flags OR FLAGS_ZEROPAD) s
      else if c = CHR ''-'' then parse_flags (flags OR FLAGS_LEFT) s
      else if c = CHR ''+'' then parse_flags (flags OR FLAGS_PLUS) s
      else if c = CHR '' '' then parse_flags (flags OR FLAGS_SPACE) s
      else if c = CHR ''#'' then parse_flags (flags OR FLAGS_HASH) s
      else (flags, c # s))"

definition parse_width ::
  "u32 \<Rightarrow> char list \<Rightarrow> va_arg list \<Rightarrow> (u32 \<times> u32 \<times> char list \<times> va_arg list) option" where
  "parse_width flags fmt va =
     (if is_digit (cur fmt) then
        (let (width, fmt) = atoi 0 fmt in Some (flags, width, fmt, va))
      else if cur fmt = CHR ''*'' then do {
        (w, va) \<leftarrow> va_int va;
        let (flags, width) = (if w <s 0 then (flags OR FLAGS_LEFT, - w) else (flags, w));
        fmt \<leftarrow> advance fmt;
        Some (flags, width, fmt, va) }
      else Some (flags, 0, fmt, va))"

definition parse_precision ::
  "u32 \<Rightarrow> char list \<Rightarrow> va_arg list \<Rightarrow> (u32 \<times> u32 \<times> char list \<times> va_arg list) option" where
  "parse_precision flags fmt va =
     (if cur fmt = CHR ''.'' then do {
        let flags = flags OR FLAGS_PRECISION;
        fmt \<leftarrow> advance fmt;
        if is_digit (cur fmt) then
          (let (precision, fmt) = atoi 0 fmt in Some (flags, precision, fmt, va))
        else if cur fmt = CHR ''*'' then do {
          (prec, va) \<leftarrow> va_int va;
          fmt \<leftarrow> advance fmt;
          Some (flags, if 0 <s prec then prec else 0, fmt, va) }
        else Some (flags, 0, fmt, va) }
      else Some (flags, 0, fmt, va))"

text \<open>
  \<open>sizeof(intmax_t)\<close> is 8 and \<open>sizeof(long)\<close> is 4, so \<open>j\<close> selects \<open>long long\<close>, which this
  build leaves out; \<open>t\<close> is not compiled in.
\<close>

definition parse_length :: "u32 \<Rightarrow> char list \<Rightarrow> (u32 \<times> char list) option" where
  "parse_length flags fmt =
     (if cur fmt = CHR ''l'' then do {
        let flags = flags OR FLAGS_LONG;
        fmt \<leftarrow> advance fmt;
        if cur fmt = CHR ''l'' then do {
          fmt \<leftarrow> advance fmt; Some (flags OR FLAGS_LONG_LONG, fmt) }
        else Some (flags, fmt) }
      else if cur fmt = CHR ''h'' then do {
        let flags = flags OR FLAGS_SHORT;
        fmt \<leftarrow> advance fmt;
        if cur fmt = CHR ''h'' then do {
          fmt \<leftarrow> advance fmt; Some (flags OR FLAGS_CHAR, fmt) }
        else Some (flags, fmt) }
      else if cur fmt = CHR ''j'' then do {
        fmt \<leftarrow> advance fmt; Some (flags OR FLAGS_LONG_LONG, fmt) }
      else if cur fmt = CHR ''z'' then do {
        fmt \<leftarrow> advance fmt; Some (flags OR FLAGS_LONG, fmt) }
      else Some (flags, fmt))"

section \<open>The conversions\<close>

definition int_conversion :: "char \<Rightarrow> bool" where
  "int_conversion c \<longleftrightarrow> c \<in> {CHR ''d'', CHR ''i'', CHR ''u'', CHR ''x'', CHR ''X'', CHR ''o'', CHR ''b''}"

definition conv_base :: "char \<Rightarrow> u32" where
  "conv_base c = (if c = CHR ''x'' \<or> c = CHR ''X'' then 16 else if c = CHR ''o'' then 8
                  else if c = CHR ''b'' then 2 else 10)"

definition conv_flags :: "char \<Rightarrow> u32 \<Rightarrow> u32" where
  "conv_flags c flags =
     (let flags = (if conv_base c = 10 then flags AND NOT FLAGS_HASH else flags);
          flags = (if c = CHR ''X'' then flags OR FLAGS_UPPERCASE else flags);
          flags = (if c \<noteq> CHR ''i'' \<and> c \<noteq> CHR ''d''
                   then flags AND NOT (FLAGS_PLUS OR FLAGS_SPACE) else flags)
      in if flag_set flags FLAGS_PRECISION then flags AND NOT FLAGS_ZEROPAD else flags)"

text \<open>
  The magnitude of a signed argument; \<open>0 - value\<close> of the most negative value is the value
  itself, which the cast to \<open>unsigned\<close> reads as its magnitude.
\<close>

definition magnitude :: "u32 \<Rightarrow> u32" where
  "magnitude value = (if 0 <s value then value else 0 - value)"

definition signed_arg :: "u32 \<Rightarrow> u32 \<Rightarrow> u32" where
  "signed_arg flags w =
     (if flag_set flags FLAGS_CHAR then ucast (ucast w :: u8)
      else if flag_set flags FLAGS_SHORT then scast (ucast w :: u16) else w)"

definition unsigned_arg :: "u32 \<Rightarrow> u32 \<Rightarrow> u32" where
  "unsigned_arg flags w =
     (if flag_set flags FLAGS_CHAR then ucast (ucast w :: u8)
      else if flag_set flags FLAGS_SHORT then ucast (ucast w :: u16) else w)"

definition conv_int ::
  "'b out_fct_type \<Rightarrow> u32 \<Rightarrow> char \<Rightarrow> u32 \<Rightarrow> u32 \<Rightarrow> u32 \<Rightarrow> va_arg list \<Rightarrow> 'b \<times> u32
    \<Rightarrow> (va_arg list \<times> 'b \<times> u32) option" where
  "conv_int out maxlen c flags width precision va st =
     (let base = conv_base c; flags = conv_flags c flags in
      if flag_set flags FLAGS_LONG_LONG then Some (va, st)
      else do {
        (w, va) \<leftarrow> va_int va;
        st \<leftarrow> (if c = CHR ''i'' \<or> c = CHR ''d'' then
                (let value = (if flag_set flags FLAGS_LONG then w else signed_arg flags w)
                 in ntoa_long out maxlen (magnitude value) (value <s 0) base precision width flags st)
              else
                (let value = (if flag_set flags FLAGS_LONG then w else unsigned_arg flags w)
                 in ntoa_long out maxlen value False base precision width flags st));
        Some (va, st) })"

text \<open>\<open>while (l++ < width) out(' ', buffer, idx++, maxlen)\<close>.\<close>

definition pad_to :: "'b out_fct_type \<Rightarrow> u32 \<Rightarrow> u32 \<Rightarrow> u32 \<Rightarrow> 'b \<times> u32 \<Rightarrow> ('b \<times> u32) option" where
  "pad_to out maxlen l width st = emit_times out maxlen (unat width - unat l) CHR '' '' st"

definition conv_char ::
  "'b out_fct_type \<Rightarrow> u32 \<Rightarrow> u32 \<Rightarrow> u32 \<Rightarrow> va_arg list \<Rightarrow> 'b \<times> u32
    \<Rightarrow> (va_arg list \<times> 'b \<times> u32) option" where
  "conv_char out maxlen flags width va st = do {
     st \<leftarrow> (if \<not> flag_set flags FLAGS_LEFT then pad_to out maxlen 1 width st else Some st);
     (w, va) \<leftarrow> va_int va;
     st \<leftarrow> emit out maxlen (char_of (unat (ucast w :: u8))) st;
     st \<leftarrow> (if flag_set flags FLAGS_LEFT then pad_to out maxlen 1 width st else Some st);
     Some (va, st) }"

fun out_string :: "'b out_fct_type \<Rightarrow> u32 \<Rightarrow> u32 \<Rightarrow> u32 \<Rightarrow> char list \<Rightarrow> 'b \<times> u32 \<Rightarrow> ('b \<times> u32) option" where
  "out_string out maxlen flags precision [] st = Some st"
| "out_string out maxlen flags precision (c # p) st =
     (if c \<noteq> NUL \<and> (\<not> flag_set flags FLAGS_PRECISION \<or> precision \<noteq> 0) then do {
        st \<leftarrow> emit out maxlen c st;
        out_string out maxlen flags
          (if flag_set flags FLAGS_PRECISION then precision - 1 else precision) p st }
      else Some st)"

definition conv_str ::
  "'b out_fct_type \<Rightarrow> u32 \<Rightarrow> u32 \<Rightarrow> u32 \<Rightarrow> u32 \<Rightarrow> va_arg list \<Rightarrow> 'b \<times> u32
    \<Rightarrow> (va_arg list \<times> 'b \<times> u32) option" where
  "conv_str out maxlen flags width precision va st = do {
     (p, va) \<leftarrow> va_str va;
     let l = strnlen_s p (if precision \<noteq> 0 then precision else - 1);
     let l = (if flag_set flags FLAGS_PRECISION then (if l < precision then l else precision) else l);
     st \<leftarrow> (if \<not> flag_set flags FLAGS_LEFT then pad_to out maxlen l width st else Some st);
     st \<leftarrow> out_string out maxlen flags precision p st;
     st \<leftarrow> (if flag_set flags FLAGS_LEFT then pad_to out maxlen l width st else Some st);
     Some (va, st) }"

definition conv_ptr ::
  "'b out_fct_type \<Rightarrow> u32 \<Rightarrow> u32 \<Rightarrow> u32 \<Rightarrow> va_arg list \<Rightarrow> 'b \<times> u32
    \<Rightarrow> (va_arg list \<times> 'b \<times> u32) option" where
  "conv_ptr out maxlen flags precision va st = do {
     let flags = flags OR (FLAGS_ZEROPAD OR FLAGS_UPPERCASE);
     (p, va) \<leftarrow> va_ptr va;
     st \<leftarrow> ntoa_long out maxlen p False 16 precision 8 flags st;
     Some (va, st) }"

text \<open>One conversion, \<open>fmt\<close> just after the \<open>%\<close>: its fields, then the specifier.\<close>

definition parse_spec ::
  "char list \<Rightarrow> va_arg list \<Rightarrow> (u32 \<times> u32 \<times> u32 \<times> char list \<times> va_arg list) option" where
  "parse_spec fmt va = do {
     let (flags, fmt) = parse_flags 0 fmt;
     (flags, width, fmt, va) \<leftarrow> parse_width flags fmt va;
     (flags, precision, fmt, va) \<leftarrow> parse_precision flags fmt va;
     (flags, fmt) \<leftarrow> parse_length flags fmt;
     Some (flags, width, precision, fmt, va) }"

definition conversion ::
  "'b out_fct_type \<Rightarrow> u32 \<Rightarrow> char list \<Rightarrow> va_arg list \<Rightarrow> 'b \<times> u32
    \<Rightarrow> (char list \<times> va_arg list \<times> 'b \<times> u32) option" where
  "conversion out maxlen fmt va st = do {
     (flags, width, precision, fmt, va) \<leftarrow> parse_spec fmt va;
     (va, st) \<leftarrow>
       (if int_conversion (cur fmt) then
          conv_int out maxlen (cur fmt) flags width precision va st
        else if cur fmt = CHR ''c'' then conv_char out maxlen flags width va st
        else if cur fmt = CHR ''s'' then conv_str out maxlen flags width precision va st
        else if cur fmt = CHR ''p'' then conv_ptr out maxlen flags precision va st
        else do { st \<leftarrow> emit out maxlen (cur fmt) st; Some (va, st) });
     fmt \<leftarrow> advance fmt;
     Some (fmt, va, st) }"

lemma advance_shrinks: "advance fmt = Some fmt' \<Longrightarrow> length fmt' < length fmt"
  by (auto simp: advance_def split: list.splits)

lemma atoi_shrinks: "atoi i fmt = (n, fmt') \<Longrightarrow> length fmt' \<le> length fmt"
  by (induction i fmt rule: atoi.induct) (auto split: if_splits)

lemma parse_flags_shrinks: "parse_flags flags fmt = (flags', fmt') \<Longrightarrow> length fmt' \<le> length fmt"
  by (induction flags fmt rule: parse_flags.induct) (auto split: if_splits)

lemma parse_width_shrinks:
  "parse_width flags fmt va = Some (flags', width, fmt', va') \<Longrightarrow> length fmt' \<le> length fmt"
  by (auto simp: parse_width_def Let_def elim!: bind_SomeE dest!: advance_shrinks atoi_shrinks
    split: prod.split_asm if_split_asm)

lemma parse_precision_shrinks:
  "parse_precision flags fmt va = Some (flags', prec, fmt', va') \<Longrightarrow> length fmt' \<le> length fmt"
  by (auto simp: parse_precision_def Let_def elim!: bind_SomeE dest!: advance_shrinks atoi_shrinks
    split: prod.split_asm if_split_asm)

lemma parse_length_shrinks:
  "parse_length flags fmt = Some (flags', fmt') \<Longrightarrow> length fmt' \<le> length fmt"
  by (auto simp: parse_length_def Let_def elim!: bind_SomeE dest!: advance_shrinks
    split: if_split_asm)

lemma parse_spec_shrinks:
  "parse_spec fmt va = Some (flags, width, prec, fmt', va') \<Longrightarrow> length fmt' \<le> length fmt"
  by (auto simp: parse_spec_def elim!: bind_SomeE dest!: parse_flags_shrinks parse_width_shrinks
    parse_precision_shrinks parse_length_shrinks split: prod.split_asm)

lemma conversion_shrinks:
  "conversion out maxlen fmt va st = Some (fmt', va', st') \<Longrightarrow> length fmt' < length fmt"
  by (auto simp: conversion_def elim!: bind_SomeE dest!: parse_spec_shrinks advance_shrinks
    split: prod.split_asm)

section \<open>The formatter\<close>

function vformat ::
  "'b out_fct_type \<Rightarrow> u32 \<Rightarrow> char list \<Rightarrow> va_arg list \<Rightarrow> 'b \<times> u32 \<Rightarrow> ('b \<times> u32) option" where
  "vformat out maxlen fmt va st =
     (case fmt of
        [] \<Rightarrow> Some st
      | c # s \<Rightarrow>
          if c = NUL then Some st
          else if c \<noteq> CHR ''%'' then do {
            st \<leftarrow> emit out maxlen c st;
            vformat out maxlen s va st }
          else do {
            (fmt, va, st) \<leftarrow> conversion out maxlen s va st;
            vformat out maxlen fmt va st })"
  by pat_completeness auto
termination
  by (relation "measure (\<lambda>(out, maxlen, fmt, va, st). length fmt)")
    (auto dest!: conversion_shrinks)

declare vformat.simps [simp del]

text \<open>\<open>null\<close> is the test \<open>!buffer\<close>; the result is the returned length and the buffer.\<close>

definition vsnprintf_core ::
  "bool \<Rightarrow> 'b out_fct_type \<Rightarrow> u32 \<Rightarrow> char list \<Rightarrow> va_arg list \<Rightarrow> 'b \<Rightarrow> (u32 \<times> 'b) option" where
  "vsnprintf_core null out maxlen fmt va buffer = do {
     let out = (if null then out_null else out);
     (buffer, idx) \<leftarrow> vformat out maxlen fmt va (buffer, 0);
     buffer \<leftarrow> out NUL buffer (if idx < maxlen then idx else maxlen - 1) maxlen;
     Some (idx, buffer) }"

definition c_printf ::
  "(char \<Rightarrow> 'w \<Rightarrow> 'w) \<Rightarrow> char list \<Rightarrow> va_arg list \<Rightarrow> 'w \<Rightarrow> (u32 \<times> 'w) option" where
  "c_printf putchar fmt va w = vsnprintf_core False (out_char putchar) (- 1) fmt va w"

definition c_sprintf ::
  "bool \<Rightarrow> char list \<Rightarrow> va_arg list \<Rightarrow> char list \<Rightarrow> (u32 \<times> char list) option" where
  "c_sprintf null fmt va buffer = vsnprintf_core null out_buffer (- 1) fmt va buffer"

definition c_snprintf ::
  "bool \<Rightarrow> u32 \<Rightarrow> char list \<Rightarrow> va_arg list \<Rightarrow> char list \<Rightarrow> (u32 \<times> char list) option" where
  "c_snprintf null count fmt va buffer = vsnprintf_core null out_buffer count fmt va buffer"

definition c_vprintf ::
  "(char \<Rightarrow> 'w \<Rightarrow> 'w) \<Rightarrow> char list \<Rightarrow> va_arg list \<Rightarrow> 'w \<Rightarrow> (u32 \<times> 'w) option" where
  "c_vprintf putchar fmt va w = vsnprintf_core False (out_char putchar) (- 1) fmt va w"

definition c_vsnprintf ::
  "bool \<Rightarrow> u32 \<Rightarrow> char list \<Rightarrow> va_arg list \<Rightarrow> char list \<Rightarrow> (u32 \<times> char list) option" where
  "c_vsnprintf null count fmt va buffer = vsnprintf_core null out_buffer count fmt va buffer"

definition fctprintf ::
  "(char \<Rightarrow> 'w \<Rightarrow> 'w) \<Rightarrow> char list \<Rightarrow> va_arg list \<Rightarrow> 'w \<Rightarrow> (u32 \<times> 'w) option" where
  "fctprintf fct fmt va arg = vsnprintf_core False (out_fct fct) (- 1) fmt va arg"

end
