(* ===== verification/Usb.thy ===== *)
theory Usb
  imports Usb_Protocol Memory_Config Printf
begin

text \<open>
  The polled USB device driver \<^verbatim>\<open>src_stage2/usb.cpp\<close> and the register map in \<^verbatim>\<open>usb.h\<close>.

  \<^item> The registers the hardware fills (interrupt flags and status, receive length) and the content
    of the DMA buffer of endpoint 0 are inputs of \<open>do_usb_poll\<close>; every write of the driver to a
    register is appended to the write log, in order, and the value of a register the driver reads
    back is the one it wrote last.
  \<^item> A C pointer to the data of an answer is the list of the bytes it points at: the objects behind
    it (static descriptors and answer buffers) change only when a new request is handled.
  \<^item> The class driver behind \<open>dfu_handle_request\<close> and \<open>dfu_handle_data\<close> is a record of its two
    operations, as the file only declares them.
  \<^item> A read or write outside a C object is \<open>None\<close>.
\<close>

section \<open>Registers\<close>

text \<open>The packed register file at \<open>USBOTG_BASE\<close>; an endpoint register carries its index.\<close>

datatype usb_reg =
  BASE_CTRL | UDEV_CTRL | INT_EN | DEV_ADDR | INT_FG
| UEP4_1_MOD | UEP2_3_MOD | UEP5_6_MOD | UEP7_MOD
| EP_DMA nat | EP_TX_LEN nat | EP_TX_CTRL nat | EP_RX_CTRL nat

definition USBOTG_BASE :: u32 where "USBOTG_BASE = 0x50000000"

fun reg_address :: "usb_reg \<Rightarrow> u32" where
  "reg_address BASE_CTRL = USBOTG_BASE + 0x00"
| "reg_address UDEV_CTRL = USBOTG_BASE + 0x01"
| "reg_address INT_EN = USBOTG_BASE + 0x02"
| "reg_address DEV_ADDR = USBOTG_BASE + 0x03"
| "reg_address INT_FG = USBOTG_BASE + 0x06"
| "reg_address UEP4_1_MOD = USBOTG_BASE + 0x0C"
| "reg_address UEP2_3_MOD = USBOTG_BASE + 0x0D"
| "reg_address UEP5_6_MOD = USBOTG_BASE + 0x0E"
| "reg_address UEP7_MOD = USBOTG_BASE + 0x0F"
| "reg_address (EP_DMA ep) = USBOTG_BASE + 0x10 + 4 * of_nat ep"
| "reg_address (EP_TX_LEN ep) = USBOTG_BASE + 0x30 + 2 * (2 * of_nat ep)"
| "reg_address (EP_TX_CTRL ep) = USBOTG_BASE + 0x32 + 4 * of_nat ep"
| "reg_address (EP_RX_CTRL ep) = USBOTG_BASE + 0x33 + 4 * of_nat ep"

definition USBFS_CTRL_DMA_EN :: u32 where "USBFS_CTRL_DMA_EN = push_bit 0 1"
definition USBFS_CTRL_CLR_ALL :: u32 where "USBFS_CTRL_CLR_ALL = push_bit 1 1"
definition USBFS_CTRL_RESET_SIE :: u32 where "USBFS_CTRL_RESET_SIE = push_bit 2 1"
definition USBFS_CTRL_INT_BUSY :: u32 where "USBFS_CTRL_INT_BUSY = push_bit 3 1"
definition USBFS_CTRL_SYS_CTRL :: u32 where "USBFS_CTRL_SYS_CTRL = push_bit 4 1"
definition USBFS_CTRL_DEV_PUEN :: u32 where "USBFS_CTRL_DEV_PUEN = push_bit 5 1"
definition USBFS_UDEV_CTRL_PORT_EN :: u32 where "USBFS_UDEV_CTRL_PORT_EN = push_bit 0 1"
definition USBFS_UDEV_CTRL_PD_DIS :: u32 where "USBFS_UDEV_CTRL_PD_DIS = push_bit 7 1"
definition USBFS_INT_EN_BUS_RST :: u32 where "USBFS_INT_EN_BUS_RST = push_bit 0 1"
definition USBFS_INT_EN_TRANSFER :: u32 where "USBFS_INT_EN_TRANSFER = push_bit 1 1"
definition USBFS_INT_EN_SUSPEND :: u32 where "USBFS_INT_EN_SUSPEND = push_bit 2 1"
definition USBFS_INT_FG_BUS_RST :: u8 where "USBFS_INT_FG_BUS_RST = push_bit 0 1"
definition USBFS_INT_FG_TRANSFER :: u8 where "USBFS_INT_FG_TRANSFER = push_bit 1 1"
definition USBFS_INT_FG_SUSPEND :: u8 where "USBFS_INT_FG_SUSPEND = push_bit 2 1"
definition USBFS_INT_ST_ENDP_MASK :: u8 where "USBFS_INT_ST_ENDP_MASK = 0x0F"
definition USBFS_INT_ST_TOKEN :: "u8 \<Rightarrow> u8" where "USBFS_INT_ST_TOKEN x = drop_bit 4 x AND 0x03"
definition PID_OUT :: u8 where "PID_OUT = 0"
definition PID_IN :: u8 where "PID_IN = 2"
definition PID_SETUP :: u8 where "PID_SETUP = 3"
definition USBFS_EP_RES_ACK :: u32 where "USBFS_EP_RES_ACK = push_bit 0 0"
definition USBFS_EP_RES_NAK :: u32 where "USBFS_EP_RES_NAK = push_bit 0 2"
definition USBFS_EP_RES_STALL :: u32 where "USBFS_EP_RES_STALL = push_bit 0 3"
definition USBFS_EP_TOG :: u32 where "USBFS_EP_TOG = push_bit 2 1"
definition USBFS_EP_AUTO_TOG :: u32 where "USBFS_EP_AUTO_TOG = push_bit 3 1"

lemmas usb_bit_defs = USBFS_CTRL_DMA_EN_def USBFS_CTRL_CLR_ALL_def USBFS_CTRL_RESET_SIE_def
  USBFS_CTRL_INT_BUSY_def USBFS_CTRL_SYS_CTRL_def USBFS_CTRL_DEV_PUEN_def
  USBFS_UDEV_CTRL_PORT_EN_def USBFS_UDEV_CTRL_PD_DIS_def USBFS_INT_EN_BUS_RST_def
  USBFS_INT_EN_TRANSFER_def USBFS_INT_EN_SUSPEND_def USBFS_INT_FG_BUS_RST_def
  USBFS_INT_FG_TRANSFER_def USBFS_INT_FG_SUSPEND_def USBFS_INT_ST_ENDP_MASK_def
  USBFS_INT_ST_TOKEN_def PID_OUT_def PID_IN_def PID_SETUP_def USBFS_EP_RES_ACK_def
  USBFS_EP_RES_NAK_def USBFS_EP_RES_STALL_def USBFS_EP_TOG_def USBFS_EP_AUTO_TOG_def

section \<open>The state of the driver\<close>

definition STRIDX_MFR :: u8 where "STRIDX_MFR = 1"
definition STRIDX_PRODUCT :: u8 where "STRIDX_PRODUCT = 2"
definition STRIDX_SERIAL :: u8 where "STRIDX_SERIAL = 3"
definition STRIDX_DFUSE :: u8 where "STRIDX_DFUSE = 4"
definition EP0_MAX_PACKET :: nat where "EP0_MAX_PACKET = 64"

datatype ctrl_phase = CTRL_IDLE | CTRL_DATA_IN | CTRL_DATA_OUT | CTRL_STATUS

record 'p usb =
  rd_INT_FG :: u8
  rd_INT_ST :: u8
  rd_RX_LEN :: u16
  wlog :: "(usb_reg \<times> u32) list"
  ep0_addr :: u32
  dfu_rx_addr :: u32
  ep0_buffer :: "u8 list"
  dfu_rx_buffer :: "u8 list"
  dfu_rx_offset :: u16
  phase :: ctrl_phase
  ctrl_data_ptr :: "u8 list option"
  ctrl_data_len :: u16
  ctrl_data_remaining :: u16
  ctrl_req_type :: u8
  ctrl_request :: u8
  usb_dev_addr :: u8
  ep0_tog :: bool
  cls :: 'p

record 'p usb_class =
  cls_request :: "usb_setup_packet \<Rightarrow> 'p \<Rightarrow> (u8 list option \<times> u16) \<times> 'p"
  cls_data :: "cptr \<Rightarrow> u16 \<Rightarrow> 'p \<Rightarrow> 'p option"

definition wreg :: "usb_reg \<Rightarrow> u32 \<Rightarrow> 'p usb \<Rightarrow> 'p usb" where
  "wreg r v u = u\<lparr>wlog := wlog u @ [(r, v)]\<rparr>"

definition last_write :: "usb_reg \<Rightarrow> (usb_reg \<times> u32) list \<Rightarrow> u32" where
  "last_write r ws = (case filter (\<lambda>w. fst w = r) (rev ws) of [] \<Rightarrow> 0 | w # _ \<Rightarrow> snd w)"

text \<open>The static initialisers; the buffers and the state of the class driver are given.\<close>

definition usb_reset_state :: "u32 \<Rightarrow> u32 \<Rightarrow> 'p \<Rightarrow> 'p usb" where
  "usb_reset_state a0 a1 p =
     \<lparr>rd_INT_FG = 0, rd_INT_ST = 0, rd_RX_LEN = 0, wlog = [], ep0_addr = a0, dfu_rx_addr = a1,
      ep0_buffer = replicate EP0_MAX_PACKET 0, dfu_rx_buffer = replicate DFU_TRANSFER_SIZE 0,
      dfu_rx_offset = 0, phase = CTRL_IDLE, ctrl_data_ptr = None, ctrl_data_len = 0,
      ctrl_data_remaining = 0, ctrl_req_type = 0, ctrl_request = 0, usb_dev_addr = 0,
      ep0_tog = False, cls = p\<rparr>"

section \<open>Endpoint 0\<close>

definition ep0_tx_nak :: "'p usb \<Rightarrow> 'p usb" where
  "ep0_tx_nak = wreg (EP_TX_CTRL 0) USBFS_EP_RES_NAK"

definition ep0_tx_stall :: "'p usb \<Rightarrow> 'p usb" where
  "ep0_tx_stall u = wreg (EP_TX_CTRL 0) USBFS_EP_RES_STALL (wreg (EP_TX_LEN 0) 0 u)"

definition ep0_rx_ack :: "'p usb \<Rightarrow> 'p usb" where
  "ep0_rx_ack = wreg (EP_RX_CTRL 0) USBFS_EP_RES_ACK"

definition ep0_rx_stall :: "'p usb \<Rightarrow> 'p usb" where
  "ep0_rx_stall = wreg (EP_RX_CTRL 0) USBFS_EP_RES_STALL"

definition packet_len :: "u16 \<Rightarrow> u16" where
  "packet_len len = (if len > of_nat EP0_MAX_PACKET then of_nat EP0_MAX_PACKET else len)"

definition ep0_send :: "u8 list option \<Rightarrow> u16 \<Rightarrow> 'p usb \<Rightarrow> 'p usb option" where
  "ep0_send data len u = do {
     let send_len = packet_len len;
     buf \<leftarrow> (case data of
               None \<Rightarrow> Some (ep0_buffer u)
             | Some bs \<Rightarrow> if send_len \<noteq> 0 then memcpy_buf (ep0_buffer u) 0 bs (unat send_len)
                        else Some (ep0_buffer u));
     let u = wreg (EP_TX_LEN 0) (ucast send_len) (u\<lparr>ep0_buffer := buf\<rparr>);
     let u = wreg (EP_TX_CTRL 0)
               (USBFS_EP_RES_ACK OR (if ep0_tog u then USBFS_EP_TOG else 0)) u;
     Some (u\<lparr>ep0_tog := \<not> ep0_tog u\<rparr>) }"

definition ep0_recv :: "'p usb \<Rightarrow> 'p usb" where
  "ep0_recv = wreg (EP_RX_CTRL 0) USBFS_EP_RES_ACK"

section \<open>Descriptors\<close>

definition USB_VID :: u16 where "USB_VID = 0x1d50"
definition USB_PID :: u16 where "USB_PID = 0x6030"
definition DFU_STRING_MFR :: "char list" where "DFU_STRING_MFR = ''CH32V3x Bootloader''"
definition DFU_STRING_PRODUCT :: "char list" where "DFU_STRING_PRODUCT = ''SWINDLE DFU''"
definition DFU_STRING_SERIAL :: "char list" where "DFU_STRING_SERIAL = ''CH32V3x-001''"

definition dev_desc :: usb_device_descriptor where
  "dev_desc = \<lparr>dd_bLength = of_nat USB_DT_DEVICE_SIZE, dd_bDescriptorType = USB_DT_DEVICE,
     dd_bcdUSB = USB_VERSION_1_1, dd_bDeviceClass = 0, dd_bDeviceSubClass = 0,
     dd_bDeviceProtocol = 0, dd_bMaxPacketSize0 = of_nat EP0_MAX_PACKET, dd_idVendor = USB_VID,
     dd_idProduct = USB_PID, dd_bcdDevice = 0x0100, dd_iManufacturer = STRIDX_MFR,
     dd_iProduct = STRIDX_PRODUCT, dd_iSerialNumber = STRIDX_SERIAL, dd_bNumConfigurations = 1\<rparr>"

definition dfu_func_desc :: usb_dfu_descriptor where
  "dfu_func_desc = \<lparr>fd_bLength = 9, fd_bDescriptorType = DFU_FUNCTIONAL,
     fd_bmAttributes = USB_DFU_CAN_DOWNLOAD OR USB_DFU_CAN_UPLOAD OR
       USB_DFU_MANIFEST_TOLERANT OR USB_DFU_WILL_DETACH,
     fd_wDetachTimeout = 1000, fd_wTransferSize = of_nat DFU_TRANSFER_SIZE,
     fd_bcdDFUVersion = 0x0110\<rparr>"

definition cfg_desc :: usb_config_descriptor where
  "cfg_desc = \<lparr>cd_bLength = of_nat USB_DT_CONFIG_SIZE, cd_bDescriptorType = USB_DT_CONFIG,
     cd_wTotalLength = of_nat (USB_DT_CONFIG_SIZE + USB_DT_INTERFACE_SIZE + 9),
     cd_bNumInterfaces = 1, cd_bConfigurationValue = 1, cd_iConfiguration = 0,
     cd_bmAttributes = USB_CONFIG_SELF_POWERED, cd_bMaxPower = 50\<rparr>"

definition ifc_desc :: usb_interface_descriptor where
  "ifc_desc = \<lparr>id_bLength = of_nat USB_DT_INTERFACE_SIZE, id_bDescriptorType = USB_DT_INTERFACE,
     id_bInterfaceNumber = 0, id_bAlternateSetting = 0, id_bNumEndpoints = 0,
     id_bInterfaceClass = USB_DFU_CLASS, id_bInterfaceSubClass = USB_DFU_SUBCLASS,
     id_bInterfaceProtocol = USB_DFU_PROTOCOL, id_iInterface = STRIDX_DFUSE\<rparr>"

text \<open>The three descriptors one after the other in \<open>cfg_buf[64]\<close>, and the bytes up to \<open>p\<close>.\<close>

definition config_bytes :: "u8 list option" where
  "config_bytes = do {
     let b = replicate EP0_MAX_PACKET 0;
     b \<leftarrow> memcpy_buf b 0 (config_descriptor_bytes cfg_desc) USB_DT_CONFIG_SIZE;
     let p = USB_DT_CONFIG_SIZE;
     b \<leftarrow> memcpy_buf b p (interface_descriptor_bytes ifc_desc) USB_DT_INTERFACE_SIZE;
     let p = p + USB_DT_INTERFACE_SIZE;
     b \<leftarrow> memcpy_buf b p (dfu_descriptor_bytes dfu_func_desc) 9;
     Some (take (p + 9) b) }"

definition dfuse_format :: "char list" where
  "dfuse_format = ''@Internal Flash  /0x00000000/%d*%04dKa,%d*%04dKg''"

definition dfuse_args :: "va_arg list" where
  "dfuse_args = [VInt (FLASH_BOOTLDR_SIZE_KB div of_nat DFU_SECTOR_SIZE_KB),
     VInt (of_nat DFU_SECTOR_SIZE_KB), VInt (FLASH_APP_SIZE_KB div of_nat DFU_SECTOR_SIZE_KB),
     VInt (of_nat DFU_SECTOR_SIZE_KB)]"

text \<open>\<open>dfuse_str[60]\<close> after the \<open>snprintf\<close>, as the C string it holds.\<close>

definition dfuse_str :: "char list option" where
  "dfuse_str = do {
     (n, b) \<leftarrow> c_snprintf False 59 dfuse_format dfuse_args (replicate 60 NUL);
     Some (takeWhile (\<lambda>c. c \<noteq> NUL) b) }"

definition string_for :: "u8 \<Rightarrow> char list option" where
  "string_for idx =
     (if idx = STRIDX_MFR then Some DFU_STRING_MFR
      else if idx = STRIDX_PRODUCT then Some DFU_STRING_PRODUCT
      else if idx = STRIDX_SERIAL then Some DFU_STRING_SERIAL
      else if idx = STRIDX_DFUSE then dfuse_str
      else Some [])"

text \<open>\<open>while (*s) { *sp++ = *s++; *sp++ = 0; }\<close> into \<open>sbuf[100]\<close>; \<open>sb\<close> is what lies below \<open>sp\<close>.\<close>

definition SBUF_SIZE :: nat where "SBUF_SIZE = 100"

fun store_utf16 :: "char list \<Rightarrow> u8 list \<Rightarrow> u8 list option" where
  "store_utf16 [] sb = Some sb"
| "store_utf16 (c # s) sb =
     (if length sb + 2 \<le> SBUF_SIZE then store_utf16 s (sb @ [of_char c, 0]) else None)"

definition string_descriptor :: "u8 \<Rightarrow> u8 list option" where
  "string_descriptor idx =
     (if idx = 0 then
        Some [of_nat USB_DT_STRING_HEADER + 2, USB_DT_STRING,
              ucast (USB_LANGID_ENGLISH_US AND 0xFF), ucast (drop_bit 8 USB_LANGID_ENGLISH_US AND 0xFF)]
      else do {
        s \<leftarrow> string_for idx;
        store_utf16 s [of_nat USB_DT_STRING_HEADER + of_nat (length s) * 2, USB_DT_STRING] })"

section \<open>Standard requests and routing\<close>

definition USB_REQ_GET_CONFIGURATION :: u8 where "USB_REQ_GET_CONFIGURATION = 0x08"

text \<open>An answer: \<open>*data\<close> and \<open>*len\<close>.\<close>

definition answer :: "u8 list \<Rightarrow> u8 list option \<times> u16" where
  "answer bs = (Some bs, of_nat (length bs))"

definition get_descriptor :: "u16 \<Rightarrow> (u8 list option \<times> u16) option" where
  "get_descriptor v =
     (let desc_type = ucast (drop_bit 8 v AND 0xFF) :: u8; idx = ucast (v AND 0xFF) :: u8 in
      if desc_type = USB_DT_DEVICE then Some (answer (device_descriptor_bytes dev_desc))
      else if desc_type = USB_DT_CONFIG then map_option answer config_bytes
      else if desc_type = USB_DT_STRING then map_option answer (string_descriptor idx)
      else Some (None, 0))"

definition handle_std_request ::
  "usb_setup_packet \<Rightarrow> 'p usb \<Rightarrow> ((u8 list option \<times> u16) \<times> 'p usb) option" where
  "handle_std_request req u =
     (if bRequest req = USB_REQ_SET_ADDRESS
      then Some ((None, 0), u\<lparr>usb_dev_addr := ucast (wValue req AND 0x7F)\<rparr>)
      else if bRequest req = USB_REQ_GET_DESCRIPTOR
      then map_option (\<lambda>resp. (resp, u)) (get_descriptor (wValue req))
      else if bRequest req = USB_REQ_GET_CONFIGURATION then Some (answer [1], u)
      else Some ((None, 0), u))"

definition route_request ::
  "'p usb_class \<Rightarrow> usb_setup_packet \<Rightarrow> 'p usb \<Rightarrow> ((u8 list option \<times> u16) \<times> 'p usb) option" where
  "route_request k req u =
     (let type = bmRequestType req AND 0x60 in
      if type = 0x00 then handle_std_request req u
      else if type = 0x20 then
        (case cls_request k req (cls u) of (resp, p) \<Rightarrow> Some (resp, u\<lparr>cls := p\<rparr>))
      else Some ((None, 0), u))"

section \<open>Initialisation\<close>

fun init_endpoints :: "nat \<Rightarrow> 'p usb \<Rightarrow> 'p usb" where
  "init_endpoints 0 u = u"
| "init_endpoints (Suc n) u =
     (let ep = 8 - Suc n;
          u = wreg (EP_DMA ep) 0 u;
          u = wreg (EP_TX_LEN ep) 0 u;
          u = wreg (EP_TX_CTRL ep) (USBFS_EP_AUTO_TOG OR USBFS_EP_RES_NAK) u;
          u = wreg (EP_RX_CTRL ep) (USBFS_EP_AUTO_TOG OR USBFS_EP_RES_NAK) u
      in init_endpoints n u)"

text \<open>
  \<open>delay\<close> is \<open>lnDelay\<close>, which lets time pass; the loop of 150000 \<open>nop\<close>s has no effect on the
  state. The endpoints are numbered upwards, \<open>ep = 1 \<dots> 7\<close>.
\<close>

definition usb_init ::
  "(nat \<Rightarrow> 'x \<times> 'p \<Rightarrow> ('x \<times> 'p) option) \<Rightarrow> 'x \<times> 'p usb \<Rightarrow> ('x \<times> 'p usb) option" where
  "usb_init delay s = do {
     let (x, u) = s;
     let u = wreg BASE_CTRL (USBFS_CTRL_CLR_ALL OR USBFS_CTRL_RESET_SIE) u;
     (x, p) \<leftarrow> delay 30 (x, cls u);
     let u = wreg BASE_CTRL 0 (u\<lparr>cls := p\<rparr>);
     let u = wreg BASE_CTRL (USBFS_CTRL_SYS_CTRL OR USBFS_CTRL_INT_BUSY OR USBFS_CTRL_DMA_EN) u;
     let u = wreg UDEV_CTRL (USBFS_UDEV_CTRL_PD_DIS OR USBFS_UDEV_CTRL_PORT_EN) u;
     let u = wreg DEV_ADDR 0x00 u;
     let u = wreg INT_FG 0xFF u;
     let u = wreg INT_EN (USBFS_INT_EN_BUS_RST OR USBFS_INT_EN_TRANSFER OR USBFS_INT_EN_SUSPEND) u;
     let u = wreg (EP_DMA 0) (ep0_addr u) u;
     let u = wreg (EP_TX_LEN 0) 0 u;
     let u = wreg (EP_TX_CTRL 0) USBFS_EP_RES_NAK u;
     let u = wreg (EP_RX_CTRL 0) USBFS_EP_RES_ACK u;
     let u = wreg UEP4_1_MOD 0xCC u;
     let u = wreg UEP2_3_MOD 0xCC u;
     let u = wreg UEP5_6_MOD 0xCC u;
     let u = wreg UEP7_MOD 0x0C u;
     let u = init_endpoints 7 u;
     let u = u\<lparr>phase := CTRL_IDLE, ep0_tog := True, usb_dev_addr := 0\<rparr>;
     Some (x, wreg BASE_CTRL (last_write BASE_CTRL (wlog u) OR USBFS_CTRL_DEV_PUEN) u) }"

section \<open>Polling\<close>

text \<open>A SETUP packet: reset the endpoint, read the request, answer it.\<close>

definition start_data_in :: "u8 list option \<Rightarrow> u16 \<Rightarrow> 'p usb \<Rightarrow> 'p usb option" where
  "start_data_in d l u =
     ep0_send d (packet_len l)
       (u\<lparr>ctrl_data_ptr := d, ctrl_data_len := l, ctrl_data_remaining := l, phase := CTRL_DATA_IN\<rparr>)"

definition poll_setup :: "'p usb_class \<Rightarrow> 'p usb \<Rightarrow> 'p usb option" where
  "poll_setup k u = do {
     let u = wreg (EP_TX_CTRL 0) USBFS_EP_RES_NAK u;
     let u = wreg (EP_RX_CTRL 0) USBFS_EP_RES_ACK u;
     let req = setup_at (ep0_buffer u);
     let u = u\<lparr>ctrl_req_type := bmRequestType req, ctrl_request := bRequest req, ep0_tog := True\<rparr>;
     ((d, l), u) \<leftarrow> route_request k req u;
     if wLength req = 0 then
       if l = 0 then ep0_send None 0 (u\<lparr>phase := CTRL_STATUS\<rparr>)
       else start_data_in d l u
     else if flag_set (bmRequestType req) USB_DIR_IN then
       start_data_in d (if l > wLength req then wLength req else l) u
     else
       Some (ep0_recv (u\<lparr>phase := CTRL_DATA_OUT, ctrl_data_remaining := wLength req,
                        dfu_rx_offset := 0\<rparr>)) }"

text \<open>The address takes effect when the transfer is over.\<close>

definition apply_address :: "'p usb \<Rightarrow> 'p usb" where
  "apply_address u = (if ctrl_request u = USB_REQ_SET_ADDRESS
                      then wreg DEV_ADDR (ucast (usb_dev_addr u)) u else u)"

text \<open>
  An IN packet went out. The pointer arithmetic on \<open>ctrl_data_ptr\<close> is undefined on a null pointer
  and past the end of the data.
\<close>

definition poll_in :: "'p usb \<Rightarrow> 'p usb option" where
  "poll_in u =
     (if phase u = CTRL_DATA_IN \<and> ctrl_data_remaining u > 0 then do {
        let sent = packet_len (ctrl_data_remaining u);
        let u = u\<lparr>ctrl_data_remaining := ctrl_data_remaining u - sent\<rparr>;
        if ctrl_data_remaining u > 0 then do {
          let s = packet_len (ctrl_data_remaining u);
          bs \<leftarrow> ctrl_data_ptr u;
          ep0_send (Some (drop (unat (ctrl_data_len u - ctrl_data_remaining u)) bs)) s u }
        else Some (apply_address (u\<lparr>phase := CTRL_IDLE\<rparr>)) }
      else if phase u = CTRL_STATUS then Some (apply_address (u\<lparr>phase := CTRL_IDLE\<rparr>))
      else Some u)"

text \<open>An OUT packet came in. The sum in the bounds check is computed in \<open>int\<close>.\<close>

definition rx_store :: "'p usb \<Rightarrow> 'p usb option" where
  "rx_store u =
     (if unat (dfu_rx_offset u) + unat (rd_RX_LEN u) \<le> DFU_TRANSFER_SIZE then do {
        b \<leftarrow> memcpy_buf (dfu_rx_buffer u) (unat (dfu_rx_offset u)) (ep0_buffer u) (unat (rd_RX_LEN u));
        Some (u\<lparr>dfu_rx_buffer := b, dfu_rx_offset := dfu_rx_offset u + rd_RX_LEN u\<rparr>) }
      else Some u)"

text \<open>All data received: pass it to the DFU handler and acknowledge.\<close>

definition rx_complete :: "'p usb_class \<Rightarrow> 'p usb \<Rightarrow> 'p usb option" where
  "rx_complete k u = do {
     let buf = \<lparr>cp_addr = dfu_rx_addr u, cp_bytes = dfu_rx_buffer u\<rparr>;
     u \<leftarrow> (if ctrl_request u = DFU_DNLOAD \<and> dfu_rx_offset u > 0 then do {
             p \<leftarrow> cls_data k buf (dfu_rx_offset u) (cls u); Some (u\<lparr>cls := p\<rparr>) }
           else if ctrl_request u = DFU_DNLOAD \<and> dfu_rx_offset u = 0 then do {
             p \<leftarrow> cls_data k buf 0 (cls u); Some (u\<lparr>cls := p\<rparr>) }
           else Some u);
     ep0_send None 0 (u\<lparr>phase := CTRL_IDLE\<rparr>) }"

definition poll_out :: "'p usb_class \<Rightarrow> 'p usb \<Rightarrow> 'p usb option" where
  "poll_out k u = do {
     let rx_len = rd_RX_LEN u;
     u \<leftarrow> rx_store u;
     let u = u\<lparr>ctrl_data_remaining := ctrl_data_remaining u - rx_len\<rparr>;
     if ctrl_data_remaining u = 0 \<or> rx_len < of_nat EP0_MAX_PACKET then rx_complete k u
     else Some (ep0_recv u) }"

text \<open>The switch on the token of a completed transfer.\<close>

definition poll_transfer :: "'p usb_class \<Rightarrow> 'p usb \<Rightarrow> 'p usb option" where
  "poll_transfer k u =
     (let int_st = rd_INT_ST u;
          ep = int_st AND USBFS_INT_ST_ENDP_MASK;
          token = USBFS_INT_ST_TOKEN int_st
      in if token = PID_SETUP then poll_setup k u
         else if token = PID_IN then (if ep = 0 then poll_in u else Some u)
         else if token = PID_OUT then
           (if ep = 0 \<and> phase u = CTRL_DATA_OUT then poll_out k u else Some u)
         else Some u)"

definition poll_bus_reset :: "'p usb \<Rightarrow> 'p usb" where
  "poll_bus_reset u =
     (let u = u\<lparr>ep0_tog := True\<rparr>;
          u = wreg DEV_ADDR 0x00 u;
          u = wreg (EP_RX_CTRL 0) USBFS_EP_RES_ACK u
      in u\<lparr>phase := CTRL_IDLE\<rparr>)"

definition do_usb_poll :: "'p usb_class \<Rightarrow> 'p usb \<Rightarrow> 'p usb option" where
  "do_usb_poll k u =
     (let int_fg = rd_INT_FG u in
      if flag_set int_fg USBFS_INT_FG_TRANSFER then do {
        u \<leftarrow> poll_transfer k u;
        Some (wreg INT_FG (ucast USBFS_INT_FG_TRANSFER) u) }
      else if flag_set int_fg USBFS_INT_FG_BUS_RST then
        Some (wreg INT_FG (ucast USBFS_INT_FG_BUS_RST) (poll_bus_reset u))
      else if flag_set int_fg USBFS_INT_FG_SUSPEND then
        Some (wreg INT_FG (ucast USBFS_INT_FG_SUSPEND) u)
      else Some u)"

end
