(* ===== verification/Usb_Control.thy ===== *)
theory Usb_Control
  imports Usb_Driver
begin

text \<open>
  Control transfers as the host sees them: what it reads in the data stage of a device-to-host
  request, what the class driver gets of a host-to-device request, and when the device address
  changes.
\<close>

section \<open>Control reads\<close>

text \<open>The host issues \<open>n\<close> IN tokens and collects the packets that were armed for them.\<close>

fun read_packets :: "'p usb_class \<Rightarrow> nat \<Rightarrow> 'p usb \<Rightarrow> (u8 list \<times> 'p usb) option" where
  "read_packets k 0 u = Some ([], u)"
| "read_packets k (Suc n) u = do {
     u' \<leftarrow> host_step k Ev_in u;
     (rest, u'') \<leftarrow> read_packets k n u';
     Some (armed_packet u @ rest, u'') }"

text \<open>The last \<open>n\<close> of the bytes \<open>bs\<close> are still to be sent, the next packet of them is armed.\<close>

definition sending :: "u8 list \<Rightarrow> nat \<Rightarrow> 'p usb \<Rightarrow> bool" where
  "sending bs n u \<longleftrightarrow> phase u = CTRL_DATA_IN \<and> ctrl_data_ptr u = Some bs \<and>
     unat (ctrl_data_remaining u) = n \<and> n \<le> unat (ctrl_data_len u) \<and>
     unat (ctrl_data_len u) \<le> length bs \<and> length (ep0_buffer u) = EP0_MAX_PACKET \<and>
     armed_packet u = take (min 64 n) (drop (unat (ctrl_data_len u) - n) bs)"

lemma ep0_send_armed:
  assumes "ep0_send (Some bs) l u = Some u'" and "length (ep0_buffer u) = EP0_MAX_PACKET"
    and "unat (packet_len l) \<le> length bs"
  shows "armed_packet u' = take (unat (packet_len l)) bs" "length (ep0_buffer u') = EP0_MAX_PACKET"
proof -
  have "unat (packet_len l) \<le> EP0_MAX_PACKET" by (simp add: packet_len_unat EP0_MAX_PACKET_def)
  then show "armed_packet u' = take (unat (packet_len l)) bs"
    "length (ep0_buffer u') = EP0_MAX_PACKET"
    using assms by (auto simp: ep0_send_returns armed_packet_def last_write_def min_def)
qed

lemma packet_len_idem [simp]: "packet_len (packet_len l) = packet_len l"
  by (simp add: word_unat_eq_iff packet_len_unat)

lemma start_data_in_sending:
  assumes "length (ep0_buffer u) = EP0_MAX_PACKET" and "unat l \<le> length bs"
  shows "\<exists>u'. start_data_in (Some bs) l u = Some u' \<and> sending bs (unat l) u' \<and>
    ctrl_data_len u' = l \<and> cls u' = cls u \<and> ctrl_request u' = ctrl_request u \<and>
    usb_dev_addr u' = usb_dev_addr u"
proof -
  let ?u = "u\<lparr>ctrl_data_ptr := Some bs, ctrl_data_len := l, ctrl_data_remaining := l,
              phase := CTRL_DATA_IN\<rparr>"
  have buf: "length (ep0_buffer ?u) = EP0_MAX_PACKET" using assms(1) by simp
  have len: "unat (packet_len (packet_len l)) \<le> length bs" using assms(2) by (simp add: packet_len_unat)
  note run = ep0_send_returns [OF buf len]
  show ?thesis
    using ep0_send_armed [OF run buf len] run assms(2)
    by (simp add: start_data_in_def sending_def packet_len_unat)
qed

text \<open>One IN token while more than one packet is left, and the last one.\<close>

lemma in_step_more:
  assumes "sending bs n u" and "64 < n"
  shows "\<exists>u'. host_step k Ev_in u = Some u' \<and> sending bs (n - 64) u' \<and>
    ctrl_data_len u' = ctrl_data_len u \<and> cls u' = cls u"
proof -
  define rest where "rest = ctrl_data_remaining u - packet_len (ctrl_data_remaining u)"
  have n: "unat (ctrl_data_remaining u) = n" using assms(1) by (simp add: sending_def)
  then have plen: "unat (packet_len (ctrl_data_remaining u)) = 64"
    using assms(2) by (simp add: packet_len_unat)
  then have rest: "unat rest = n - 64"
    using n assms(2) by (simp add: rest_def unat_sub word_le_nat_alt)
  let ?u = "(deliver Ev_in u)\<lparr>ctrl_data_remaining := rest\<rparr>"
  define off where "off = unat (ctrl_data_len u - rest)"
  have "n \<le> unat (ctrl_data_len u)" using assms(1) by (simp add: sending_def)
  then have "unat rest \<le> unat (ctrl_data_len u)" using rest by linarith
  then have off: "off = unat (ctrl_data_len u) - (n - 64)"
    using rest by (simp add: off_def unat_sub word_le_nat_alt)
  have buf: "length (ep0_buffer ?u) = EP0_MAX_PACKET" using assms(1) by (simp add: sending_def)
  have len: "unat (packet_len (packet_len rest)) \<le> length (drop off bs)"
    using off rest assms(2) \<open>n \<le> unat (ctrl_data_len u)\<close> assms(1)
    by (simp add: packet_len_unat sending_def min_def) linarith
  note run = ep0_send_returns [OF buf len]
  have "0 < rest" using rest assms(2) by (simp add: word_less_nat_alt)
  then have "poll_in (deliver Ev_in u) = ep0_send (Some (drop off bs)) (packet_len rest) ?u"
    using assms by (simp add: poll_in_def sending_def rest_def off_def Let_def word_less_nat_alt)
  then show ?thesis
    using ep0_send_armed [OF run buf len] run assms rest
      le_trans [OF diff_le_self \<open>n \<le> unat (ctrl_data_len u)\<close>]
    by (simp add: host_step_in sending_def off packet_len_unat)
qed

lemma in_step_last:
  assumes "sending bs n u" and "0 < n" and "n \<le> 64"
  shows "\<exists>u'. host_step k Ev_in u = Some u' \<and> phase u' = CTRL_IDLE \<and> cls u' = cls u"
proof -
  have n: "unat (ctrl_data_remaining u) = n" using assms(1) by (simp add: sending_def)
  then have "unat (packet_len (ctrl_data_remaining u)) = unat (ctrl_data_remaining u)"
    using assms(3) by (simp add: packet_len_unat)
  then have "packet_len (ctrl_data_remaining u) = ctrl_data_remaining u"
    by (simp only: word_unat_eq_iff)
  then show ?thesis
    using assms n by (simp add: host_step_in poll_in_def sending_def Let_def word_less_nat_alt
      apply_address_def)
qed

lemma read_packets_sending:
  assumes "sending bs n u" and "0 < n"
  shows "\<exists>u'. read_packets k ((n + 63) div 64) u =
      Some (take n (drop (unat (ctrl_data_len u) - n) bs), u') \<and> phase u' = CTRL_IDLE \<and> cls u' = cls u"
  using assms
proof (induction n arbitrary: u rule: less_induct)
  case (less n)
  have armed: "armed_packet u = take (min 64 n) (drop (unat (ctrl_data_len u) - n) bs)"
    and nl: "n \<le> unat (ctrl_data_len u)"
    using less.prems(1) by (simp_all add: sending_def)
  show ?case
  proof (cases "n \<le> 64")
    case True
    with less.prems(2) have one: "(n + 63) div 64 = Suc 0" by (intro div_nat_eqI) simp_all
    obtain u' where u': "host_step k Ev_in u = Some u'" "phase u' = CTRL_IDLE" "cls u' = cls u"
      using in_step_last [OF less.prems True] by blast
    have "read_packets k ((n + 63) div 64) u = Some (armed_packet u @ [], u')"
      unfolding one by (simp only: read_packets.simps u'(1) bind.bind_lunit prod.case)
    moreover have "armed_packet u @ [] = take n (drop (unat (ctrl_data_len u) - n) bs)"
      using armed True by (simp add: min_absorb2)
    ultimately show ?thesis using u'(2,3) by metis
  next
    case False
    then have "n + 63 = (n - 64 + 63) + 64" by simp
    then have count: "(n + 63) div 64 = Suc ((n - 64 + 63) div 64)"
      by (metis div_add_self2 Suc_eq_plus1 zero_neq_numeral)
    from False obtain u1 where u1: "host_step k Ev_in u = Some u1" "sending bs (n - 64) u1"
      "ctrl_data_len u1 = ctrl_data_len u" "cls u1 = cls u"
      using in_step_more [OF less.prems(1), of k] by (meson not_le)
    have small: "n - 64 < n" "0 < n - 64" using False by auto
    from less.IH [OF small(1) u1(2) small(2)] obtain u' where
      rest: "read_packets k ((n - 64 + 63) div 64) u1 =
         Some (take (n - 64) (drop (unat (ctrl_data_len u1) - (n - 64)) bs), u')"
      "phase u' = CTRL_IDLE" "cls u' = cls u1"
      by blast
    have "unat (ctrl_data_len u) - (n - 64) = 64 + (unat (ctrl_data_len u) - n)"
      using False nl by simp
    then have split: "take n (drop (unat (ctrl_data_len u) - n) bs) =
        take 64 (drop (unat (ctrl_data_len u) - n) bs) @
        take (n - 64) (drop (unat (ctrl_data_len u) - (n - 64)) bs)"
      using False take_add [of 64 "n - 64" "drop (unat (ctrl_data_len u) - n) bs"] by simp
    have "read_packets k ((n + 63) div 64) u =
        Some (armed_packet u @ take (n - 64) (drop (unat (ctrl_data_len u) - (n - 64)) bs), u')"
      unfolding count by (simp only: read_packets.simps u1 rest(1) bind.bind_lunit prod.case)
    moreover have "armed_packet u = take 64 (drop (unat (ctrl_data_len u) - n) bs)"
      using armed False by (simp add: min_absorb1)
    ultimately show ?thesis
      unfolding split using rest(2,3) u1(4) by simp
  qed
qed

section \<open>The setup stage\<close>

text \<open>The driver when it routes the request of a SETUP packet.\<close>

definition setup_state :: "usb_setup_packet \<Rightarrow> 'p usb \<Rightarrow> 'p usb" where
  "setup_state r u =
     (let u = wreg (EP_RX_CTRL 0) USBFS_EP_RES_ACK
                (wreg (EP_TX_CTRL 0) USBFS_EP_RES_NAK (deliver (Ev_setup r) u))
      in u\<lparr>ctrl_req_type := bmRequestType r, ctrl_request := bRequest r, ep0_tog := True\<rparr>)"

lemma setup_state_simps [simp]:
  "ctrl_request (setup_state r u) = bRequest r" "cls (setup_state r u) = cls u"
  "usb_dev_addr (setup_state r u) = usb_dev_addr u" "phase (setup_state r u) = phase u"
  "dfu_rx_addr (setup_state r u) = dfu_rx_addr u" "dfu_rx_buffer (setup_state r u) = dfu_rx_buffer u"
  "ep0_tog (setup_state r u) = True"
  by (simp_all add: setup_state_def Let_def)

lemma setup_state_ok: "usb_ok ok u \<Longrightarrow> usb_ok ok (setup_state r u)"
  using deliver_ok [of ok u "Ev_setup r"] by (auto simp: setup_state_def usb_ok_def Let_def)

lemma host_step_setup_eq:
  "host_step k (Ev_setup r) u = do {
     ((d, l), u) \<leftarrow> route_request k r (setup_state r u);
     u \<leftarrow> (if wLength r = 0 then
             if l = 0 then ep0_send None 0 (u\<lparr>phase := CTRL_STATUS\<rparr>) else start_data_in d l u
           else if flag_set (bmRequestType r) USB_DIR_IN then
             start_data_in d (if l > wLength r then wLength r else l) u
           else Some (ep0_recv (u\<lparr>phase := CTRL_DATA_OUT, ctrl_data_remaining := wLength r,
                                  dfu_rx_offset := 0\<rparr>)));
     Some (wreg INT_FG (ucast USBFS_INT_FG_TRANSFER) u) }"
proof -
  have req: "setup_at (ep0_buffer (deliver (Ev_setup r) u)) = r" by simp
  show ?thesis
    unfolding host_step_setup poll_setup_def Let_def wreg_simps req
    by (cases "route_request k r (setup_state r u)")
      (auto simp: setup_state_def Let_def map_conv_bind_option o_def split: prod.splits)
qed

lemma route_standard:
  "bmRequestType r AND 0x60 = 0 \<Longrightarrow> route_request k r u = handle_std_request r u"
  by (simp add: route_request_def)

lemma route_class:
  "bmRequestType r AND 0x60 = 0x20 \<Longrightarrow>
   route_request k r u = (case cls_request k r (cls u) of (a, p) \<Rightarrow> Some (a, u\<lparr>cls := p\<rparr>))"
  by (simp add: route_request_def)

section \<open>A whole control read\<close>

text \<open>
  A device-to-host request whose answer is \<open>bs\<close>: the host reads the first \<open>wLength\<close> bytes of the
  answer, in packets of 64 bytes, and the driver is idle afterwards.
\<close>

lemma control_read:
  assumes u: "usb_ok ok u"
    and dir: "flag_set (bmRequestType r) USB_DIR_IN" and wl: "wLength r \<noteq> 0"
    and route: "route_request k r (setup_state r u) = Some ((Some bs, l), (setup_state r u)\<lparr>cls := p\<rparr>)"
    and l: "unat l = length bs" "bs \<noteq> []"
  defines "n \<equiv> min (length bs) (unat (wLength r))"
  shows "\<exists>u1 u2. host_step k (Ev_setup r) u = Some u1 \<and>
    read_packets k ((n + 63) div 64) u1 = Some (take n bs, u2) \<and> phase u2 = CTRL_IDLE \<and> cls u2 = p"
proof -
  define m where "m = (if l > wLength r then wLength r else l)"
  have m: "unat m = n" using l(1) by (auto simp: m_def n_def word_less_nat_alt min_def)
  let ?u = "(setup_state r u)\<lparr>cls := p\<rparr>"
  have "length (ep0_buffer ?u) = EP0_MAX_PACKET"
    using usb_okD(1) [OF setup_state_ok [OF u]] by simp
  from start_data_in_sending [OF this, of m bs] m obtain u1 where
    run: "start_data_in (Some bs) m ?u = Some u1" and send: "sending bs n u1"
    and u1: "ctrl_data_len u1 = m" "cls u1 = p"
    by (auto simp: n_def)
  let ?u1 = "wreg INT_FG (ucast USBFS_INT_FG_TRANSFER) u1"
  have "host_step k (Ev_setup r) u = Some ?u1"
    using dir wl route run by (simp add: host_step_setup_eq m_def)
  moreover have "sending bs n ?u1" using send by (simp add: sending_def)
  moreover have "0 < n" using l(2) wl by (simp add: n_def unat_gt_0)
  ultimately show ?thesis
    using read_packets_sending [of bs n ?u1 k] u1 m by simp
qed

section \<open>A whole control write\<close>

text \<open>The packets the host cuts its data into.\<close>

function packets :: "u8 list \<Rightarrow> u8 list list" where
  "packets bs = (if length bs \<le> EP0_MAX_PACKET then [bs]
                 else take EP0_MAX_PACKET bs # packets (drop EP0_MAX_PACKET bs))"
  by pat_completeness auto
termination by (relation "measure length") (auto simp: EP0_MAX_PACKET_def)

declare packets.simps [simp del]

text \<open>The bytes \<open>got\<close> are in the receive buffer, \<open>n\<close> are still to come.\<close>

definition receiving :: "u8 list \<Rightarrow> nat \<Rightarrow> 'p usb \<Rightarrow> bool" where
  "receiving got n u \<longleftrightarrow> phase u = CTRL_DATA_OUT \<and> unat (ctrl_data_remaining u) = n \<and>
     unat (dfu_rx_offset u) = length got \<and> take (length got) (dfu_rx_buffer u) = got"

lemma rx_len_out:
  "length bs \<le> EP0_MAX_PACKET \<Longrightarrow> unat (rd_RX_LEN (deliver (Ev_out bs) u)) = length bs"
  by (simp add: EP0_MAX_PACKET_def unat_of_nat take_bit_eq_mod)

text \<open>The state after the bytes of a packet were stored.\<close>

lemma rx_store_receiving:
  assumes u: "usb_ok ok u" and got: "receiving got n u"
    and bs: "length bs \<le> EP0_MAX_PACKET" "length bs \<le> n" and room: "length got + n \<le> DFU_TRANSFER_SIZE"
  shows "\<exists>b. rx_store (deliver (Ev_out bs) u) =
      Some ((deliver (Ev_out bs) u)\<lparr>dfu_rx_buffer := b,
              dfu_rx_offset := of_nat (length got + length bs)\<rparr>) \<and>
    length b = DFU_TRANSFER_SIZE \<and> take (length got + length bs) b = got @ bs"
proof -
  let ?u = "deliver (Ev_out bs) u"
  have ok: "usb_ok ok ?u" using u bs(1) by (intro deliver_ok) simp_all
  note rx = rx_len_out [OF bs(1), of u]
  have off: "unat (dfu_rx_offset ?u) = length got" "take (length got) (dfu_rx_buffer ?u) = got"
    "length (dfu_rx_buffer ?u) = DFU_TRANSFER_SIZE"
    using got u by (simp_all add: receiving_def usb_ok_def)
  have fits: "unat (dfu_rx_offset ?u) + unat (rd_RX_LEN ?u) \<le> DFU_TRANSFER_SIZE"
    using off(1) rx bs(2) room by linarith
  have "unat (dfu_rx_offset ?u + rd_RX_LEN ?u) = length got + length bs"
    using rx_offset_sum [OF fits] off(1) rx by simp
  then have "dfu_rx_offset ?u + rd_RX_LEN ?u = of_nat (length got + length bs)"
    by (metis of_nat_unat ucast_id)
  moreover have "take (unat (rd_RX_LEN ?u)) (ep0_buffer ?u) = bs"
    using rx by simp
  ultimately show ?thesis
    using rx_store_room [OF ok fits] off rx bs(2) room
    by (intro exI [of _ "got @ bs @ drop (length got + length bs) (dfu_rx_buffer ?u)"]) simp
qed

lemma out_step_more:
  assumes u: "usb_ok ok u" and got: "receiving got n u"
    and bs: "length bs = EP0_MAX_PACKET" "length bs < n" and room: "length got + n \<le> DFU_TRANSFER_SIZE"
  shows "\<exists>u'. host_step k (Ev_out bs) u = Some u' \<and> usb_ok ok u' \<and>
    receiving (got @ bs) (n - length bs) u' \<and> cls u' = cls u \<and>
    ctrl_request u' = ctrl_request u \<and> dfu_rx_addr u' = dfu_rx_addr u"
proof -
  from rx_store_receiving [OF u got _ _ room, of bs] bs obtain b where
    store: "rx_store (deliver (Ev_out bs) u) =
      Some ((deliver (Ev_out bs) u)\<lparr>dfu_rx_buffer := b,
              dfu_rx_offset := of_nat (length got + length bs)\<rparr>)"
    and b: "length b = DFU_TRANSFER_SIZE" "take (length got + length bs) b = got @ bs"
    by auto
  have ph: "phase u = CTRL_DATA_OUT" and rem: "unat (ctrl_data_remaining u) = n"
    using got by (simp_all add: receiving_def)
  have rx: "unat (of_nat (length bs) :: u16) = length bs"
    using bs(1) by (simp add: EP0_MAX_PACKET_def unat_of_nat take_bit_eq_mod)
  have rest: "unat (ctrl_data_remaining u - of_nat (length bs)) = n - length bs"
    using rx rem bs(2) by (simp add: unat_sub word_le_nat_alt)
  then have more: "ctrl_data_remaining u - of_nat (length bs) \<noteq> 0" using bs(2) by auto
  have off: "unat (of_nat (length got + length bs) :: u16) = length got + length bs"
    using bs(2) room by (simp add: DFU_TRANSFER_SIZE_def unat_of_nat take_bit_eq_mod del: of_nat_add)
  have "host_step k (Ev_out bs) u = Some (wreg INT_FG (ucast USBFS_INT_FG_TRANSFER) (ep0_recv
      ((deliver (Ev_out bs) u)\<lparr>dfu_rx_buffer := b, dfu_rx_offset := of_nat (length got + length bs),
        ctrl_data_remaining := ctrl_data_remaining u - of_nat (length bs)\<rparr>)))"
    using store more bs(1)
    by (simp add: host_step_out [OF ph] poll_out_def Let_def del: of_nat_add)
  moreover have "usb_ok ok (deliver (Ev_out bs) u)" using u bs(1) by (intro deliver_ok) simp_all
  ultimately show ?thesis
    using b rest off bs(2) room ph
    by (simp add: ep0_recv_def receiving_def usb_ok_def del: of_nat_add)
qed

context class_driver
begin

lemma out_step_last:
  assumes u: "usb_ok ok u" and got: "receiving got n u" and dn: "ctrl_request u = DFU_DNLOAD"
    and bs: "length bs = n" "n \<le> EP0_MAX_PACKET" and room: "length got + n \<le> DFU_TRANSFER_SIZE"
  shows "\<exists>u' b. host_step k (Ev_out bs) u = Some u' \<and> phase u' = CTRL_IDLE \<and>
    length b = DFU_TRANSFER_SIZE \<and> take (length got + n) b = got @ bs \<and>
    cls_data k \<lparr>cp_addr = dfu_rx_addr u, cp_bytes = b\<rparr> (of_nat (length got + n)) (cls u) = Some (cls u')"
proof -
  from rx_store_receiving [OF u got _ _ room, of bs] bs obtain b where
    store: "rx_store (deliver (Ev_out bs) u) =
      Some ((deliver (Ev_out bs) u)\<lparr>dfu_rx_buffer := b, dfu_rx_offset := of_nat (length got + n)\<rparr>)"
    and b: "length b = DFU_TRANSFER_SIZE" "take (length got + n) b = got @ bs"
    by (auto simp del: of_nat_add)
  have ph: "phase u = CTRL_DATA_OUT" and rem: "ctrl_data_remaining u = of_nat n"
    using got by (auto simp: receiving_def)
  let ?c = "\<lparr>cp_addr = dfu_rx_addr u, cp_bytes = b\<rparr>"
  have "unat (of_nat (length got + n) :: u16) \<le> DFU_TRANSFER_SIZE"
    using room by (simp add: DFU_TRANSFER_SIZE_def unat_of_nat take_bit_eq_mod del: of_nat_add)
  then obtain p where p: "cls_data k ?c (of_nat (length got + n)) (cls u) = Some p"
    using data_ok [of "cls u" ?c] b(1) usb_okD(5) [OF u] by auto
  then have "host_step k (Ev_out bs) u =
      map_option (wreg INT_FG (ucast USBFS_INT_FG_TRANSFER)) (ep0_send None 0
       ((deliver (Ev_out bs) u)\<lparr>dfu_rx_buffer := b, dfu_rx_offset := of_nat (length got + n),
        ctrl_data_remaining := 0, cls := p, phase := CTRL_IDLE\<rparr>))"
    using store bs(1) rem dn
    by (simp add: host_step_out [OF ph] poll_out_def Let_def rx_complete_eq del: of_nat_add)
  then show ?thesis using b p by (auto simp: ep0_send_None simp del: of_nat_add)
qed

lemma host_steps_receiving:
  assumes "usb_ok ok u" and "receiving got (length bs) u" and "ctrl_request u = DFU_DNLOAD"
    and "length got + length bs \<le> DFU_TRANSFER_SIZE"
  shows "\<exists>u' b. host_steps k (map Ev_out (packets bs)) u = Some u' \<and> phase u' = CTRL_IDLE \<and>
    length b = DFU_TRANSFER_SIZE \<and> take (length got + length bs) b = got @ bs \<and>
    cls_data k \<lparr>cp_addr = dfu_rx_addr u, cp_bytes = b\<rparr> (of_nat (length got + length bs)) (cls u) =
      Some (cls u')"
  using assms
proof (induction bs arbitrary: got u rule: packets.induct)
  case (1 bs)
  show ?case
  proof (cases "length bs \<le> EP0_MAX_PACKET")
    case True
    then have one: "packets bs = [bs]" by (subst packets.simps) simp
    from out_step_last [OF 1(2,3,4) refl True 1(5)] show ?thesis
      unfolding one by force
  next
    case False
    let ?p = "take EP0_MAX_PACKET bs" and ?r = "drop EP0_MAX_PACKET bs"
    have more: "packets bs = ?p # packets ?r" using False by (subst packets.simps) simp
    have p: "length ?p = EP0_MAX_PACKET" "length ?p < length bs" using False by simp_all
    from out_step_more [OF 1(2,3) p 1(5)] obtain u1 where
      u1: "host_step k (Ev_out ?p) u = Some u1" "usb_ok ok u1"
        "receiving (got @ ?p) (length bs - length ?p) u1" "cls u1 = cls u"
        "ctrl_request u1 = ctrl_request u" "dfu_rx_addr u1 = dfu_rx_addr u" by blast
    have len: "length ?r = length bs - length ?p" "length (got @ ?p) + length ?r = length got + length bs"
      using p by simp_all
    have "ctrl_request u1 = DFU_DNLOAD" using u1(5) 1(4) by simp
    from 1(1) [OF False u1(2) u1(3) [folded len(1)] this] 1(5)
    show ?thesis
      unfolding more using u1 by (simp only: len(2)) (simp del: of_nat_add)
  qed
qed

text \<open>
  The whole download request: the class driver sees the request and then, once, the bytes of the
  data stage at the beginning of the receive buffer.
\<close>

lemma data_stage_handled:
  assumes u: "usb_ok ok u"
    and r: "\<not> flag_set (bmRequestType r) USB_DIR_IN" "bRequest r = DFU_DNLOAD"
      "unat (wLength r) = length bs"
    and bs: "bs \<noteq> []" "length bs \<le> DFU_TRANSFER_SIZE"
    and route: "route_request k r (setup_state r u) = Some (a, (setup_state r u)\<lparr>cls := p\<rparr>)" and p: "ok p"
  shows "\<exists>u' b. host_steps k (Ev_setup r # map Ev_out (packets bs)) u = Some u' \<and>
    phase u' = CTRL_IDLE \<and> length b = DFU_TRANSFER_SIZE \<and> take (length bs) b = bs \<and>
    cls_data k \<lparr>cp_addr = dfu_rx_addr u, cp_bytes = b\<rparr> (wLength r) p = Some (cls u')"
proof -
  obtain d l where a: "a = (d, l)" by (cases a)
  define u1 where "u1 = wreg INT_FG (ucast USBFS_INT_FG_TRANSFER) (ep0_recv
    ((setup_state r u)\<lparr>cls := p, phase := CTRL_DATA_OUT, ctrl_data_remaining := wLength r,
       dfu_rx_offset := 0\<rparr>))"
  have "wLength r \<noteq> 0" using r(3) bs(1) by auto
  then have start: "host_step k (Ev_setup r) u = Some u1"
    using r(1) route a by (simp add: host_step_setup_eq u1_def)
  have "usb_ok ok u1"
    using setup_state_ok [OF u] p by (simp add: usb_ok_def u1_def ep0_recv_def)
  moreover have "receiving [] (length bs) u1"
    using r(3) by (simp add: receiving_def u1_def ep0_recv_def)
  moreover have "ctrl_request u1 = DFU_DNLOAD" using r(2) by (simp add: u1_def ep0_recv_def)
  ultimately have "\<exists>u' b. host_steps k (map Ev_out (packets bs)) u1 = Some u' \<and> phase u' = CTRL_IDLE \<and>
    length b = DFU_TRANSFER_SIZE \<and> take (length [] + length bs) b = [] @ bs \<and>
    cls_data k \<lparr>cp_addr = dfu_rx_addr u1, cp_bytes = b\<rparr> (of_nat (length [] + length bs)) (cls u1) =
      Some (cls u')"
    using host_steps_receiving [of u1 "[]" bs] bs(2) by simp
  moreover have "cls u1 = p" "dfu_rx_addr u1 = dfu_rx_addr u" by (simp_all add: u1_def ep0_recv_def)
  moreover have "of_nat (length bs) = wLength r" using r(3) by (metis of_nat_unat ucast_id)
  ultimately show ?thesis using start by simp
qed

lemma control_write:
  assumes u: "usb_ok ok u"
    and r: "bmRequestType r AND 0x60 = 0x20" "\<not> flag_set (bmRequestType r) USB_DIR_IN"
      "bRequest r = DFU_DNLOAD" "unat (wLength r) = length bs"
    and bs: "bs \<noteq> []" "length bs \<le> DFU_TRANSFER_SIZE"
    and req: "cls_request k r (cls u) = (a, p)"
  shows "\<exists>u' b. host_steps k (Ev_setup r # map Ev_out (packets bs)) u = Some u' \<and>
    phase u' = CTRL_IDLE \<and> length b = DFU_TRANSFER_SIZE \<and> take (length bs) b = bs \<and>
    cls_data k \<lparr>cp_addr = dfu_rx_addr u, cp_bytes = b\<rparr> (wLength r) p = Some (cls u')"
proof (rule data_stage_handled [OF u r(2,3,4) bs])
  show "route_request k r (setup_state r u) = Some (a, (setup_state r u)\<lparr>cls := p\<rparr>)"
    using req by (simp add: route_class [OF r(1)])
  show "ok p" using request_ok [OF usb_okD(5) [OF u] req] ..
qed

end

section \<open>The device address\<close>

text \<open>The values written to \<open>DEV_ADDR\<close> so far.\<close>

definition addr_writes :: "'p usb \<Rightarrow> u32 list" where
  "addr_writes u = map snd (filter (\<lambda>w. fst w = DEV_ADDR) (wlog u))"

lemma addr_writes_wreg [simp]:
  "addr_writes (wreg r v u) = addr_writes u @ (if r = DEV_ADDR then [v] else [])"
  by (simp add: addr_writes_def)

lemma addr_writes_cong: "wlog u = wlog u' \<Longrightarrow> addr_writes u = addr_writes u'"
  by (simp add: addr_writes_def)

text \<open>A SETUP packet and OUT data never change the address.\<close>

lemma ep0_send_addr:
  assumes "ep0_send d l u = Some u'"
  shows "addr_writes u' = addr_writes u" "ctrl_request u' = ctrl_request u"
    "usb_dev_addr u' = usb_dev_addr u" "cls u' = cls u" "phase u' = phase u"
  using assms by (auto simp: ep0_send_def addr_writes_def Let_def elim!: bind_SomeE
    split: option.split_asm if_split_asm)

lemma start_data_in_addr:
  assumes "start_data_in d l u = Some u'"
  shows "addr_writes u' = addr_writes u" "ctrl_request u' = ctrl_request u"
    "usb_dev_addr u' = usb_dev_addr u" "cls u' = cls u" "phase u' = CTRL_DATA_IN"
  using ep0_send_addr [OF assms [unfolded start_data_in_def]] by (simp_all add: addr_writes_def)

lemma route_request_frame:
  assumes "route_request k r u = Some (a, u')"
  shows "wlog u' = wlog u" "ctrl_request u' = ctrl_request u" "phase u' = phase u"
  using assms by (auto simp: route_request_def handle_std_request_def Let_def
    split: if_split_asm prod.split_asm)

lemma poll_setup_addr:
  assumes "poll_setup k u = Some u'" shows "addr_writes u' = addr_writes u"
  using assms
  by (auto simp: poll_setup_def Let_def ep0_recv_def addr_writes_def elim!: bind_SomeE
    dest!: ep0_send_addr(1) start_data_in_addr(1) route_request_frame(1)
    split: prod.split_asm if_split_asm)

lemma rx_store_addr:
  assumes "rx_store u = Some u'" shows "addr_writes u' = addr_writes u"
  using assms by (auto simp: rx_store_def addr_writes_def elim!: bind_SomeE split: if_split_asm)

lemma rx_complete_addr:
  assumes "rx_complete k u = Some u'" shows "addr_writes u' = addr_writes u"
  using assms by (auto simp: rx_complete_def addr_writes_def Let_def elim!: bind_SomeE
    dest!: ep0_send_addr(1) split: if_split_asm)

lemma poll_out_addr:
  assumes "poll_out k u = Some u'" shows "addr_writes u' = addr_writes u"
proof -
  from assms obtain u1 where u1: "rx_store u = Some u1"
    and rest: "rx_complete k (u1\<lparr>ctrl_data_remaining := ctrl_data_remaining u1 - rd_RX_LEN u\<rparr>) = Some u' \<or>
      u' = ep0_recv (u1\<lparr>ctrl_data_remaining := ctrl_data_remaining u1 - rd_RX_LEN u\<rparr>)"
    by (auto simp: poll_out_def Let_def elim!: bind_SomeE split: if_split_asm)
  have "addr_writes (u1\<lparr>ctrl_data_remaining := n\<rparr>) = addr_writes u1" for n
    by (simp add: addr_writes_def)
  with rest rx_store_addr [OF u1] show ?thesis
    by (auto dest!: rx_complete_addr simp: ep0_recv_def)
qed

lemma poll_in_addr:
  assumes "poll_in u = Some u'"
  shows "addr_writes u' = addr_writes u \<or>
    (ctrl_request u = USB_REQ_SET_ADDRESS \<and> phase u \<noteq> CTRL_IDLE \<and> phase u' = CTRL_IDLE \<and>
     addr_writes u' = addr_writes u @ [ucast (usb_dev_addr u)])"
  using assms
  by (auto simp: poll_in_def Let_def apply_address_def addr_writes_def elim!: bind_SomeE
    dest!: ep0_send_addr(1) split: if_split_asm)

lemma host_step_addr:
  assumes "host_step k ev u = Some u'"
  shows "addr_writes u' = addr_writes u \<or>
    (ev = Ev_reset \<and> addr_writes u' = addr_writes u @ [0]) \<or>
    (ev = Ev_in \<and> ctrl_request u = USB_REQ_SET_ADDRESS \<and> phase u \<noteq> CTRL_IDLE \<and>
     phase u' = CTRL_IDLE \<and> addr_writes u' = addr_writes u @ [ucast (usb_dev_addr u)])"
proof -
  have same: "addr_writes (deliver ev u) = addr_writes u" "phase (deliver ev u) = phase u"
    "ctrl_request (deliver ev u) = ctrl_request u" "usb_dev_addr (deliver ev u) = usb_dev_addr u"
    by (cases ev; simp add: addr_writes_def)+
  show ?thesis
  proof (cases ev)
    case (Ev_setup r)
    with assms same show ?thesis by (auto simp: host_step_setup dest: poll_setup_addr)
  next
    case Ev_in
    with assms same show ?thesis by (auto simp: host_step_in dest!: poll_in_addr)
  next
    case (Ev_out bs)
    show ?thesis
    proof (cases "phase u = CTRL_DATA_OUT")
      case True
      with Ev_out assms same show ?thesis by (auto simp: host_step_out dest: poll_out_addr)
    next
      case False
      with Ev_out assms same show ?thesis
        by (auto simp: host_step_def do_usb_poll_def poll_transfer_def)
    qed
  next
    case Ev_reset
    with assms show ?thesis
      by (auto simp: host_step_def do_usb_poll_def poll_bus_reset_def usb_bit_defs addr_writes_def
        Let_def)
  next
    case Ev_suspend
    with assms show ?thesis
      by (auto simp: host_step_def do_usb_poll_def usb_bit_defs addr_writes_def)
  next
    case Ev_none
    with assms show ?thesis
      by (auto simp: host_step_def do_usb_poll_def addr_writes_def)
  qed
qed

text \<open>SET_ADDRESS: an empty status packet is armed; the address changes when it was fetched.\<close>

lemma set_address_steps:
  assumes r: "bmRequestType r AND 0x60 = 0" "bRequest r = USB_REQ_SET_ADDRESS" "wLength r = 0"
  shows "\<exists>u1 u2. host_step k (Ev_setup r) u = Some u1 \<and> armed_packet u1 = [] \<and>
    addr_writes u1 = addr_writes u \<and> host_step k Ev_in u1 = Some u2 \<and> phase u2 = CTRL_IDLE \<and>
    addr_writes u2 = addr_writes u @ [ucast (ucast (wValue r AND 0x7F) :: u8)]"
proof -
  define u1 where "u1 = wreg INT_FG (ucast USBFS_INT_FG_TRANSFER) (wreg (EP_TX_CTRL 0) USBFS_EP_TOG
    (wreg (EP_TX_LEN 0) 0 ((setup_state r u)\<lparr>usb_dev_addr := ucast (wValue r AND 0x7F),
       phase := CTRL_STATUS, ep0_tog := False\<rparr>)))"
  have "host_step k (Ev_setup r) u = Some u1"
    using r by (simp add: host_step_setup_eq route_standard handle_std_request_def ep0_send_None
      u1_def wreg_def)
  moreover have "filter (\<lambda>w. fst w = DEV_ADDR) (wlog (setup_state r u)) =
      filter (\<lambda>w. fst w = DEV_ADDR) (wlog u)"
    by (simp add: setup_state_def Let_def)
  moreover have "armed_packet u1 = []"
    by (simp add: u1_def armed_packet_def last_write_def)
  ultimately show ?thesis
    using r(2) by (simp add: u1_def host_step_in poll_in_def apply_address_def addr_writes_def)
qed

section \<open>The class driver sees only its two operations\<close>

lemma route_request_cls:
  "route_request k r u = Some (a, u') \<Longrightarrow>
   cls u' = cls u \<or> (\<exists>a. cls_request k r (cls u) = (a, cls u'))"
  by (auto simp: route_request_def handle_std_request_def Let_def split: if_split_asm prod.split_asm)

lemma poll_setup_cls:
  assumes "poll_setup k u = Some u'"
  shows "cls u' = cls u \<or> (\<exists>r a. cls_request k r (cls u) = (a, cls u'))"
proof -
  define r where "r = setup_at (ep0_buffer u)"
  from assms obtain a u1 where "route_request k r ((wreg (EP_RX_CTRL 0) USBFS_EP_RES_ACK
      (wreg (EP_TX_CTRL 0) USBFS_EP_RES_NAK u))\<lparr>ctrl_req_type := bmRequestType r,
        ctrl_request := bRequest r, ep0_tog := True\<rparr>) = Some (a, u1)" and "cls u' = cls u1"
    by (auto simp: poll_setup_def Let_def r_def ep0_recv_def elim!: bind_SomeE
      dest!: ep0_send_addr(4) start_data_in_addr(4) split: prod.split_asm if_split_asm)
  from route_request_cls [OF this(1)] this(2) show ?thesis by auto
qed

lemma poll_out_cls:
  assumes "poll_out k u = Some u'"
  shows "cls u' = cls u \<or> (\<exists>c len. cls_data k c len (cls u) = Some (cls u'))"
proof -
  from assms obtain u1 where "rx_store u = Some u1"
    and rest: "rx_complete k (u1\<lparr>ctrl_data_remaining := ctrl_data_remaining u1 - rd_RX_LEN u\<rparr>) = Some u' \<or>
      u' = ep0_recv (u1\<lparr>ctrl_data_remaining := ctrl_data_remaining u1 - rd_RX_LEN u\<rparr>)"
    by (auto simp: poll_out_def Let_def elim!: bind_SomeE split: if_split_asm)
  then have "cls u1 = cls u"
    by (auto simp: rx_store_def elim!: bind_SomeE split: if_split_asm)
  with rest show ?thesis
    by (auto simp: ep0_recv_def rx_complete_def Let_def elim!: bind_SomeE
      dest!: ep0_send_addr(4) split: if_split_asm)
qed

lemma poll_in_cls: "poll_in u = Some u' \<Longrightarrow> cls u' = cls u"
  by (auto simp: poll_in_def Let_def apply_address_def elim!: bind_SomeE
    dest!: ep0_send_addr(4) split: if_split_asm)

lemma deliver_cls [simp]: "cls (deliver ev u) = cls u"
  by (cases ev) simp_all

lemma poll_transfer_cls:
  assumes "poll_transfer k u = Some u'"
  shows "cls u' = cls u \<or> (\<exists>r a. cls_request k r (cls u) = (a, cls u')) \<or>
    (\<exists>c len. cls_data k c len (cls u) = Some (cls u'))"
proof -
  have "poll_setup k u = Some u' \<or> poll_in u = Some u' \<or> poll_out k u = Some u' \<or> u' = u"
    using assms by (simp add: poll_transfer_def Let_def split: if_split_asm)
  then show ?thesis
    using poll_setup_cls [of k u u'] poll_in_cls [of u u'] poll_out_cls [of k u u'] by blast
qed

lemma do_usb_poll_cls:
  assumes "do_usb_poll k u = Some u'"
  shows "cls u' = cls u \<or> (\<exists>r a. cls_request k r (cls u) = (a, cls u')) \<or>
    (\<exists>c len. cls_data k c len (cls u) = Some (cls u'))"
proof -
  have "cls (poll_bus_reset u) = cls u" by (simp add: poll_bus_reset_def Let_def)
  then have "cls u' = cls u \<or> (\<exists>u1. poll_transfer k u = Some u1 \<and> cls u' = cls u1)"
    using assms by (cases "poll_transfer k u") (auto simp: do_usb_poll_def Let_def split: if_split_asm)
  then show ?thesis
    using poll_transfer_cls [of k u] by metis
qed

text \<open>The request handler is called for SETUP packets of class requests only.\<close>

lemma host_step_cls:
  assumes "host_step k ev u = Some u'"
  shows "cls u' = cls u \<or>
    (\<exists>r a. ev = Ev_setup r \<and> bmRequestType r AND 0x60 = 0x20 \<and> cls_request k r (cls u) = (a, cls u')) \<or>
    (\<exists>c len. cls_data k c len (cls u) = Some (cls u'))"
proof (cases "\<exists>r. ev = Ev_setup r")
  case True
  then obtain r where ev: "ev = Ev_setup r" by blast
  from assms ev obtain u1 where "poll_setup k (deliver ev u) = Some u1" "cls u' = cls u1"
    by (auto simp: host_step_setup)
  then obtain a u2 where "route_request k r (setup_state r u) = Some (a, u2)" "cls u' = cls u2"
    using ev by (auto simp: poll_setup_def Let_def setup_state_def ep0_recv_def elim!: bind_SomeE
      dest!: ep0_send_addr(4) start_data_in_addr(4) split: prod.split_asm if_split_asm)
  then have "cls u' = cls u \<or>
      bmRequestType r AND 0x60 = 0x20 \<and> (\<exists>a. cls_request k r (cls u) = (a, cls u'))"
    by (auto simp: route_request_def handle_std_request_def Let_def split: if_split_asm prod.split_asm)
  with ev show ?thesis by blast
next
  case False
  have "cls (poll_bus_reset u) = cls u" for u :: "'a usb" by (simp add: poll_bus_reset_def Let_def)
  moreover have "USBFS_INT_FG_BUS_RST AND USBFS_INT_FG_TRANSFER = 0"
    "USBFS_INT_FG_SUSPEND AND USBFS_INT_FG_TRANSFER = 0" by (simp_all add: usb_bit_defs)
  ultimately consider "cls u' = cls u"
    | u1 where "poll_out k (deliver ev u) = Some u1" "cls u' = cls u1"
    using False assms
    by (cases ev) (auto simp: host_step_in host_step_def do_usb_poll_def poll_transfer_def Let_def
      dest!: poll_in_cls elim!: bind_SomeE split: if_split_asm)
  then show ?thesis
  proof cases
    case 2
    from poll_out_cls [OF 2(1)] 2(2) show ?thesis by auto
  qed blast
qed

text \<open>So what both operations of the class driver keep, every event on the bus keeps.\<close>

lemma usb_reach_cls:
  assumes "usb_reach k u0 u" and "P (cls u0)"
    and "\<And>r p a p'. P p \<Longrightarrow> cls_request k r p = (a, p') \<Longrightarrow> P p'"
    and "\<And>c len p p'. P p \<Longrightarrow> cls_data k c len p = Some p' \<Longrightarrow> P p'"
  shows "P (cls u)"
  using assms(1)
proof induction
  case reach_init
  show ?case by (rule assms(2))
next
  case (reach_step u ev u')
  from do_usb_poll_cls [OF reach_step.hyps(3) [unfolded host_step_def]]
  show ?case unfolding deliver_cls using reach_step.IH assms(3,4) by metis
qed

text \<open>Initialisation keeps the driver's invariant.\<close>

lemma init_endpoints_ok: "usb_ok ok u \<Longrightarrow> usb_ok ok (init_endpoints n u)"
  by (induction n arbitrary: u) (simp_all add: Let_def)

lemma init_endpoints_cls [simp]: "cls (init_endpoints n u) = cls u"
  by (induction n arbitrary: u) (simp_all add: Let_def)

lemma usb_init_ok:
  assumes "usb_ok ok u" and "delay 30 (x, cls u) = Some (y, p)" and "ok p"
  shows "\<exists>u'. usb_init delay (x, u) = Some (y, u') \<and> usb_ok ok u' \<and> cls u' = p"
proof -
  have p: "usb_ok ok (u\<lparr>cls := p\<rparr>)" using assms(1,3) by (simp add: usb_ok_def)
  have idle: "usb_ok ok u \<Longrightarrow> usb_ok ok (u\<lparr>phase := CTRL_IDLE, ep0_tog := t, usb_dev_addr := a\<rparr>)"
    for u :: "'a usb" and t a by (simp add: usb_ok_def)
  have "usb_ok ok ((wreg r v u)\<lparr>cls := p\<rparr>)" for r v
    using p by (simp add: usb_ok_def)
  then show ?thesis
    using assms(2) by (simp add: usb_init_def Let_def idle init_endpoints_ok)
qed

end
