(* ===== verification/Flash.thy ===== *)
theory Flash
  imports Gpio
begin

text \<open>
  The flash controller driver of \<^verbatim>\<open>src_stage2/flash.h\<close>: unlocking, page and block erase, fast
  programming, erased-page detection and verification. The controller (FMC) is hardware: every
  register access goes over the bus, and a busy flag that is polled in a loop may never clear, so
  the operations return \<open>None\<close> when the loop does not end.
\<close>

section \<open>Registers\<close>

definition FMC_BASE :: u32 where "FMC_BASE = 0x40022000"
definition FMC_WS :: u32 where "FMC_WS = FMC_BASE"
definition FMC_KEY :: u32 where "FMC_KEY = FMC_BASE + 0x04"
definition FMC_STAT :: u32 where "FMC_STAT = FMC_BASE + 0x0C"
definition FMC_CTL :: u32 where "FMC_CTL = FMC_BASE + 0x10"
definition FMC_ADDR :: u32 where "FMC_ADDR = FMC_BASE + 0x14"
definition FMC_CHF9 :: u32 where "FMC_CHF9 = FMC_BASE + 4 * 9"

definition FMC_STAT_BUSY :: u32 where "FMC_STAT_BUSY = push_bit 0 1"
definition FMC_STAT_WR_BUSY :: u32 where "FMC_STAT_WR_BUSY = push_bit 1 1"
definition FMC_STAT_PG_ERR :: u32 where "FMC_STAT_PG_ERR = push_bit 3 1"
definition FMC_STAT_WP_ERR :: u32 where "FMC_STAT_WP_ERR = push_bit 4 1"
definition FMC_STAT_WP_ENDF :: u32 where "FMC_STAT_WP_ENDF = push_bit 5 1"

definition FMC_CTL_PG :: u32 where "FMC_CTL_PG = push_bit 0 1"
definition FMC_CTL_START :: u32 where "FMC_CTL_START = push_bit 6 1"
definition FMC_CTL_LK :: u32 where "FMC_CTL_LK = push_bit 7 1"
definition FMC_CTL_FASTUNLOCK :: u32 where "FMC_CTL_FASTUNLOCK = push_bit 15 1"
definition FMC_CTL_FASTPROGRAM :: u32 where "FMC_CTL_FASTPROGRAM = push_bit 16 1"
definition FMC_CTL_FASTERASE :: u32 where "FMC_CTL_FASTERASE = push_bit 17 1"
definition FMC_CTL_BER32 :: u32 where "FMC_CTL_BER32 = push_bit 18 1"
definition FMC_CTL_FASTSTART :: u32 where "FMC_CTL_FASTSTART = push_bit 21 1"

definition FLASH_SECTOR_SIZE :: nat where "FLASH_SECTOR_SIZE = 256"

text \<open>The flash array is programmed and read through its alias at \<open>0x08000000\<close>.\<close>

definition FLASH_ALIAS :: u32 where "FLASH_ALIAS = 0x08000000"

text \<open>What the fast erase leaves in every word of a page.\<close>

definition ERASED :: u32 where "ERASED = 0xE339E339"

section \<open>Busy-wait loops, locking, interrupt masking\<close>

partial_function (option) fmc_wait_busy :: "'h bus \<Rightarrow> 'h mach \<Rightarrow> 'h mach option" where
  "fmc_wait_busy io m =
     (case rd32 io FMC_STAT m of (v, m1) \<Rightarrow>
        if flag_set v FMC_STAT_BUSY then fmc_wait_busy io m1 else Some m1)"

partial_function (option) fmc_wait_wr_busy :: "'h bus \<Rightarrow> 'h mach \<Rightarrow> 'h mach option" where
  "fmc_wait_wr_busy io m =
     (case rd32 io FMC_STAT m of (v, m1) \<Rightarrow>
        if flag_set v FMC_STAT_WR_BUSY then fmc_wait_wr_busy io m1 else Some m1)"

definition fmc_fast_unlock :: "'h bus \<Rightarrow> 'h mach \<Rightarrow> 'h mach" where
  "fmc_fast_unlock io m =
     (let (c, m) = rd32 io FMC_CTL m;
          m = (if flag_set c FMC_CTL_LK
               then wr32 io FMC_KEY 0xCDEF89AB (wr32 io FMC_KEY 0x45670123 m) else m);
          (c, m) = rd32 io FMC_CTL m
      in if flag_set c FMC_CTL_FASTUNLOCK
         then wr32 io FMC_CHF9 0xCDEF89AB (wr32 io FMC_CHF9 0x45670123 m) else m)"

definition fmc_lock :: "'h bus \<Rightarrow> 'h mach \<Rightarrow> 'h mach" where
  "fmc_lock io m = or32 io FMC_CTL FMC_CTL_LK m"

text \<open>
  \<open>AutoNoInterrupt noInt;\<close>: the constructor clears \<open>mstatus.MIE\<close>, and the destructor sets it on
  every way out of the block.
\<close>

definition AutoNoInterrupt ::
  "('h mach \<Rightarrow> ('a \<times> 'h mach) option) \<Rightarrow> 'h mach \<Rightarrow> ('a \<times> 'h mach) option" where
  "AutoNoInterrupt body m = do {
     (r, m1) \<leftarrow> body (csrc MSTATUS MIE_BIT m);
     Some (r, csrs MSTATUS MIE_BIT m1) }"

section \<open>Erase\<close>

text \<open>The 64 words of a page, read one after the other until one differs.\<close>

definition page_words_erased :: "'h bus \<Rightarrow> 'h mach \<Rightarrow> u32 \<Rightarrow> bool" where
  "page_words_erased io m p \<longleftrightarrow> list_all (\<lambda>i. flash32 io m (p + 4 * of_nat i) = ERASED) [0..<64]"

definition fmc_erase_page :: "'h bus \<Rightarrow> u32 \<Rightarrow> 'h mach \<Rightarrow> (bool \<times> 'h mach) option" where
  "fmc_erase_page io addr =
     (let fmc_addr = addr OR FLASH_ALIAS in
      AutoNoInterrupt (\<lambda>m. do {
        let m = fmc_fast_unlock io m;
        let m = or32 io FMC_CTL FMC_CTL_FASTERASE m;
        let m = wr32 io FMC_ADDR fmc_addr m;
        let m = or32 io FMC_CTL FMC_CTL_START m;
        m \<leftarrow> fmc_wait_busy io m;
        let (stat, m) = rd32 io FMC_STAT m;
        let m = wr32 io FMC_STAT FMC_STAT_WP_ENDF m;
        let m = and32 io FMC_CTL (NOT FMC_CTL_FASTERASE) m;
        let m = and32 io FMC_CTL (NOT FMC_CTL_START) m;
        if flag_set stat (FMC_STAT_PG_ERR OR FMC_STAT_WP_ERR)
        then Some (False, wr32 io FMC_STAT (FMC_STAT_PG_ERR OR FMC_STAT_WP_ERR) m)
        else if \<not> flag_set stat FMC_STAT_WP_ENDF then Some (False, m)
        else Some (page_words_erased io m fmc_addr, m) }))"

definition fmc_erase_32k :: "'h bus \<Rightarrow> u32 \<Rightarrow> 'h mach \<Rightarrow> (bool \<times> 'h mach) option" where
  "fmc_erase_32k io addr =
     (let fmc_addr = addr OR FLASH_ALIAS in
      AutoNoInterrupt (\<lambda>m. do {
        let m = fmc_fast_unlock io m;
        let m = or32 io FMC_CTL FMC_CTL_BER32 m;
        let m = wr32 io FMC_ADDR fmc_addr m;
        let m = or32 io FMC_CTL FMC_CTL_START m;
        m \<leftarrow> fmc_wait_busy io m;
        let (stat, m) = rd32 io FMC_STAT m;
        let m = wr32 io FMC_STAT FMC_STAT_WP_ENDF m;
        let m = and32 io FMC_CTL (NOT FMC_CTL_BER32) m;
        let m = and32 io FMC_CTL (NOT FMC_CTL_START) m;
        if flag_set stat (FMC_STAT_PG_ERR OR FMC_STAT_WP_ERR)
        then Some (False, wr32 io FMC_STAT (FMC_STAT_PG_ERR OR FMC_STAT_WP_ERR) m)
        else if \<not> flag_set stat FMC_STAT_WP_ENDF then Some (False, m)
        else Some (True, m) }))"

text \<open>The loop \<open>for (i = 0; i < sizeInKBytes * 4; i++)\<close>, counted down.\<close>

fun erase_pages :: "'h bus \<Rightarrow> nat \<Rightarrow> u32 \<Rightarrow> 'h mach \<Rightarrow> (bool \<times> 'h mach) option" where
  "erase_pages io 0 a m = Some (True, m)"
| "erase_pages io (Suc n) a m = do {
     (ok, m) \<leftarrow> fmc_erase_page io a m;
     if \<not> ok then Some (False, m) else erase_pages io n (a + 256) m }"

definition fmc_erase_range :: "'h bus \<Rightarrow> u32 \<Rightarrow> int \<Rightarrow> 'h mach \<Rightarrow> (bool \<times> 'h mach) option" where
  "fmc_erase_range io startAddress sizeInKBytes m =
     erase_pages io (nat (sizeInKBytes * 4)) startAddress m"

definition fmc_page_is_erased :: "'h bus \<Rightarrow> u32 \<Rightarrow> 'h mach \<Rightarrow> bool" where
  "fmc_page_is_erased io addr m \<longleftrightarrow> page_words_erased io m (addr OR FLASH_ALIAS)"

section \<open>Program and verify\<close>

text \<open>
  The write cache is filled word by word. The two loops differ in how they read the source: 32-bit
  loads where the pointer is aligned, four byte loads otherwise.
\<close>

fun fill_aligned :: "'h bus \<Rightarrow> nat \<Rightarrow> u32 \<Rightarrow> cptr \<Rightarrow> 'h mach \<Rightarrow> 'h mach option" where
  "fill_aligned io 0 prog rd m = Some m"
| "fill_aligned io (Suc n) prog rd m = do {
     w \<leftarrow> cp_rd32 rd;
     m \<leftarrow> fmc_wait_wr_busy io (wr32 io prog w m);
     fill_aligned io n (prog + 4) (cp_add rd 4) m }"

fun fill_unaligned :: "'h bus \<Rightarrow> nat \<Rightarrow> u32 \<Rightarrow> cptr \<Rightarrow> 'h mach \<Rightarrow> 'h mach option" where
  "fill_unaligned io 0 prog data m = Some m"
| "fill_unaligned io (Suc n) prog data m = do {
     b0 \<leftarrow> cp_rd8 data 0; b1 \<leftarrow> cp_rd8 data 1; b2 \<leftarrow> cp_rd8 data 2; b3 \<leftarrow> cp_rd8 data 3;
     let w = ucast b0 OR push_bit 8 (ucast b1) OR push_bit 16 (ucast b2) OR push_bit 24 (ucast b3);
     m \<leftarrow> fmc_wait_wr_busy io (wr32 io prog w m);
     fill_unaligned io n (prog + 4) (cp_add data 4) m }"

definition fmc_write_block :: "'h bus \<Rightarrow> u32 \<Rightarrow> cptr \<Rightarrow> 'h mach \<Rightarrow> (bool \<times> 'h mach) option" where
  "fmc_write_block io addr data =
     (let prog = addr OR FLASH_ALIAS in
      AutoNoInterrupt (\<lambda>m. do {
        let m = or32 io FMC_CTL FMC_CTL_FASTPROGRAM m;
        m \<leftarrow> fmc_wait_busy io m;
        m \<leftarrow> fmc_wait_wr_busy io m;
        m \<leftarrow> (if cp_addr data AND 3 = 0 then fill_aligned io 64 prog data m
             else fill_unaligned io 64 prog data m);
        let m = or32 io FMC_CTL FMC_CTL_FASTSTART m;
        m \<leftarrow> fmc_wait_busy io m;
        let (stat, m) = rd32 io FMC_STAT m;
        let m = and32 io FMC_CTL (NOT FMC_CTL_PG) m;
        let m = and32 io FMC_CTL (NOT FMC_CTL_FASTPROGRAM) m;
        let m = wr32 io FMC_STAT FMC_STAT_WP_ENDF m;
        if flag_set stat (FMC_STAT_PG_ERR OR FMC_STAT_WP_ERR)
        then Some (False, wr32 io FMC_STAT (FMC_STAT_PG_ERR OR FMC_STAT_WP_ERR) m)
        else if \<not> flag_set stat FMC_STAT_WP_ENDF then Some (False, m)
        else Some (True, m) }))"

function write_blocks ::
  "'h bus \<Rightarrow> u32 \<Rightarrow> cptr \<Rightarrow> int \<Rightarrow> 'h mach \<Rightarrow> (bool \<times> 'h mach) option" where
  "write_blocks io startAddress data sizeInBytes m =
     (if sizeInBytes > 0 then do {
        (ok, m) \<leftarrow> fmc_write_block io startAddress data m;
        if \<not> ok then Some (False, m)
        else write_blocks io (startAddress + 256) (cp_add data 256) (sizeInBytes - 256) m }
      else Some (True, m))"
  by pat_completeness auto
termination
  by (relation "measure (\<lambda>(io, a, d, n, m). nat n)") auto

declare write_blocks.simps [simp del]

definition fmc_write :: "'h bus \<Rightarrow> u32 \<Rightarrow> cptr \<Rightarrow> int \<Rightarrow> 'h mach \<Rightarrow> (bool \<times> 'h mach) option" where
  "fmc_write io startAddress data sizeInBytes m =
     write_blocks io startAddress data sizeInBytes (fmc_fast_unlock io m)"

text \<open>The comparison loop; a byte past the end of the source object is not defined.\<close>

fun verify_bytes :: "'h bus \<Rightarrow> 'h mach \<Rightarrow> u32 \<Rightarrow> cptr \<Rightarrow> nat \<Rightarrow> nat \<Rightarrow> bool option" where
  "verify_bytes io m a data i 0 = Some True"
| "verify_bytes io m a data i (Suc n) = do {
     b \<leftarrow> cp_rd8 data i;
     if flash8 io m (a + of_nat i) \<noteq> b then Some False else verify_bytes io m a data (Suc i) n }"

definition fmc_verify :: "'h bus \<Rightarrow> u32 \<Rightarrow> cptr \<Rightarrow> int \<Rightarrow> 'h mach \<Rightarrow> bool option" where
  "fmc_verify io addr data sizeInBytes m =
     verify_bytes io m (addr OR FLASH_ALIAS) data 0 (nat sizeInBytes)"

section \<open>Facts about single operations\<close>

lemma AutoNoInterruptE [run_elims]:
  assumes "AutoNoInterrupt body m = Some (r, m')"
  obtains m1 where "body (csrc MSTATUS MIE_BIT m) = Some (r, m1)" and "m' = csrs MSTATUS MIE_BIT m1"
  using assms by (auto simp: AutoNoInterrupt_def bind_Some_iff)

text \<open>Interrupts are on after the block, whatever they were before.\<close>

lemma AutoNoInterrupt_irq: "AutoNoInterrupt body m = Some (r, m') \<Longrightarrow> irq_enabled m'"
  by (erule AutoNoInterruptE) simp

lemma fmc_erase_page_irq: "fmc_erase_page io a m = Some (ok, m') \<Longrightarrow> irq_enabled m'"
  unfolding fmc_erase_page_def Let_def by (rule AutoNoInterrupt_irq)

lemma fmc_erase_32k_irq: "fmc_erase_32k io a m = Some (ok, m') \<Longrightarrow> irq_enabled m'"
  unfolding fmc_erase_32k_def Let_def by (rule AutoNoInterrupt_irq)

lemma fmc_write_block_irq: "fmc_write_block io a d m = Some (ok, m') \<Longrightarrow> irq_enabled m'"
  unfolding fmc_write_block_def Let_def by (rule AutoNoInterrupt_irq)

lemma page_words_erased_cong:
  assumes "flash8 io m = flash8 io m'"
  shows "page_words_erased io m = page_words_erased io m'"
  using flash32_cong [OF assms] by (simp add: fun_eq_iff page_words_erased_def)

lemma page_words_erased_iff:
  "page_words_erased io m p \<longleftrightarrow> (\<forall>i < 64. flash32 io m (p + 4 * of_nat i) = ERASED)"
  by (auto simp: page_words_erased_def list_all_iff)

lemma fmc_page_is_erased_iff:
  "fmc_page_is_erased io a m \<longleftrightarrow>
     (\<forall>i < 64. flash32 io m ((a OR FLASH_ALIAS) + 4 * of_nat i) = ERASED)"
  by (simp add: fmc_page_is_erased_def page_words_erased_iff)

lemma fmc_page_is_erased_cong:
  "flash8 io m = flash8 io m' \<Longrightarrow> fmc_page_is_erased io a m = fmc_page_is_erased io a m'"
  unfolding fmc_page_is_erased_def by (drule page_words_erased_cong) simp

text \<open>A page erase that reports success left the erase pattern in every word of the page.\<close>

lemma fmc_erase_page_True:
  assumes "fmc_erase_page io a m = Some (True, m')"
  shows "fmc_page_is_erased io a m'"
proof -
  from assms obtain m1 where *: "page_words_erased io m1 (a OR FLASH_ALIAS)"
    and m': "m' = csrs MSTATUS MIE_BIT m1"
    unfolding fmc_erase_page_def Let_def
    by (auto elim!: AutoNoInterruptE bind_SomeE split: prod.split_asm if_split_asm)
  then show ?thesis
    using page_words_erased_cong [of io m' m1] by (simp add: fmc_page_is_erased_def)
qed

lemma erase_pages_irq:
  "erase_pages io n a m = Some (ok, m') \<Longrightarrow> irq_enabled m \<Longrightarrow> irq_enabled m'"
proof (induction n arbitrary: a m)
  case (Suc n)
  from Suc.prems(1) obtain ok1 m1 where e: "fmc_erase_page io a m = Some (ok1, m1)"
    and r: "(if \<not> ok1 then Some (False, m1) else erase_pages io n (a + 256) m1) = Some (ok, m')"
    by (auto elim: bind_SomeE)
  from fmc_erase_page_irq [OF e] show ?case
    using r Suc.IH [of "a + 256" m1] by (auto split: if_splits)
qed simp

lemma write_blocks_irq:
  "write_blocks io a d n m = Some (ok, m') \<Longrightarrow> irq_enabled m \<Longrightarrow> irq_enabled m'"
proof (induction io a d n m arbitrary: m' rule: write_blocks.induct)
  case (1 io a d n m)
  show ?case
  proof (cases "n > 0")
    case True
    with "1.prems"(1) obtain ok1 m1 where w: "fmc_write_block io a d m = Some (ok1, m1)"
      and r: "(if \<not> ok1 then Some (False, m1)
               else write_blocks io (a + 256) (cp_add d 256) (n - 256) m1) = Some (ok, m')"
      by (auto simp: write_blocks.simps [of io a d n m] bind_Some_iff split: prod.splits)
    from fmc_write_block_irq [OF w] show ?thesis
      using r "1.IH" [OF True w refl] by (auto split: if_splits)
  next
    case False
    with "1.prems" show ?thesis by (simp add: write_blocks.simps [of io a d n m])
  qed
qed

section \<open>The two fill loops agree\<close>

lemma fill_unaligned_eq_aligned: "fill_unaligned io n prog data m = fill_aligned io n prog data m"
  by (induction io n prog data m rule: fill_unaligned.induct)
    (auto simp: cp_rd32_def le32_def intro!: Option.bind_cong)

section \<open>Verification\<close>

lemma verify_bytes_Some:
  assumes "i + n \<le> length (cp_bytes data)"
  shows "verify_bytes io m a data i n =
           Some (\<forall>k. i \<le> k \<and> k < i + n \<longrightarrow> flash8 io m (a + of_nat k) = cp_bytes data ! k)"
  using assms
proof (induction n arbitrary: i)
  case (Suc n)
  then have "Suc i + n \<le> length (cp_bytes data)" by simp
  note IH = Suc.IH [OF this]
  have "k = i \<or> Suc i \<le> k" if "i \<le> k" for k using that by auto
  then show ?case
    using Suc.prems by (auto simp: cp_rd8_def IH)
qed auto

lemma fmc_verify_Some:
  assumes "n \<le> length (cp_bytes data)"
  shows "fmc_verify io a data (int n) m =
     Some (\<forall>k < n. flash8 io m ((a OR FLASH_ALIAS) + of_nat k) = cp_bytes data ! k)"
  using verify_bytes_Some [of 0 n data io m] assms by (simp add: fmc_verify_def)

lemma verify_bytes_True:
  "verify_bytes io m a data i n = Some True \<Longrightarrow>
     i \<le> k \<Longrightarrow> k < i + n \<Longrightarrow> k < length (cp_bytes data) \<and> flash8 io m (a + of_nat k) = cp_bytes data ! k"
proof (induction io m a data i n rule: verify_bytes.induct)
  case (2 io m a data i n)
  then show ?case
    by (cases "k = i") (auto simp: bind_Some_iff cp_rd8_Some_iff split: if_splits)
qed simp

section \<open>Termination\<close>

text \<open>
  The documented behaviour of the controller that the busy-wait loops rely on: an operation takes
  finitely many polls. The variant \<open>f\<close> bounds the number of polls that can still see a busy flag.
\<close>

definition fmc_drains :: "'h bus \<Rightarrow> ('h \<Rightarrow> nat) \<Rightarrow> bool" where
  "fmc_drains io f \<longleftrightarrow>
     (\<forall>d v d'. bus_rd32 io FMC_STAT d = (v, d') \<longrightarrow>
        flag_set v (FMC_STAT_BUSY OR FMC_STAT_WR_BUSY) \<longrightarrow> f d' < f d)"

lemma fmc_drainsD:
  assumes "fmc_drains io f" and "rd32 io FMC_STAT m = (v, m')"
    and "flag_set v FMC_STAT_BUSY \<or> flag_set v FMC_STAT_WR_BUSY"
  shows "f (dev m') < f (dev m)"
proof -
  from assms(2) obtain d' where "bus_rd32 io FMC_STAT (dev m) = (v, d')" and "m' = m\<lparr>dev := d'\<rparr>"
    by (auto simp: rd32_def split: prod.split_asm)
  moreover from assms(3) have "flag_set v (FMC_STAT_BUSY OR FMC_STAT_WR_BUSY)"
    by (auto simp: bit.conj_disj_distrib or_eq_0_iff)
  ultimately show ?thesis
    using assms(1) by (auto simp: fmc_drains_def)
qed

lemma fmc_wait_busy_returns:
  assumes "fmc_drains io f" shows "\<exists>m'. fmc_wait_busy io m = Some m'"
proof (induction "f (dev m)" arbitrary: m rule: less_induct)
  case less
  obtain v m1 where rd: "rd32 io FMC_STAT m = (v, m1)" by fastforce
  show ?case
  proof (cases "flag_set v FMC_STAT_BUSY")
    case True
    then have "\<exists>m'. fmc_wait_busy io m1 = Some m'"
      using less fmc_drainsD [OF assms rd] by blast
    with True rd show ?thesis by (simp add: fmc_wait_busy.simps [of io m])
  next
    case False
    with rd show ?thesis by (simp add: fmc_wait_busy.simps [of io m])
  qed
qed

lemma fmc_wait_wr_busy_returns:
  assumes "fmc_drains io f" shows "\<exists>m'. fmc_wait_wr_busy io m = Some m'"
proof (induction "f (dev m)" arbitrary: m rule: less_induct)
  case less
  obtain v m1 where rd: "rd32 io FMC_STAT m = (v, m1)" by fastforce
  show ?case
  proof (cases "flag_set v FMC_STAT_WR_BUSY")
    case True
    then have "\<exists>m'. fmc_wait_wr_busy io m1 = Some m'"
      using less fmc_drainsD [OF assms rd] by blast
    with True rd show ?thesis by (simp add: fmc_wait_wr_busy.simps [of io m])
  next
    case False
    with rd show ?thesis by (simp add: fmc_wait_wr_busy.simps [of io m])
  qed
qed

lemma fmc_erase_page_returns:
  assumes "fmc_drains io f" shows "fmc_erase_page io a m \<noteq> None"
proof -
  have "\<exists>m'. fmc_wait_busy io x = Some m'" for x
    using assms by (rule fmc_wait_busy_returns)
  then obtain w where "\<And>x. fmc_wait_busy io x = Some (w x)" by metis
  then show ?thesis
    by (simp add: fmc_erase_page_def AutoNoInterrupt_def Let_def del: not_None_eq split: prod.split)
qed

lemma fmc_erase_32k_returns:
  assumes "fmc_drains io f" shows "fmc_erase_32k io a m \<noteq> None"
proof -
  have "\<exists>m'. fmc_wait_busy io x = Some m'" for x
    using assms by (rule fmc_wait_busy_returns)
  then obtain w where "\<And>x. fmc_wait_busy io x = Some (w x)" by metis
  then show ?thesis
    by (simp add: fmc_erase_32k_def AutoNoInterrupt_def Let_def del: not_None_eq split: prod.split)
qed

lemma erase_pages_returns:
  assumes "fmc_drains io f" shows "erase_pages io n a m \<noteq> None"
proof (induction n arbitrary: a m)
  case (Suc n)
  obtain ok m1 where "fmc_erase_page io a m = Some (ok, m1)"
    using fmc_erase_page_returns [OF assms] by fastforce
  then show ?case using Suc.IH by (simp del: not_None_eq)
qed simp

lemma fill_aligned_returns:
  assumes "fmc_drains io f" and "4 * n \<le> length (cp_bytes rd)"
  shows "\<exists>m'. fill_aligned io n prog rd m = Some m'"
  using assms(2)
proof (induction n arbitrary: prog rd m)
  case (Suc n)
  then have "4 \<le> length (cp_bytes rd)" by simp
  then obtain w where w: "cp_rd32 rd = Some w" by (rule cp_rd32_returns)
  obtain m1 where m1: "fmc_wait_wr_busy io (wr32 io prog w m) = Some m1"
    using fmc_wait_wr_busy_returns [OF assms(1)] by blast
  have "\<exists>m'. fill_aligned io n (prog + 4) (cp_add rd 4) m1 = Some m'"
    by (rule Suc.IH) (use Suc.prems in simp)
  with w m1 show ?case by simp
qed simp

lemma fmc_write_block_returns:
  assumes "fmc_drains io f" and "256 \<le> length (cp_bytes d)"
  shows "fmc_write_block io a d m \<noteq> None"
proof -
  have "\<exists>m'. fill_aligned io 64 p d x = Some m'" for p x
    using fill_aligned_returns [OF assms(1), of 64 d p x] assms(2) by simp
  then obtain g where g: "\<And>p x. fill_aligned io 64 p d x = Some (g p x)" by metis
  have "\<exists>m'. fmc_wait_busy io x = Some m'" "\<exists>m'. fmc_wait_wr_busy io x = Some m'" for x
    using assms(1) by (rule fmc_wait_busy_returns fmc_wait_wr_busy_returns)+
  then obtain w w' where "\<And>x. fmc_wait_busy io x = Some (w x)"
    "\<And>x. fmc_wait_wr_busy io x = Some (w' x)" by metis
  with g show ?thesis
    by (simp add: fmc_write_block_def AutoNoInterrupt_def Let_def fill_unaligned_eq_aligned
      del: not_None_eq split: prod.split)
qed

lemma write_blocks_returns:
  assumes "fmc_drains io f" and "256 * k \<le> length (cp_bytes d)" and "n \<le> 256 * int k"
  shows "write_blocks io a d n m \<noteq> None"
  using assms(2,3)
proof (induction k arbitrary: a d n m)
  case 0
  then show ?case by (simp add: write_blocks.simps [of io a d n m])
next
  case (Suc k)
  obtain ok m1 where w: "fmc_write_block io a d m = Some (ok, m1)"
    using fmc_write_block_returns [OF assms(1), of d a m] Suc.prems(1) by fastforce
  have "write_blocks io (a + 256) (cp_add d 256) (n - 256) m1 \<noteq> None"
    by (rule Suc.IH) (use Suc.prems in auto)
  with w show ?case by (simp add: write_blocks.simps [of io a d n m] del: not_None_eq)
qed

section \<open>The driver as an interface\<close>

text \<open>
  What \<^verbatim>\<open>dfu.cpp\<close> uses of this header and of the LED, as a record of operations, and the contract
  it relies on, as a locale. Every operation of the record is one of the functions above.
\<close>

record 's flash_ops =
  page_is_erased :: "u32 \<Rightarrow> 's \<Rightarrow> bool"
  erase_page :: "u32 \<Rightarrow> 's \<Rightarrow> (bool \<times> 's) option"
  erase_32k :: "u32 \<Rightarrow> 's \<Rightarrow> (bool \<times> 's) option"
  erase_range :: "u32 \<Rightarrow> int \<Rightarrow> 's \<Rightarrow> (bool \<times> 's) option"
  flash_write :: "u32 \<Rightarrow> cptr \<Rightarrow> int \<Rightarrow> 's \<Rightarrow> (bool \<times> 's) option"
  flash_verify :: "u32 \<Rightarrow> cptr \<Rightarrow> int \<Rightarrow> 's \<Rightarrow> bool option"
  set_led :: "bool \<Rightarrow> 's \<Rightarrow> 's"

locale flash_driver =
  fixes fl :: "'s flash_ops"
    and content :: "'s \<Rightarrow> u32 \<Rightarrow> u8"
  assumes erased_content: "content s = content s' \<Longrightarrow> page_is_erased fl a s = page_is_erased fl a s'"
    and erase_page_erased: "erase_page fl a s = Some (True, s') \<Longrightarrow> page_is_erased fl a s'"
    and verify_compares: "n \<le> length (cp_bytes d) \<Longrightarrow>
          flash_verify fl a d (int n) s =
            Some (\<forall>k < n. content s ((a OR FLASH_ALIAS) + of_nat k) = cp_bytes d ! k)"

definition fmc_ops :: "'h bus \<Rightarrow> 'h mach flash_ops" where
  "fmc_ops io = \<lparr>
     page_is_erased = fmc_page_is_erased io,
     erase_page = fmc_erase_page io,
     erase_32k = fmc_erase_32k io,
     erase_range = fmc_erase_range io,
     flash_write = fmc_write io,
     flash_verify = fmc_verify io,
     set_led = lnDigitalWrite io LED_PIN \<rparr>"

lemma fmc_ops_simps [simp]:
  "page_is_erased (fmc_ops io) = fmc_page_is_erased io"
  "erase_page (fmc_ops io) = fmc_erase_page io"
  "erase_32k (fmc_ops io) = fmc_erase_32k io"
  "erase_range (fmc_ops io) = fmc_erase_range io"
  "flash_write (fmc_ops io) = fmc_write io"
  "flash_verify (fmc_ops io) = fmc_verify io"
  "set_led (fmc_ops io) = lnDigitalWrite io LED_PIN"
  by (simp_all add: fmc_ops_def)

interpretation fmc: flash_driver "fmc_ops io" "flash8 io" for io
  by unfold_locales
    (simp_all add: fmc_erase_page_True fmc_verify_Some, rule fmc_page_is_erased_cong)

text \<open>
  The operations return: what a caller needs to know that a download ends. A write reads whole
  256-byte blocks of its source.
\<close>

definition flash_ops_return :: "'s flash_ops \<Rightarrow> bool" where
  "flash_ops_return fl \<longleftrightarrow>
     (\<forall>a s. erase_page fl a s \<noteq> None) \<and>
     (\<forall>a s. erase_32k fl a s \<noteq> None) \<and>
     (\<forall>a k s. erase_range fl a k s \<noteq> None) \<and>
     (\<forall>a d k n s. 256 * k \<le> length (cp_bytes d) \<longrightarrow> n \<le> 256 * int k \<longrightarrow>
        flash_write fl a d n s \<noteq> None)"

lemma fmc_ops_return:
  assumes "fmc_drains io f" shows "flash_ops_return (fmc_ops io)"
  using fmc_erase_page_returns [OF assms] fmc_erase_32k_returns [OF assms]
    erase_pages_returns [OF assms] write_blocks_returns [OF assms]
  by (simp add: flash_ops_return_def fmc_erase_range_def fmc_write_def del: not_None_eq)

end
