(* ===== verification/Dfu.thy ===== *)
theory Dfu
  imports Flash Usb_Protocol
begin

text \<open>
  The DFU state machine of \<^verbatim>\<open>src_stage2/dfu.cpp\<close>: the class request handler and the data handler,
  over the flash driver's interface (\<^verbatim>\<open>Flash\<close>). \<open>dfu\<close> holds the file's static variables and, in
  \<open>plat\<close>, the machine the driver works on.
\<close>

record 's dfu =
  state :: dfu_state
  status :: dfu_status
  dfu_address :: u32
  dfu_block_num :: u32
  flash_end :: u32
  plat :: 's

definition DFUSE_CMD_SET_ADDRESS :: u8 where "DFUSE_CMD_SET_ADDRESS = 0x21"
definition DFUSE_CMD_ERASE_PAGE :: u8 where "DFUSE_CMD_ERASE_PAGE = 0x41"

definition dfu_init :: "'s \<Rightarrow> 's dfu" where
  "dfu_init p = \<lparr>state = STATE_DFU_IDLE, status = DFU_STATUS_OK, dfu_address = 0,
                 dfu_block_num = 0, flash_end = 0, plat = p\<rparr>"

section \<open>The request handler\<close>

text \<open>
  The result of a handler: the C return value, what \<open>*data\<close> points at (\<open>None\<close> is \<open>NULL\<close>) and
  \<open>*len\<close>. The buffers behind \<open>*data\<close> are static and written only here, so the bytes are taken
  when the request is handled.
\<close>

type_synonym response = "u8 list option \<times> u16"

definition dfu_getstatus_next :: "dfu_state \<Rightarrow> dfu_state" where
  "dfu_getstatus_next s =
     (if s = STATE_DFU_DNLOAD_SYNC then STATE_DFU_DNBUSY
      else if s = STATE_DFU_DNBUSY then STATE_DFU_DNLOAD_IDLE
      else if s = STATE_DFU_MANIFEST_SYNC then STATE_DFU_MANIFEST
      else s)"

definition dfu_status_response :: "dfu_status \<Rightarrow> dfu_state \<Rightarrow> u8 list" where
  "dfu_status_response st s = [status_val st, 10, 0, 0, state_val s, 0]"

definition dfu_handle_request ::
  "usb_setup_packet \<Rightarrow> 's dfu \<Rightarrow> int \<times> response \<times> 's dfu" where
  "dfu_handle_request req d =
     (if bRequest req = DFU_DETACH then
        (let timeout = wValue req in
         if timeout = 0 then (1, (None, 0), d\<lparr>status := DFU_STATUS_OK, state := STATE_APP_DETACH\<rparr>)
         else (1, (None, 0), d\<lparr>state := STATE_APP_DETACH, status := DFU_STATUS_OK\<rparr>))
      else if bRequest req = DFU_DNLOAD then
        (let block = wValue req; len = wLength req in
         if len = 0
         then (1, (None, 0), d\<lparr>state := STATE_DFU_MANIFEST_SYNC, status := DFU_STATUS_OK\<rparr>)
         else (1, (None, 0), d\<lparr>dfu_block_num := ucast block, state := STATE_DFU_DNLOAD_SYNC,
                               status := DFU_STATUS_OK\<rparr>))
      else if bRequest req = DFU_UPLOAD then
        (1, (None, 0), d\<lparr>state := STATE_DFU_UPLOAD_IDLE, status := DFU_STATUS_OK\<rparr>)
      else if bRequest req = DFU_GETSTATUS then
        (let d = d\<lparr>state := dfu_getstatus_next (state d)\<rparr>
         in (1, (Some (dfu_status_response (status d) (state d)), 6), d))
      else if bRequest req = DFU_CLRSTATUS then
        (1, (None, 0), d\<lparr>status := DFU_STATUS_OK, state := STATE_DFU_IDLE\<rparr>)
      else if bRequest req = DFU_GETSTATE then (1, (Some [state_val (state d)], 1), d)
      else if bRequest req = DFU_ABORT then
        (1, (None, 0), d\<lparr>state := STATE_DFU_IDLE, status := DFU_STATUS_OK\<rparr>)
      else (0, (None, 0), d))"

section \<open>The data handler\<close>

definition dfu_fail :: "dfu_status \<Rightarrow> 's dfu \<Rightarrow> 's dfu" where
  "dfu_fail e d = d\<lparr>status := e, state := STATE_DFU_ERROR\<rparr>"

text \<open>
  The erased-check loop of the erase command and the erase loop of a data block run over 32-bit
  addresses while \<open>a < lim\<close>; an address that wraps past the end of the address space is not excluded
  by the code, so the loops are partial.
\<close>

partial_function (option) all_pages_erased :: "'s flash_ops \<Rightarrow> u32 \<Rightarrow> u32 \<Rightarrow> 's \<Rightarrow> bool option" where
  "all_pages_erased fl a lim s =
     (if a < lim then
        if \<not> page_is_erased fl a s then Some False
        else all_pages_erased fl (a + of_nat FLASH_SECTOR_SIZE) lim s
      else Some True)"

partial_function (option) erase_dirty_pages ::
  "'s flash_ops \<Rightarrow> u32 \<Rightarrow> u32 \<Rightarrow> 's \<Rightarrow> (bool \<times> 's) option" where
  "erase_dirty_pages fl a lim s =
     (if a < lim then
        if \<not> page_is_erased fl a s
        then (case erase_page fl a s of
                None \<Rightarrow> None
              | Some (ok, s1) \<Rightarrow>
                  if \<not> ok then Some (False, s1)
                  else erase_dirty_pages fl (a + of_nat FLASH_SECTOR_SIZE) lim s1)
        else erase_dirty_pages fl (a + of_nat FLASH_SECTOR_SIZE) lim s
      else Some (True, s))"

definition sector_base :: "u32 \<Rightarrow> u32" where
  "sector_base addr = addr AND NOT (of_nat DFU_SECTOR_SIZE - 1)"

definition page_base :: "u32 \<Rightarrow> u32" where
  "page_base addr = addr AND NOT (of_nat FLASH_SECTOR_SIZE - 1)"

text \<open>The erase command: a DfuSe sector of 4 KB, or 32 KB where the address is a multiple of 32 KB.\<close>

definition dfu_erase_command :: "'s flash_ops \<Rightarrow> u32 \<Rightarrow> 's dfu \<Rightarrow> 's dfu option" where
  "dfu_erase_command fl addr d =
     (let d = d\<lparr>plat := set_led fl True (plat d)\<rparr>;
          erase_addr = sector_base addr
      in do {
        is_erased \<leftarrow> all_pages_erased fl erase_addr (erase_addr + of_nat DFU_SECTOR_SIZE) (plat d);
        d \<leftarrow> (if is_erased then Some (d\<lparr>status := DFU_STATUS_OK\<rparr>)
             else do {
               (erase_success, s) \<leftarrow>
                 (if erase_addr mod 32768 = 0 then erase_32k fl erase_addr (plat d)
                  else erase_range fl erase_addr (int DFU_SECTOR_SIZE_KB) (plat d));
               let d = d\<lparr>plat := s\<rparr>;
               Some (if \<not> erase_success then dfu_fail DFU_STATUS_ERR_ERASE d
                     else d\<lparr>status := DFU_STATUS_OK\<rparr>) });
        Some (d\<lparr>plat := set_led fl False (plat d)\<rparr>) })"

text \<open>Block 2 and up: firmware data.\<close>

definition write_address :: "u32 \<Rightarrow> u32 \<Rightarrow> u32" where
  "write_address address block = address + (block - 2) * of_nat DFU_TRANSFER_SIZE"

definition dfu_write_block :: "'s flash_ops \<Rightarrow> cptr \<Rightarrow> u16 \<Rightarrow> 's dfu \<Rightarrow> 's dfu option" where
  "dfu_write_block fl data len d =
     (let wa = write_address (dfu_address d) (dfu_block_num d) in
      if wa + ucast len > flash_end d then Some (dfu_fail DFU_STATUS_ERR_ADDRESS d)
      else do {
        (ok, s) \<leftarrow> erase_dirty_pages fl (page_base wa) (wa + ucast len) (plat d);
        let d = d\<lparr>plat := s\<rparr>;
        if \<not> ok then Some (dfu_fail DFU_STATUS_ERR_ERASE d)
        else do {
          (ok, s) \<leftarrow> flash_write fl wa data (uint len) (plat d);
          let d = d\<lparr>plat := s\<rparr>;
          if \<not> ok then Some (dfu_fail DFU_STATUS_ERR_WRITE d)
          else do {
            ok \<leftarrow> flash_verify fl wa data (uint len) (plat d);
            if \<not> ok then Some (dfu_fail DFU_STATUS_ERR_VERIFY d)
            else Some (d\<lparr>status := DFU_STATUS_OK\<rparr>) } } })"

definition dfu_handle_data :: "'s flash_ops \<Rightarrow> cptr \<Rightarrow> u16 \<Rightarrow> 's dfu \<Rightarrow> 's dfu option" where
  "dfu_handle_data fl data len d =
     (if dfu_block_num d = 0 \<and> len \<ge> 5 then do {
        cmd \<leftarrow> cp_rd8 data 0;
        b1 \<leftarrow> cp_rd8 data 1; b2 \<leftarrow> cp_rd8 data 2; b3 \<leftarrow> cp_rd8 data 3; b4 \<leftarrow> cp_rd8 data 4;
        let addr = le32 b1 b2 b3 b4;
        if cmd = DFUSE_CMD_SET_ADDRESS
        then Some (d\<lparr>dfu_address := addr, status := DFU_STATUS_OK\<rparr>)
        else if cmd = DFUSE_CMD_ERASE_PAGE then dfu_erase_command fl addr d
        else Some (dfu_fail DFU_STATUS_ERR_UNKNOWN d) }
      else if dfu_block_num d \<ge> 2 \<and> len > 0 then dfu_write_block fl data len d
      else Some d)"

section \<open>Requests\<close>

lemmas dfu_handle_request_simps = dfu_handle_request_def dfu_req_defs

text \<open>What the answer of a request is: the six status bytes, the state byte, or nothing.\<close>

lemma dfu_handle_getstatus:
  "bRequest req = DFU_GETSTATUS \<Longrightarrow> dfu_handle_request req d =
     (1, (Some (dfu_status_response (status d) (dfu_getstatus_next (state d))), 6),
      d\<lparr>state := dfu_getstatus_next (state d)\<rparr>)"
  by (simp add: dfu_handle_request_simps Let_def)

lemma dfu_handle_getstate:
  "bRequest req = DFU_GETSTATE \<Longrightarrow>
     dfu_handle_request req d = (1, (Some [state_val (state d)], 1), d)"
  by (simp add: dfu_handle_request_simps Let_def)

lemma dfu_handle_quiet:
  assumes "bRequest req \<noteq> DFU_GETSTATUS" and "bRequest req \<noteq> DFU_GETSTATE"
    and "dfu_handle_request req d = (r, resp, d')"
  shows "resp = (None, 0)" and "plat d' = plat d" and "flash_end d' = flash_end d"
    and "dfu_address d' = dfu_address d"
    and "d' = d \<or> (status d' = DFU_STATUS_OK \<and> state d' \<noteq> STATE_DFU_ERROR)"
  using assms by (auto simp: dfu_handle_request_def Let_def split: if_split_asm)

lemma dfu_handle_request_cases:
  assumes "dfu_handle_request req d = (r, resp, d')"
  obtains
    (status) "resp = (Some (dfu_status_response (status d) (dfu_getstatus_next (state d))), 6)"
      and "d' = d\<lparr>state := dfu_getstatus_next (state d)\<rparr>"
  | (getstate) "resp = (Some [state_val (state d)], 1)" and "d' = d"
  | (quiet) "resp = (None, 0)"
      and "plat d' = plat d" and "flash_end d' = flash_end d" and "dfu_address d' = dfu_address d"
      and "d' = d \<or> (status d' = DFU_STATUS_OK \<and> state d' \<noteq> STATE_DFU_ERROR)"
proof (cases "bRequest req = DFU_GETSTATUS \<or> bRequest req = DFU_GETSTATE")
  case True
  then show thesis
    using assms by (auto simp: dfu_handle_getstatus dfu_handle_getstate intro: status getstate)
next
  case False
  then show thesis by (intro quiet) (use dfu_handle_quiet [OF _ _ assms] in simp_all)
qed

lemma dfu_handle_request_response:
  assumes "dfu_handle_request req d = (r, (data, len), d')"
  shows "unat len = (case data of None \<Rightarrow> 0 | Some bs \<Rightarrow> length bs)"
  using assms by (cases rule: dfu_handle_request_cases) (auto simp: dfu_status_response_def)

lemma dfu_handle_request_frame:
  assumes "dfu_handle_request req d = (r, resp, d')"
  shows "plat d' = plat d" "flash_end d' = flash_end d" "dfu_address d' = dfu_address d"
proof -
  have "plat d' = plat d \<and> flash_end d' = flash_end d \<and> dfu_address d' = dfu_address d"
    using assms by (cases rule: dfu_handle_request_cases) simp_all
  then show "plat d' = plat d" "flash_end d' = flash_end d" "dfu_address d' = dfu_address d"
    by simp_all
qed

text \<open>An error status is only ever reported in the error state.\<close>

definition dfu_coherent :: "'s dfu \<Rightarrow> bool" where
  "dfu_coherent d \<longleftrightarrow> (status d \<noteq> DFU_STATUS_OK \<longrightarrow> state d = STATE_DFU_ERROR)"

lemma dfu_coherent_init: "dfu_coherent (dfu_init p)"
  by (simp add: dfu_coherent_def dfu_init_def)

lemma dfu_handle_request_coherent:
  assumes "dfu_coherent d" and "dfu_handle_request req d = (r, resp, d')"
  shows "dfu_coherent d'"
  using assms(2,1) by (cases rule: dfu_handle_request_cases)
    (auto simp: dfu_coherent_def dfu_getstatus_next_def)

lemma dfu_fail_simps [simp]:
  "status (dfu_fail e d) = e" "state (dfu_fail e d) = STATE_DFU_ERROR"
  "plat (dfu_fail e d) = plat d" "flash_end (dfu_fail e d) = flash_end d"
  "dfu_address (dfu_fail e d) = dfu_address d" "dfu_block_num (dfu_fail e d) = dfu_block_num d"
  by (simp_all add: dfu_fail_def)

lemma dfu_erase_command_result:
  assumes "dfu_erase_command fl addr d = Some d'"
  shows "(status d' = DFU_STATUS_OK \<and> state d' = state d) \<or>
         (status d' = DFU_STATUS_ERR_ERASE \<and> state d' = STATE_DFU_ERROR)"
  using assms
  by (auto simp: dfu_erase_command_def Let_def elim!: bind_SomeE split: if_split_asm)

lemma dfu_write_block_result:
  assumes "dfu_write_block fl data len d = Some d'"
  shows "(status d' = DFU_STATUS_OK \<and> state d' = state d) \<or>
         (status d' \<in> {DFU_STATUS_ERR_ADDRESS, DFU_STATUS_ERR_ERASE, DFU_STATUS_ERR_WRITE,
                       DFU_STATUS_ERR_VERIFY} \<and> state d' = STATE_DFU_ERROR)"
  using assms
  by (auto simp: dfu_write_block_def Let_def elim!: bind_SomeE split: if_split_asm)

lemma dfu_handle_data_result:
  assumes "dfu_handle_data fl data len d = Some d'"
  shows "(status d' = DFU_STATUS_OK \<and> state d' = state d) \<or>
         (status d' \<noteq> DFU_STATUS_OK \<and> state d' = STATE_DFU_ERROR) \<or> d' = d"
  using assms unfolding dfu_handle_data_def Let_def
  by (auto elim!: bind_SomeE split: if_split_asm
      dest!: dfu_erase_command_result dfu_write_block_result)

lemma dfu_handle_data_coherent:
  "dfu_coherent d \<Longrightarrow> dfu_handle_data fl data len d = Some d' \<Longrightarrow> dfu_coherent d'"
  using dfu_handle_data_result unfolding dfu_coherent_def by metis

lemma dfu_handle_data_frame:
  assumes "dfu_handle_data fl data len d = Some d'"
  shows "flash_end d' = flash_end d" "dfu_block_num d' = dfu_block_num d"
  using assms
  by (auto simp: dfu_handle_data_def dfu_erase_command_def dfu_write_block_def Let_def
      elim!: bind_SomeE split: if_split_asm)

section \<open>A data block that is reported written is in the flash\<close>

context flash_driver
begin

lemma dfu_write_block_programs:
  assumes run: "dfu_write_block fl data len d = Some d'" and ok: "status d' = DFU_STATUS_OK"
    and len: "unat len \<le> length (cp_bytes data)"
    and k: "k < unat len"
  shows "content (plat d') ((write_address (dfu_address d) (dfu_block_num d) OR FLASH_ALIAS)
           + of_nat k) = cp_bytes data ! k"
proof -
  let ?wa = "write_address (dfu_address d) (dfu_block_num d)"
  from run ok have "flash_verify fl ?wa data (uint len) (plat d') = Some True"
    by (auto simp: dfu_write_block_def Let_def elim!: bind_SomeE split: if_split_asm)
  then have "flash_verify fl ?wa data (int (unat len)) (plat d') = Some True" by simp
  with verify_compares [OF len, of ?wa "plat d'"] k show ?thesis by auto
qed

end

text \<open>The address check: a block that would end past \<open>flash_end\<close> changes nothing in the flash.\<close>

lemma dfu_write_block_out_of_range:
  assumes "write_address (dfu_address d) (dfu_block_num d) + ucast len > flash_end d"
  shows "dfu_write_block fl data len d = Some (dfu_fail DFU_STATUS_ERR_ADDRESS d)"
  using assms by (simp add: dfu_write_block_def Let_def)

lemma dfu_write_block_address_error:
  assumes "dfu_write_block fl data len d = Some d'" and "status d' = DFU_STATUS_ERR_ADDRESS"
  shows "write_address (dfu_address d) (dfu_block_num d) + ucast len > flash_end d"
  using assms by (auto simp: dfu_write_block_def Let_def elim!: bind_SomeE split: if_split_asm)

text \<open>Consecutive blocks are laid out one after the other.\<close>

lemma write_address_2: "write_address a 2 = a"
  by (simp add: write_address_def)

lemma write_address_Suc: "write_address a (b + 1) = write_address a b + 4096"
  by (simp add: write_address_def DFU_TRANSFER_SIZE_def algebra_simps)

section \<open>The handlers return\<close>

lemma erase_dirty_pages_returns:
  assumes "flash_ops_return fl" and lim: "unat lim \<le> 2 ^ 32 - 256"
  shows "erase_dirty_pages fl a lim s \<noteq> None"
proof (induction "unat lim - unat a" arbitrary: a s rule: less_induct)
  case less
  show ?case
  proof (cases "a < lim")
    case True
    then have "unat (a + of_nat FLASH_SECTOR_SIZE) = unat a + 256" and "unat a < unat lim"
      using unat_step_below [OF True, of 256] lim
      by (simp_all add: FLASH_SECTOR_SIZE_def word_less_nat_alt)
    then have IH: "erase_dirty_pages fl (a + of_nat FLASH_SECTOR_SIZE) lim t \<noteq> None" for t
      by (intro less) simp
    obtain ok s1 where "erase_page fl a s = Some (ok, s1)"
      using assms(1) by (fastforce simp: flash_ops_return_def)
    with IH show ?thesis
      by (simp add: erase_dirty_pages.simps [of fl a lim s] del: not_None_eq)
  qed (simp add: erase_dirty_pages.simps [of fl a lim s])
qed

lemma all_pages_erased_Some:
  assumes lim: "unat lim \<le> 2 ^ 32 - 256" and "unat lim = unat a + 256 * n"
  shows "all_pages_erased fl a lim s = Some (\<forall>i < n. page_is_erased fl (a + 256 * of_nat i) s)"
  using assms(2)
proof (induction n arbitrary: a)
  case 0
  then have "\<not> a < lim" by (simp add: word_less_nat_alt)
  then show ?case by (simp add: all_pages_erased.simps [of fl a lim s])
next
  case (Suc n)
  then have al: "a < lim" by (simp add: word_less_nat_alt)
  have "unat (a + of_nat FLASH_SECTOR_SIZE) = unat a + 256"
    using unat_step_below [OF al, of 256] lim by (simp add: FLASH_SECTOR_SIZE_def)
  then have "all_pages_erased fl (a + of_nat FLASH_SECTOR_SIZE) lim s =
      Some (\<forall>i < n. page_is_erased fl ((a + of_nat FLASH_SECTOR_SIZE) + 256 * of_nat i) s)"
    using Suc.prems by (intro Suc.IH) simp
  then show ?case using al
    by (simp add: all_pages_erased.simps [of fl a lim s] FLASH_SECTOR_SIZE_def
      All_less_Suc2 algebra_simps)
qed

lemma sector_base_unat: "unat (sector_base addr) = unat addr - unat addr mod 4096"
proof -
  have "of_nat DFU_SECTOR_SIZE - 1 = (mask 12 :: u32)"
    by (simp add: DFU_SECTOR_SIZE_def DFU_SECTOR_SIZE_KB_def mask_eq_exp_minus_1)
  then show ?thesis by (simp add: sector_base_def unat_align_down)
qed

lemma page_base_unat: "unat (page_base addr) = unat addr - unat addr mod 256"
proof -
  have "of_nat FLASH_SECTOR_SIZE - 1 = (mask 8 :: u32)"
    by (simp add: FLASH_SECTOR_SIZE_def mask_eq_exp_minus_1)
  then show ?thesis by (simp add: page_base_def unat_align_down)
qed

text \<open>
  The erased-check of the erase command looks at the sixteen pages of the sector, except for the
  last sector of the address space, where the end address wraps to 0 and no page is looked at.
\<close>

lemma sector_base_cases:
  obtains (top) "sector_base addr = 0xFFFFF000" "sector_base addr + of_nat DFU_SECTOR_SIZE = 0"
  | (low) "sector_base addr \<noteq> 0xFFFFF000" "unat (sector_base addr) + 4096 \<le> 0xFFFFF000"
      "unat (sector_base addr + of_nat DFU_SECTOR_SIZE) = unat (sector_base addr) + 4096"
proof -
  define q where "q = unat addr div 4096"
  have a: "unat (sector_base addr) = 4096 * q"
    by (simp add: sector_base_unat minus_mod_eq_mult_div q_def)
  have size: "(of_nat DFU_SECTOR_SIZE :: u32) = 4096"
    by (simp add: DFU_SECTOR_SIZE_def DFU_SECTOR_SIZE_KB_def)
  have "unat addr < 4096 * 1048576"
    using unsigned_less [where ?'a = nat, of addr] by simp
  then have q: "q \<le> 1048575"
    by (simp add: q_def less_Suc_eq_le flip: less_mult_imp_div_less)
  show thesis
  proof (cases "sector_base addr = 0xFFFFF000")
    case True
    then show thesis by (intro top) (simp_all add: size)
  next
    case False
    then have "q \<noteq> 1048575" using a by (auto simp: word_unat_eq_iff)
    with q a have le: "unat (sector_base addr) + 4096 \<le> 0xFFFFF000" by simp
    then have "unat (sector_base addr + 4096) = unat (sector_base addr) + unat (4096 :: u32)"
      by (intro unat_add_small) simp
    moreover have "unat (4096 :: u32) = 4096" by simp
    ultimately show thesis using False le by (intro low) (simp_all add: size)
  qed
qed

lemma all_pages_erased_sector:
  "all_pages_erased fl (sector_base addr) (sector_base addr + of_nat DFU_SECTOR_SIZE) s =
     Some (sector_base addr = 0xFFFFF000 \<or>
           (\<forall>i < 16. page_is_erased fl (sector_base addr + 256 * of_nat i) s))"
proof (cases addr rule: sector_base_cases)
  case top
  then show ?thesis
    by (simp add: all_pages_erased.simps [of fl "0xFFFFF000" 0 s])
next
  case low
  then have "all_pages_erased fl (sector_base addr) (sector_base addr + of_nat DFU_SECTOR_SIZE) s =
      Some (\<forall>i < 16. page_is_erased fl (sector_base addr + 256 * of_nat i) s)"
    by (intro all_pages_erased_Some) simp_all
  with low(1) show ?thesis by simp
qed

lemma dfu_erase_command_returns:
  assumes "flash_ops_return fl" shows "dfu_erase_command fl addr d \<noteq> None"
proof -
  let ?s = "set_led fl True (plat d)"
  obtain e1 s1 where "erase_32k fl (sector_base addr) ?s = Some (e1, s1)"
    using assms by (fastforce simp: flash_ops_return_def)
  moreover obtain e2 s2 where
    "erase_range fl (sector_base addr) (int DFU_SECTOR_SIZE_KB) ?s = Some (e2, s2)"
    using assms by (fastforce simp: flash_ops_return_def)
  ultimately show ?thesis
    by (simp add: dfu_erase_command_def all_pages_erased_sector Let_def del: not_None_eq)
qed

context flash_driver
begin

lemma dfu_write_block_returns:
  assumes fl: "flash_ops_return fl" and fe: "unat (flash_end d) \<le> 2 ^ 32 - 256"
    and buf: "length (cp_bytes data) = DFU_TRANSFER_SIZE" and len: "unat len \<le> DFU_TRANSFER_SIZE"
  shows "dfu_write_block fl data len d \<noteq> None"
proof (cases "write_address (dfu_address d) (dfu_block_num d) + ucast len > flash_end d")
  case True
  then show ?thesis by (simp add: dfu_write_block_out_of_range)
next
  case False
  let ?wa = "write_address (dfu_address d) (dfu_block_num d)"
  have "unat (?wa + ucast len) \<le> 2 ^ 32 - 256"
    using False fe by (simp add: word_less_nat_alt)
  then have E: "erase_dirty_pages fl (page_base ?wa) (?wa + ucast len) s \<noteq> None" for s
    by (rule erase_dirty_pages_returns [OF fl])
  have W: "flash_write fl ?wa data (uint len) s \<noteq> None" for s
  proof -
    let ?k = "(unat len + 255) div 256"
    have "256 * ?k \<le> length (cp_bytes data)"
      using buf len by (simp add: DFU_TRANSFER_SIZE_def)
    moreover have "unat len \<le> 256 * ?k" by linarith
    then have "int (unat len) \<le> int (256 * ?k)" by (rule of_nat_mono)
    then have "uint len \<le> 256 * int ?k" by simp
    ultimately show ?thesis using fl unfolding flash_ops_return_def by blast
  qed
  have V: "flash_verify fl ?wa data (uint len) s \<noteq> None" for s
    using verify_compares [of "unat len" data ?wa s] buf len by simp
  obtain ok1 s1 where "erase_dirty_pages fl (page_base ?wa) (?wa + ucast len) (plat d) = Some (ok1, s1)"
    using E [of "plat d"] by auto
  moreover obtain ok2 s2 where "flash_write fl ?wa data (uint len) s1 = Some (ok2, s2)"
    using W [of s1] by auto
  moreover obtain ok3 where "flash_verify fl ?wa data (uint len) s2 = Some ok3"
    using V [of s2] by auto
  ultimately show ?thesis
    using False by (simp add: dfu_write_block_def Let_def del: not_None_eq)
qed

lemma dfu_handle_data_returns:
  assumes fl: "flash_ops_return fl" and fe: "unat (flash_end d) \<le> 2 ^ 32 - 256"
    and buf: "length (cp_bytes data) = DFU_TRANSFER_SIZE" and len: "unat len \<le> DFU_TRANSFER_SIZE"
  shows "dfu_handle_data fl data len d \<noteq> None"
  using dfu_write_block_returns [OF assms] dfu_erase_command_returns [OF fl, of _ d] buf
  by (simp add: dfu_handle_data_def cp_rd8_def DFU_TRANSFER_SIZE_def Let_def del: not_None_eq)

end

end
