(* ===== verification/Usb_Dfu.thy ===== *)
theory Usb_Dfu
  imports Usb_Control Dfu
begin

text \<open>
  The DFU handlers as the class driver behind the USB driver (the two functions \<open>usb.cpp\<close> declares
  \<open>extern\<close>), and the facts about descriptors and answers that span both.
\<close>

definition dfu_class :: "'s flash_ops \<Rightarrow> 's dfu usb_class" where
  "dfu_class fl =
     \<lparr>cls_request = (\<lambda>req d. case dfu_handle_request req d of (r, a, d) \<Rightarrow> (a, d)),
      cls_data = dfu_handle_data fl\<rparr>"

lemma dfu_class_simps [simp]:
  "cls_request (dfu_class fl) req d = (case dfu_handle_request req d of (r, a, d) \<Rightarrow> (a, d))"
  "cls_data (dfu_class fl) = dfu_handle_data fl"
  by (simp_all add: dfu_class_def)

text \<open>
  What the DFU handlers need: a controller that is not busy for ever, and the end of flash not in
  the last page of the address space.
\<close>

definition dfu_ready :: "'h bus \<Rightarrow> ('h \<Rightarrow> nat) \<Rightarrow> 'h mach dfu \<Rightarrow> bool" where
  "dfu_ready io f d \<longleftrightarrow> fmc_drains io f \<and> unat (flash_end d) \<le> 2 ^ 32 - 256"

interpretation dfu_usb: class_driver "dfu_class (fmc_ops io)" "dfu_ready io f" for io f
proof
  fix req :: usb_setup_packet and p p' a
  assume "dfu_ready io f p" and run: "cls_request (dfu_class (fmc_ops io)) req p = (a, p')"
  then obtain r d l where h: "dfu_handle_request req p = (r, (d, l), p')" "a = (d, l)"
    by (auto split: prod.split_asm)
  show "valid_answer a \<and> dfu_ready io f p'"
    using dfu_handle_request_response [OF h(1)] dfu_handle_request_frame(2) [OF h(1)]
      \<open>dfu_ready io f p\<close> h(2)
    by (simp add: valid_answer_def dfu_ready_def)
next
  fix p :: "'a mach dfu" and c :: cptr and len :: u16
  assume ok: "dfu_ready io f p" and c: "length (cp_bytes c) = DFU_TRANSFER_SIZE"
    and len: "unat len \<le> DFU_TRANSFER_SIZE"
  then obtain p' where p': "dfu_handle_data (fmc_ops io) c len p = Some p'"
    using fmc.dfu_handle_data_returns [OF fmc_ops_return, of io f p c len]
    by (auto simp: dfu_ready_def)
  from dfu_handle_data_frame(1) [OF this] p' ok
  show "\<exists>p'. cls_data (dfu_class (fmc_ops io)) c len p = Some p' \<and> dfu_ready io f p'"
    by (simp add: dfu_ready_def)
qed

text \<open>GETSTATUS as a control read.\<close>

lemma getstatus_control_read:
  assumes "usb_ok ok u" and "bmRequestType r = 0xA1" and "bRequest r = DFU_GETSTATUS"
    and "wLength r = 6"
  shows "\<exists>u1 u2. host_step (dfu_class fl) (Ev_setup r) u = Some u1 \<and>
    read_packets (dfu_class fl) 1 u1 =
      Some (dfu_status_response (status (cls u)) (dfu_getstatus_next (state (cls u))), u2) \<and>
    phase u2 = CTRL_IDLE \<and> cls u2 = (cls u)\<lparr>state := dfu_getstatus_next (state (cls u))\<rparr>"
proof -
  let ?bs = "dfu_status_response (status (cls u)) (dfu_getstatus_next (state (cls u)))"
  have "route_request (dfu_class fl) r (setup_state r u) =
      Some ((Some ?bs, 6), (setup_state r u)\<lparr>cls := (cls u)\<lparr>state := dfu_getstatus_next (state (cls u))\<rparr>\<rparr>)"
    using assms(2,3) by (simp add: route_class dfu_handle_getstatus)
  from control_read [OF assms(1) _ _ this] assms(2,4) show ?thesis
    by (simp add: USB_DIR_IN_def dfu_status_response_def)
qed

section \<open>Descriptors\<close>

lemma string_descriptor_shape:
  assumes "string_descriptor idx = Some bs"
  shows "bs ! 0 = of_nat (length bs)" "bs ! 1 = USB_DT_STRING" "even (length bs)" "2 \<le> length bs"
proof -
  have len: "length (concat (map (\<lambda>c. [of_char c, 0 :: u8]) s)) = 2 * length s" for s
    by (induction s) auto
  show "bs ! 0 = of_nat (length bs)" "bs ! 1 = USB_DT_STRING" "even (length bs)" "2 \<le> length bs"
    using assms by (auto simp: string_descriptor_def store_utf16_eq SBUF_SIZE_def len
      USB_DT_STRING_HEADER_def algebra_simps elim!: bind_SomeE split: if_split_asm)
qed

text \<open>The bytes of the device and of the configuration descriptor.\<close>

definition device_bytes :: "u8 list" where
  "device_bytes = [18, 1, 0x10, 0x01, 0, 0, 0, 64, 0x50, 0x1d, 0x30, 0x60, 0, 1, 1, 2, 3, 1]"

definition config_bytes_list :: "u8 list" where
  "config_bytes_list =
     [9, 2, 27, 0, 1, 1, 0, 0x80, 50] @ [9, 4, 0, 0, 0, 0xFE, 1, 2, 4] @
     [9, 0x21, 0x0F, 0xE8, 0x03, 0x00, 0x10, 0x10, 0x01]"

lemma device_bytes_eq: "device_descriptor_bytes dev_desc = device_bytes"
  by (simp add: device_bytes_def device_descriptor_bytes_def dev_desc_def bytes16_def lo8_def hi8_def
    USB_DT_DEVICE_def USB_DT_DEVICE_SIZE_def USB_VERSION_1_1_def EP0_MAX_PACKET_def USB_VID_def
    USB_PID_def STRIDX_MFR_def STRIDX_PRODUCT_def STRIDX_SERIAL_def)

lemma config_bytes_eq: "config_bytes = Some config_bytes_list"
  by (simp add: config_bytes_returns config_bytes_list_def config_descriptor_bytes_def cfg_desc_def
    interface_descriptor_bytes_def ifc_desc_def dfu_descriptor_bytes_def dfu_func_desc_def
    bytes16_def lo8_def hi8_def USB_DT_CONFIG_def USB_DT_CONFIG_SIZE_def USB_DT_INTERFACE_SIZE_def
    USB_DT_INTERFACE_def USB_CONFIG_SELF_POWERED_def USB_DFU_CLASS_def USB_DFU_SUBCLASS_def
    USB_DFU_PROTOCOL_def STRIDX_DFUSE_def DFU_FUNCTIONAL_def USB_DFU_CAN_DOWNLOAD_def
    USB_DFU_CAN_UPLOAD_def USB_DFU_MANIFEST_TOLERANT_def USB_DFU_WILL_DETACH_def
    DFU_TRANSFER_SIZE_def)

lemma device_answer: "get_descriptor 0x0100 = Some (answer device_bytes)"
  by (simp add: get_descriptor_def USB_DT_DEVICE_def device_bytes_eq)

lemma config_answer: "get_descriptor 0x0200 = Some (answer config_bytes_list)"
  by (simp add: get_descriptor_def USB_DT_DEVICE_def USB_DT_CONFIG_def config_bytes_eq)

end
