(* ===== verification/Stage2.thy ===== *)
theory Stage2
  imports Startup Timer Gpio Memory_Config Usb_Dfu
begin

text \<open>
  The second stage as a whole: the entry code (\<^verbatim>\<open>src_stage2/stage2_entry.cpp\<close>) and the main function
  with its polling loop (end of \<^verbatim>\<open>src_stage2/dfu.cpp\<close>), over the models of the timer, the GPIO, the
  USB driver and the DFU handlers.

  One turn of the loop is \<open>main_step\<close>. Between two turns the world moves on: the timer interrupt may
  be taken and the USB peripheral may show a new event (\<open>world_step\<close>).
\<close>

section \<open>The state\<close>

record 'h stage2 =
  s2_timer :: timer
  s2_led :: bool
  s2_rdv :: u32
  s2_usb :: "'h mach dfu usb"

text \<open>The machine is below the DFU state, which is behind the USB driver.\<close>

definition s2_mach :: "'h stage2 \<Rightarrow> 'h mach" where
  "s2_mach s = plat (cls (s2_usb s))"

definition set_dfu :: "'h mach dfu \<Rightarrow> 'h stage2 \<Rightarrow> 'h stage2" where
  "set_dfu d s = s\<lparr>s2_usb := (s2_usb s)\<lparr>cls := d\<rparr>\<rparr>"

definition set_mach :: "'h mach \<Rightarrow> 'h stage2 \<Rightarrow> 'h stage2" where
  "set_mach m s = set_dfu ((cls (s2_usb s))\<lparr>plat := m\<rparr>) s"

definition on_mach :: "('h mach \<Rightarrow> 'h mach) \<Rightarrow> 'h stage2 \<Rightarrow> 'h stage2" where
  "on_mach f s = set_mach (f (s2_mach s)) s"

section \<open>Operations\<close>

definition stage2_toggle_led :: "'h bus \<Rightarrow> 'h stage2 \<Rightarrow> 'h stage2" where
  "stage2_toggle_led io s =
     (let state = \<not> s2_led s
      in on_mach (lnDigitalWrite io LED_PIN state) (s\<lparr>s2_led := state\<rparr>))"

text \<open>\<open>lnDelay\<close> as the USB driver calls it: on the timer and the machine below the DFU state.\<close>

definition stage2_delay ::
  "'h bus \<Rightarrow> ('h \<Rightarrow> bool \<times> 'h) \<Rightarrow> nat \<Rightarrow> timer \<times> 'h mach dfu \<Rightarrow> (timer \<times> 'h mach dfu) option" where
  "stage2_delay io fires n s = (case s of (t, d) \<Rightarrow> do {
     (t, m) \<leftarrow> lnDelay io fires (of_nat n) (t, plat d);
     Some (t, d\<lparr>plat := m\<rparr>) })"

text \<open>The part of \<open>stage2_main\<close> before the loop, up to the USB driver and with it.\<close>

definition stage2_hw_init :: "'h bus \<Rightarrow> clocks \<Rightarrow> 'h stage2 \<Rightarrow> 'h stage2" where
  "stage2_hw_init io g s =
     (let (t, m) = init_timer_irq io g (s2_timer s, s2_mach s);
          s = set_mach m (s\<lparr>s2_timer := t\<rparr>);
          s = on_mach (enable_periph io pGPIOA) s;
          s = on_mach (enable_periph io pGPIOB) s;
          s = on_mach (enable_periph io pGPIOC) s;
          s = on_mach (enable_periph io pUSBFS_OTG_CH32v3x) s;
          s = on_mach (lnPinMode io LED_PIN lnOUTPUT) s;
          s = stage2_toggle_led io s;
          s = set_dfu ((cls (s2_usb s))\<lparr>flash_end :=
                FLASH_START_ADDR + (FLASH_BOOTLDR_SIZE_KB + FLASH_APP_SIZE_KB) * 1024\<rparr>) s;
          s = on_mach (lnEnableInterrupt io LN_IRQ_SYSTICK) s
      in on_mach lnInterrupts s)"

definition stage2_init ::
  "'h bus \<Rightarrow> ('h \<Rightarrow> bool \<times> 'h) \<Rightarrow> clocks \<Rightarrow> 'h stage2 \<Rightarrow> 'h stage2 option" where
  "stage2_init io fires g s = do {
     let s = stage2_hw_init io g s;
     (t, u) \<leftarrow> usb_init (stage2_delay io fires) (s2_timer s, s2_usb s);
     Some (s\<lparr>s2_timer := t, s2_usb := u, s2_rdv := 0\<rparr>) }"

text \<open>A turn of the loop goes on or ends in the system reset, which does not return.\<close>

datatype 'h outcome =
  Running (outcome_state: "'h stage2")
| Reset (outcome_state: "'h stage2")

definition blink :: "'h bus \<Rightarrow> 'h stage2 \<Rightarrow> 'h stage2" where
  "blink io s =
     (let now = getTickCount (s2_timer s)
      in if now > s2_rdv s then stage2_toggle_led io (s\<lparr>s2_rdv := s2_rdv s + 100\<rparr>) else s)"

definition main_step :: "'h bus \<Rightarrow> 'h stage2 \<Rightarrow> 'h outcome option" where
  "main_step io s = do {
     let s = blink io s;
     u \<leftarrow> do_usb_poll (dfu_class (fmc_ops io)) (s2_usb s);
     let s = s\<lparr>s2_usb := u\<rparr>;
     let d = cls (s2_usb s);
     let s = (if state d = STATE_DFU_MANIFEST_SYNC
              then set_dfu (d\<lparr>state := STATE_DFU_MANIFEST_WAIT_RESET\<rparr>) s else s);
     let d = cls (s2_usb s);
     Some (if state d = STATE_DFU_MANIFEST_WAIT_RESET then Reset (on_mach (system_reset io) s)
           else if state d = STATE_APP_DETACH then Reset (on_mach (system_reset io) s)
           else Running s) }"

section \<open>The world between two turns\<close>

fun ticks :: "'h bus \<Rightarrow> ('h \<Rightarrow> bool \<times> 'h) \<Rightarrow> nat \<Rightarrow> timer \<times> 'h mach \<Rightarrow> timer \<times> 'h mach" where
  "ticks io fires 0 s = s"
| "ticks io fires (Suc n) s = ticks io fires n (take_irq io fires s)"

definition world_step ::
  "'h bus \<Rightarrow> ('h \<Rightarrow> bool \<times> 'h) \<Rightarrow> nat \<Rightarrow> usb_event \<Rightarrow> 'h stage2 \<Rightarrow> 'h stage2" where
  "world_step io fires n ev s =
     (let (t, m) = ticks io fires n (s2_timer s, s2_mach s); s = set_mach m (s\<lparr>s2_timer := t\<rparr>)
      in s\<lparr>s2_usb := deliver ev (s2_usb s)\<rparr>)"

text \<open>The loop over a list of what happens between its turns; a reset ends it.\<close>

fun main_loop ::
  "'h bus \<Rightarrow> ('h \<Rightarrow> bool \<times> 'h) \<Rightarrow> (nat \<times> usb_event) list \<Rightarrow> 'h stage2 \<Rightarrow> 'h outcome option" where
  "main_loop io fires [] s = Some (Running s)"
| "main_loop io fires ((n, ev) # evs) s =
     (case main_step io (world_step io fires n ev s) of
        None \<Rightarrow> None
      | Some (Reset s') \<Rightarrow> Some (Reset s')
      | Some (Running s') \<Rightarrow> main_loop io fires evs s')"

definition stage2_main ::
  "'h bus \<Rightarrow> ('h \<Rightarrow> bool \<times> 'h) \<Rightarrow> clocks \<Rightarrow> (nat \<times> usb_event) list \<Rightarrow> 'h stage2 \<Rightarrow> 'h outcome option"
where
  "stage2_main io fires g evs s = do {
     s \<leftarrow> stage2_init io fires g s;
     main_loop io fires evs s }"

section \<open>The entry\<close>

text \<open>
  The addresses the linker gives: the sections, the vector table and its handlers, and the buffers of
  the USB driver. The global constructors are code outside the repository: a parameter.
\<close>

record linked =
  lk_sections :: sections
  lk_vectors :: vectors
  lk_ep0_buffer :: u32
  lk_rx_buffer :: u32

definition stage2_reset_state :: "linked \<Rightarrow> 'h mach \<Rightarrow> 'h stage2" where
  "stage2_reset_state l m = \<lparr>s2_timer = timer_reset, s2_led = False, s2_rdv = 0,
     s2_usb = usb_reset_state (lk_ep0_buffer l) (lk_rx_buffer l) (dfu_init m)\<rparr>"

definition stage2_cpp_entry ::
  "'h bus \<Rightarrow> ('h \<Rightarrow> bool \<times> 'h) \<Rightarrow> ('h mach \<Rightarrow> 'h mach option) \<Rightarrow> linked \<Rightarrow> (nat \<times> usb_event) list \<Rightarrow>
   'h mach \<Rightarrow> 'h outcome option" where
  "stage2_cpp_entry io fires ctors l evs m = do {
     m \<leftarrow> stage2_sections io (lk_sections l) m;
     let g = lnInitSystemClock_limited \<lparr>SystemCoreClock = 0, rcuClockApb1 = 0, rcuClockApb2 = 0\<rparr>;
     m \<leftarrow> ctors m;
     let (vec_table, m) = stage2_irq_init io (lk_vectors l) m;
     stage2_main io fires g evs (stage2_reset_state l m) }"

end
