(* ===== verification/Devices.thy ===== *)
theory Devices
  imports Dfu
begin

text \<open>
  Concrete devices behind the bus, for the witnesses: they show that the hypotheses the theorems
  make about the hardware can hold. \<open>blank_bus\<close> is a chip whose flash reads as erased everywhere
  (the word \<open>0xE339E339\<close>), whose controller is never busy and reports every operation as ended.
\<close>

definition blank_bus :: "unit bus" where
  "blank_bus = \<lparr>bus_rd32 = (\<lambda>a d. (if a = FMC_STAT then FMC_STAT_WP_ENDF else 0, d)),
                bus_wr32 = (\<lambda>a v d. d),
                bus_mem8 = (\<lambda>d a. if odd a then 0xE3 else 0x39)\<rparr>"

definition blank_mach :: "unit mach" where
  "blank_mach = \<lparr>csr = (\<lambda>_. 0), ram = (\<lambda>_. 0), dev = ()\<rparr>"

lemma blank_drains: "fmc_drains blank_bus (\<lambda>_. 0)"
  by (auto simp: fmc_drains_def blank_bus_def FMC_STAT_WP_ENDF_def FMC_STAT_BUSY_def
    FMC_STAT_WR_BUSY_def)

lemma blank_rd32: "rd32 blank_bus a m = (if a = FMC_STAT then FMC_STAT_WP_ENDF else 0, m)"
  by (simp add: rd32_def blank_bus_def)

lemma blank_wr32: "wr32 blank_bus a v m = m"
  by (simp add: wr32_def blank_bus_def)

lemma blank_or_and [simp]: "or32 blank_bus a v m = m" "and32 blank_bus a v m = m"
  by (simp_all add: or32_def and32_def blank_rd32 blank_wr32)

lemma blank_flash8: "flash8 blank_bus m a = (if odd a then 0xE3 else 0x39)"
  by (simp add: flash8_def blank_bus_def)

lemma blank_wait [simp]:
  "fmc_wait_busy blank_bus m = Some m" "fmc_wait_wr_busy blank_bus m = Some m"
  by (simp_all add: fmc_wait_busy.simps [of blank_bus] fmc_wait_wr_busy.simps [of blank_bus]
    blank_rd32 FMC_STAT_WP_ENDF_def FMC_STAT_BUSY_def FMC_STAT_WR_BUSY_def)

lemma blank_unlock [simp]: "fmc_fast_unlock blank_bus m = m"
  by (simp add: fmc_fast_unlock_def blank_rd32 blank_wr32 FMC_STAT_def FMC_CTL_def FMC_BASE_def)

lemma even_four_times: "even (4 * w)" for w :: u32
  by (metis dvd_mult2 even_numeral)

lemma blank_page_erased [simp]:
  assumes "even a" shows "fmc_page_is_erased blank_bus a m"
proof -
  have e: "even ((a OR FLASH_ALIAS) + 4 * of_nat i)" for i
    using assms by (simp add: even_or_iff FLASH_ALIAS_def even_four_times)
  have "flash32 blank_bus m ((a OR FLASH_ALIAS) + 4 * of_nat i) = ERASED" for i
    using e [of i] by (simp add: flash32_def blank_flash8 ERASED_def le32_def even_four_times)
  then show ?thesis by (simp add: fmc_page_is_erased_iff)
qed

lemma blank_fill [simp]:
  "4 * n \<le> length (cp_bytes rd) \<Longrightarrow> fill_aligned blank_bus n p rd m = Some m"
proof (induction n arbitrary: p rd)
  case (Suc n)
  then have "4 \<le> length (cp_bytes rd)" by simp
  then obtain w where "cp_rd32 rd = Some w" by (rule cp_rd32_returns)
  with Suc show ?case by (simp add: blank_wr32)
qed simp

abbreviation irq_cycle :: "'h mach \<Rightarrow> 'h mach" where
  "irq_cycle m \<equiv> csrs MSTATUS MIE_BIT (csrc MSTATUS MIE_BIT m)"

lemma blank_write_block [simp]:
  "256 \<le> length (cp_bytes d) \<Longrightarrow> fmc_write_block blank_bus a d m = Some (True, irq_cycle m)"
  by (simp add: fmc_write_block_def AutoNoInterrupt_def Let_def fill_unaligned_eq_aligned blank_rd32
    blank_wr32 FMC_STAT_WP_ENDF_def FMC_STAT_PG_ERR_def FMC_STAT_WP_ERR_def)

lemma blank_erase_page [simp]:
  "even a \<Longrightarrow> fmc_erase_page blank_bus a m = Some (True, irq_cycle m)"
  using blank_page_erased [of a]
  by (simp add: fmc_erase_page_def AutoNoInterrupt_def blank_rd32 blank_wr32 FMC_STAT_WP_ENDF_def
    FMC_STAT_PG_ERR_def FMC_STAT_WP_ERR_def fmc_page_is_erased_def)

text \<open>A bootloader with the address pointer at the application, waiting for block 2.\<close>

definition blank_dfu :: "unit mach dfu" where
  "blank_dfu = (dfu_init blank_mach)\<lparr>state := STATE_DFU_DNLOAD_SYNC, dfu_address := 0x4000,
                 dfu_block_num := 2, flash_end := 0x40000\<rparr>"

lemma blank_dfu_simps [simp]:
  "flash_end blank_dfu = 0x40000" "dfu_address blank_dfu = 0x4000" "dfu_block_num blank_dfu = 2"
  "plat blank_dfu = blank_mach"
  by (simp_all add: blank_dfu_def dfu_init_def)

definition blank_data :: cptr where
  "blank_data = \<lparr>cp_addr = 0x20009000,
                 cp_bytes = [0x39, 0xE3, 0x39, 0xE3] @ replicate 4092 0\<rparr>"

lemma blank_data_simps [simp]:
  "length (cp_bytes blank_data) = 4096" "cp_addr blank_data = 0x20009000"
  by (simp_all add: blank_data_def)

lemma blank_write_run:
  "dfu_handle_data (fmc_ops blank_bus) blank_data 4 blank_dfu =
     Some (blank_dfu\<lparr>plat := irq_cycle blank_mach, status := DFU_STATUS_OK\<rparr>)"
proof -
  have E: "erase_dirty_pages (fmc_ops blank_bus) 0x4000 0x4004 m = Some (True, m)" for m
    by (simp add: erase_dirty_pages.simps [of _ "0x4000"] erase_dirty_pages.simps [of _ "0x4100"]
      FLASH_SECTOR_SIZE_def)
  have W: "fmc_write blank_bus 0x4000 blank_data 4 m = Some (True, irq_cycle m)" for m
    by (simp add: fmc_write_def write_blocks.simps [of _ "0x4000"]
      write_blocks.simps [of _ "0x4100"])
  have V: "fmc_verify blank_bus 0x4000 blank_data 4 m = Some True" for m
    by (simp add: fmc_verify_def eval_nat_numeral cp_rd8_def blank_data_def blank_flash8
      FLASH_ALIAS_def)
  show ?thesis
    using E W V
    by (simp add: dfu_handle_data_def dfu_write_block_def write_address_def page_base_def
      blank_dfu_def dfu_init_def FLASH_SECTOR_SIZE_def)
qed

end
