(* ===== verification/Trace.thy ===== *)
theory Trace
  imports Prelude
begin

text \<open>
  A bus that records the register writes, in the order the code makes them, on top of an arbitrary
  bus. The models are parametric in the bus, so a statement about their trace holds for every
  device; the order of writes is what the manual of the chip prescribes for clock, flash and timer.
\<close>

definition traced :: "'h bus \<Rightarrow> ('h \<times> (u32 \<times> u32) list) bus" where
  "traced io =
     \<lparr>bus_rd32 = \<lambda>a (d, tr). (case bus_rd32 io a d of (v, d') \<Rightarrow> (v, d', tr)),
      bus_wr32 = \<lambda>a v (d, tr). (bus_wr32 io a v d, tr @ [(a, v)]),
      bus_mem8 = \<lambda>(d, tr). bus_mem8 io d\<rparr>"

definition trace :: "('h \<times> (u32 \<times> u32) list) mach \<Rightarrow> (u32 \<times> u32) list" where
  "trace m = snd (dev m)"

lemma trace_wr32 [simp]: "trace (wr32 (traced io) a v m) = trace m @ [(a, v)]"
  by (cases "dev m") (simp add: trace_def wr32_def traced_def)

lemma trace_rd32: "rd32 (traced io) a m = (v, m') \<Longrightarrow> trace m' = trace m"
  by (cases "dev m") (auto simp: trace_def rd32_def traced_def split: prod.splits)

lemma trace_or32:
  obtains w where "trace (or32 (traced io) a v m) = trace m @ [(a, w OR v)]"
  by (cases "rd32 (traced io) a m") (auto simp: or32_def dest: trace_rd32)

lemma trace_and32:
  obtains w where "trace (and32 (traced io) a v m) = trace m @ [(a, w AND v)]"
  by (cases "rd32 (traced io) a m") (auto simp: and32_def dest: trace_rd32)

lemma trace_csr [simp]:
  "trace (csrw r v m) = trace m" "trace (csrs r v m) = trace m" "trace (csrc r v m) = trace m"
  by (simp_all add: trace_def)

lemma trace_or32_addr [simp]:
  "map fst (trace (or32 (traced io) a v m)) = map fst (trace m) @ [a]"
  by (rule trace_or32 [of io a v m]) simp

lemma trace_and32_addr [simp]:
  "map fst (trace (and32 (traced io) a v m)) = map fst (trace m) @ [a]"
  by (rule trace_and32 [of io a v m]) simp

end
