(* ===== verification/Timer_Props.thy ===== *)
theory Timer_Props
  imports Timer Trace
begin

text \<open>
  The interrupt controller set-up and the time base: what the set-up of the vectors and priorities
  leaves, that the 64-bit counter is read consistently across a carry, and how long the delays wait.
\<close>

section \<open>Priorities and vectors\<close>

lemma bit_byte32: "bit (byte32 i w) k \<longleftrightarrow> k < 8 \<and> bit w (8 * i + k)"
  by (auto simp: byte32_def bit_ucast_iff bit_drop_bit_eq)

lemma prio_word_byte:
  assumes "i < 4" "prio < 16"
  shows "byte32 i (prio_word irq prio b) =
     (if i = irq_num irq mod 4 then ucast (push_bit 4 prio) else byte32 i b)"
proof (rule bit_word_eqI)
  fix k assume k: "k < LENGTH(8)"
  let ?j = "irq_num irq mod 4"
  have ff: "bit (0xff :: u32) n \<longleftrightarrow> n < 8" for n
  proof -
    have eq: "(0xff :: u32) = mask 8" by (simp add: mask_eq_exp_minus_1)
    show ?thesis unfolding eq by (auto simp: bit_mask_iff)
  qed
  have hi: "\<not> bit prio n" if "4 \<le> n" for n
  proof -
    have "prio = take_bit 4 prio" using assms(2)
      by (simp add: word_unat_eq_iff unsigned_take_bit_eq take_bit_nat_eq_self word_less_nat_alt)
    with that show ?thesis by (metis bit_take_bit_iff not_le)
  qed
  have "bit (prio_word irq prio b) n \<longleftrightarrow>
      bit b n \<and> \<not> (8 * ?j \<le> n \<and> n < 8 * ?j + 8) \<or> 8 * ?j + 4 \<le> n \<and> bit prio (n - (8 * ?j + 4))"
    if "n < 32" for n using that
    by (auto simp: prio_word_def Let_def bit_or_iff bit_and_iff bit_not_iff bit_push_bit_iff ff
      push_bit_push_bit algebra_simps simp del: bit_numeral_word_iff)
  from this [of "8 * i + k"] show "bit (byte32 i (prio_word irq prio b)) k =
      bit (if i = ?j then ucast (push_bit 4 prio) else byte32 i b) k"
    using k assms(1) hi by (auto simp: bit_byte32 bit_ucast_iff bit_push_bit_iff)
qed

lemma init_vec_table_nth:
  assumes "i < VEC_TABLE_SIZE"
  shows "init_vec_table l ! i =
     (if i = PFIC_VECTOR_SYSTICK then systick_vector l else default_vector l)"
  using assms by (simp add: init_vec_table_def nth_list_update)

lemma length_init_vec_table [simp]: "length (init_vec_table l) = VEC_TABLE_SIZE"
  by (simp add: init_vec_table_def)

lemma trace_set_priorities:
  assumes "n \<le> PFIC_IPRIOIR_COUNT"
  shows "trace (set_priorities (traced io) p n m) = trace m @
     map (\<lambda>i. (PFIC_IPRIOIR + 4 * of_nat i, p)) [PFIC_IPRIOIR_COUNT - n ..< PFIC_IPRIOIR_COUNT]"
  using assms
proof (induction n arbitrary: m)
  case (Suc n)
  then have "[PFIC_IPRIOIR_COUNT - Suc n ..< PFIC_IPRIOIR_COUNT] =
      (PFIC_IPRIOIR_COUNT - Suc n) # [PFIC_IPRIOIR_COUNT - n ..< PFIC_IPRIOIR_COUNT]"
    by (subst upt_conv_Cons) (auto simp: Suc_diff_Suc)
  with Suc show ?case by simp
qed simp

lemma csr_set_priorities [simp]: "csr (set_priorities io p n m) = csr m"
  by (induction n arbitrary: m) auto

section \<open>The 64-bit counter\<close>

text \<open>
  \<open>free_running io T k\<close>: the counter registers show the two halves of \<open>T d\<close>, which never goes back
  and advances by at most \<open>k\<close> from one access to the next.
\<close>

definition free_running :: "'h bus \<Rightarrow> ('h \<Rightarrow> nat) \<Rightarrow> nat \<Rightarrow> bool" where
  "free_running io T k \<longleftrightarrow>
     (\<forall>a d. T d \<le> T (snd (bus_rd32 io a d)) \<and> T (snd (bus_rd32 io a d)) \<le> T d + k) \<and>
     (\<forall>d. fst (bus_rd32 io STK_CTN_LO d) = of_nat (T d)) \<and>
     (\<forall>d. fst (bus_rd32 io STK_CTN_HI d) = of_nat (T d div 2 ^ 32))"

lemma free_running_rd:
  assumes "free_running io T k" "rd32 io a m = (v, m')"
  shows "T (dev m) \<le> T (dev m')" "T (dev m') \<le> T (dev m) + k"
    "a = STK_CTN_LO \<longrightarrow> v = of_nat (T (dev m))"
    "a = STK_CTN_HI \<longrightarrow> v = of_nat (T (dev m) div 2 ^ 32)"
proof -
  have "v = fst (bus_rd32 io a (dev m))" "dev m' = snd (bus_rd32 io a (dev m))"
    using assms(2) by (auto simp: rd32_def split: prod.splits)
  with assms(1) show "T (dev m) \<le> T (dev m')" "T (dev m') \<le> T (dev m) + k"
    "a = STK_CTN_LO \<longrightarrow> v = of_nat (T (dev m))"
    "a = STK_CTN_HI \<longrightarrow> v = of_nat (T (dev m) div 2 ^ 32)"
    unfolding free_running_def by auto
qed

lemma of_nat_high_eq:
  assumes "(of_nat (a div 2 ^ 32) :: u32) = of_nat (b div 2 ^ 32)" "a < 2 ^ 64" "b < 2 ^ 64"
  shows "a div 2 ^ 32 = b div 2 ^ 32"
proof -
  have "a div 2 ^ 32 < 2 ^ 32" "b div 2 ^ 32 < 2 ^ 32" using assms(2,3) by (simp_all add: less_mult_imp_div_less)
  with assms(1) show ?thesis
    by (simp add: word_of_nat_eq_iff take_bit_nat_eq_self)
qed

lemma combine_halves:
  assumes "h = b div 2 ^ 32" "b < 2 ^ 64"
  shows "unat (push_bit 32 (ucast (of_nat h :: u32)) + ucast (of_nat b :: u32) :: u64) = b"
proof -
  have h: "h < 2 ^ 32" using assms by (simp add: less_mult_imp_div_less)
  then have "push_bit 32 (ucast (of_nat h :: u32)) = (of_nat (h * 2 ^ 32) :: u64)"
    by (simp add: push_bit_eq_mult unsigned_of_nat take_bit_nat_eq_self)
  moreover have "(ucast (of_nat b :: u32) :: u64) = of_nat (b mod 2 ^ 32)"
    by (simp add: unsigned_of_nat take_bit_eq_mod)
  ultimately have "push_bit 32 (ucast (of_nat h :: u32)) + ucast (of_nat b :: u32) =
      (of_nat (h * 2 ^ 32 + b mod 2 ^ 32) :: u64)" by simp
  also have "h * 2 ^ 32 + b mod 2 ^ 32 = b" using assms(1) by simp
  finally show ?thesis using assms(2) by (simp add: unat_of_nat take_bit_nat_eq_self)
qed

text \<open>One round of the loop: it ends with the value at the low read, or a carry lies between the two
  high reads.\<close>

lemma cycle64_round:
  assumes free: "free_running io T k" and small: "T (dev m) + 3 * k < 2 ^ 64"
  obtains m' r where "T (dev m) \<le> T (dev m')" "T (dev m') \<le> T (dev m) + 3 * k"
    "lnGetCycle64 io m = Some (r, m')" "T (dev m) \<le> unat r" "unat r \<le> T (dev m')"
  | m' where "T (dev m) \<le> T (dev m')" "T (dev m') \<le> T (dev m) + 3 * k"
    "lnGetCycle64 io m = lnGetCycle64 io m'"
    "\<exists>t. T (dev m) div 2 ^ 32 < t div 2 ^ 32 \<and> t \<le> T (dev m) + 2 * k \<and> t \<le> T (dev m')"
proof -
  obtain h m1 where 1: "rd32 io STK_CTN_HI m = (h, m1)" by force
  obtain l m2 where 2: "rd32 io STK_CTN_LO m1 = (l, m2)" by force
  obtain h' m3 where 3: "rd32 io STK_CTN_HI m2 = (h', m3)" by force
  note f1 = free_running_rd [OF free 1] and f2 = free_running_rd [OF free 2]
    and f3 = free_running_rd [OF free 3]
  have bounds: "T (dev m) \<le> T (dev m3)" "T (dev m3) \<le> T (dev m) + 3 * k"
    using f1 f2 f3 by linarith+
  show thesis
  proof (cases "h = h'")
    case True
    have "T (dev m) div 2 ^ 32 = T (dev m2) div 2 ^ 32"
      using True f1 f2 f3 small by (intro of_nat_high_eq) auto
    moreover have "T (dev m) div 2 ^ 32 \<le> T (dev m1) div 2 ^ 32"
      "T (dev m1) div 2 ^ 32 \<le> T (dev m2) div 2 ^ 32" using f1(1) f2(1) by (auto intro: div_le_mono)
    ultimately have "unat (push_bit 32 (ucast h) + ucast l :: u64) = T (dev m1)"
      using f1 f2 small by (auto intro!: combine_halves)
    then have "T (dev m) \<le> unat (push_bit 32 (ucast h) + ucast l :: u64)"
      "unat (push_bit 32 (ucast h) + ucast l :: u64) \<le> T (dev m3)" using f1 f2 f3 by linarith+
    moreover have "lnGetCycle64 io m = Some (push_bit 32 (ucast h) + ucast l, m3)"
      using True 1 2 3 by (subst lnGetCycle64.simps) simp
    ultimately show thesis using that(1) [OF bounds] by blast
  next
    case False
    then have "T (dev m) div 2 ^ 32 \<noteq> T (dev m2) div 2 ^ 32" using f1 f3 by auto
    moreover have "T (dev m) \<le> T (dev m2)" using f1 f2 by linarith
    ultimately have carry: "T (dev m) div 2 ^ 32 < T (dev m2) div 2 ^ 32"
      using div_le_mono by (metis le_neq_implies_less)
    have "T (dev m2) \<le> T (dev m) + 2 * k" "T (dev m2) \<le> T (dev m3)" using f1 f2 f3 by linarith+
    with carry have ex: "\<exists>t. T (dev m) div 2 ^ 32 < t div 2 ^ 32 \<and> t \<le> T (dev m) + 2 * k \<and>
        t \<le> T (dev m3)" by blast
    have "lnGetCycle64 io m = lnGetCycle64 io m3"
      using False 1 2 3 by (subst lnGetCycle64.simps) simp
    from that(2) [OF bounds this ex] show thesis .
  qed
qed

lemma no_second_carry:
  fixes a b t u :: nat
  assumes "a div 2 ^ 32 < t div 2 ^ 32" "t \<le> b" "b \<le> a + 3 * k" "b div 2 ^ 32 < u div 2 ^ 32"
    "u \<le> b + 2 * k" "5 * k < 2 ^ 32"
  shows False
proof -
  have "a < t div 2 ^ 32 * 2 ^ 32"
    using assms(1) by (simp add: div_less_iff_less_mult)
  moreover have "t div 2 ^ 32 \<le> b div 2 ^ 32" using assms(2) by (rule div_le_mono)
  then have "(t div 2 ^ 32 + 1) * 2 ^ 32 \<le> u"
    using assms(4) by (simp add: less_eq_div_iff_mult_less_eq [symmetric])
  ultimately show False using assms(3,5,6) by (simp add: algebra_simps)
qed

lemma lnGetCycle64_reads:
  assumes free: "free_running io T k" and "5 * k < 2 ^ 32" "T (dev m) + 6 * k < 2 ^ 64"
  shows "\<exists>r m'. lnGetCycle64 io m = Some (r, m') \<and> T (dev m) \<le> unat r \<and> unat r \<le> T (dev m')"
proof (rule cycle64_round [OF free, of m])
  show "T (dev m) + 3 * k < 2 ^ 64" using assms(3) by linarith
next
  fix m1 assume m1: "T (dev m) \<le> T (dev m1)" "T (dev m1) \<le> T (dev m) + 3 * k"
    "lnGetCycle64 io m = lnGetCycle64 io m1"
    "\<exists>t. T (dev m) div 2 ^ 32 < t div 2 ^ 32 \<and> t \<le> T (dev m) + 2 * k \<and> t \<le> T (dev m1)"
  show ?thesis
  proof (rule cycle64_round [OF free, of m1])
    show "T (dev m1) + 3 * k < 2 ^ 64" using m1(2) assms(3) by linarith
  next
    fix m2 r assume "lnGetCycle64 io m1 = Some (r, m2)" "T (dev m1) \<le> unat r" "unat r \<le> T (dev m2)"
    with m1 show ?thesis by (metis order_trans)
  next
    fix m2 assume "\<exists>u. T (dev m1) div 2 ^ 32 < u div 2 ^ 32 \<and> u \<le> T (dev m1) + 2 * k \<and> u \<le> T (dev m2)"
    with m1 assms(2) no_second_carry have False by blast
    then show ?thesis ..
  qed
qed blast

section \<open>Delays in milliseconds\<close>

text \<open>The timer interrupt comes again and again: \<open>f\<close> bounds the polls until the next one.\<close>

definition irq_fires :: "('h \<Rightarrow> bool \<times> 'h) \<Rightarrow> ('h \<Rightarrow> nat) \<Rightarrow> bool" where
  "irq_fires fires f \<longleftrightarrow> (\<forall>d. fst (fires d) \<or> f (snd (fires d)) < f d)"

lemma take_irq_fired:
  assumes "irq_enabled m" "fst (fires (dev m))"
  shows "take_irq io fires (t, m) = systick_isr io (t, m\<lparr>dev := snd (fires (dev m))\<rparr>)"
  using assms by (simp add: take_irq_def case_prod_beta)

lemma take_irq_quiet:
  assumes "\<not> fst (fires (dev m)) \<or> \<not> irq_enabled m"
  shows "take_irq io fires (t, m) = (t, m\<lparr>dev := snd (fires (dev m))\<rparr>)"
  using assms by (auto simp: take_irq_def case_prod_beta)

lemma irq_enabled_dev [simp]: "irq_enabled (m\<lparr>dev := d\<rparr>) = irq_enabled m"
  by (simp add: irq_enabled_def)

lemma irq_enabled_wr32 [simp]: "irq_enabled (wr32 io a v m) = irq_enabled m"
  by (simp add: irq_enabled_def)

definition ticked :: "u32 \<Rightarrow> timer \<times> 'h mach \<Rightarrow> timer \<times> 'h mach \<Rightarrow> bool" where
  "ticked u s s' \<longleftrightarrow> fst s' = (fst s)\<lparr>sys_tick_count := u\<rparr> \<and>
     csr (snd s') = csr (snd s) \<and> ram (snd s') = ram (snd s)"

lemma delay_loop_returns:
  assumes fires: "irq_fires fires f"
  shows "irq_enabled m \<Longrightarrow> sys_tick_count t \<le> u \<Longrightarrow>
    \<exists>s'. delay_loop io fires u (t, m) = Some s' \<and> ticked u (t, m) s'"
proof (induction "unat u - unat (sys_tick_count t)" arbitrary: t m)
  case 0
  then have "sys_tick_count t = u" by (simp add: word_le_nat_alt word_unat_eq_iff)
  then show ?case by (subst delay_loop.simps) (auto simp: ticked_def)
next
  case (Suc n)
  note outer = Suc.hyps(1)
  from Suc.hyps(2) have less: "sys_tick_count t < u" by (simp add: word_less_nat_alt)
  then have step: "unat (sys_tick_count t + 1) = unat (sys_tick_count t) + 1"
    using unat_step_below [of "sys_tick_count t" u 1] unsigned_less [where ?'a = nat, of u] by simp
  with less have le: "sys_tick_count t + 1 \<le> u" by (simp add: word_less_nat_alt word_le_nat_alt)
  from step Suc.hyps(2) have n: "n = unat u - unat (sys_tick_count t + 1)" by simp
  from \<open>irq_enabled m\<close> show ?case
  proof (induction "f (dev m)" arbitrary: m rule: less_induct)
    case (less m)
    obtain p d where fd: "fires (dev m) = (p, d)" by force
    let ?t = "t\<lparr>sys_tick_count := sys_tick_count t + 1\<rparr>"
    let ?m = "wr32 io STK_SR 0 (m\<lparr>dev := d\<rparr>)"
    note unfold = delay_loop.simps [of io fires u "(t, m)"]
    show ?case
    proof (cases p)
      case True
      have "\<exists>s'. delay_loop io fires u (?t, ?m) = Some s' \<and> ticked u (?t, ?m) s'"
        using outer [of ?t ?m] n le less.prems by simp
      with True fd \<open>sys_tick_count t < u\<close> less.prems show ?thesis
        by (auto simp: unfold take_irq_fired systick_isr_def ticked_def)
    next
      case False
      with fires fd have "f d < f (dev m)" by (metis fst_conv irq_fires_def snd_conv)
      with less.hyps [of "m\<lparr>dev := d\<rparr>"] less.prems have
        "\<exists>s'. delay_loop io fires u (t, m\<lparr>dev := d\<rparr>) = Some s' \<and> ticked u (t, m\<lparr>dev := d\<rparr>) s'"
        by simp
      with False fd \<open>sys_tick_count t < u\<close> show ?thesis
        by (auto simp: unfold take_irq_quiet ticked_def)
    qed
  qed
qed

lemma delay_loop_masked:
  "delay_loop io fires u s = Some s' \<Longrightarrow> \<not> irq_enabled (snd s) \<Longrightarrow> \<not> sys_tick_count (fst s) < u"
proof (rule delay_loop.raw_induct [where
    P = "\<lambda>io fires u s s'. \<not> irq_enabled (snd s) \<longrightarrow> \<not> sys_tick_count (fst s) < u", THEN mp])
  show "\<And>f io fires u s s'.
       (\<And>io fires u s s'. f io fires u s = Some s' \<Longrightarrow>
          \<not> irq_enabled (snd s) \<longrightarrow> \<not> sys_tick_count (fst s) < u) \<Longrightarrow>
       (if sys_tick_count (fst s) < u then f io fires u (take_irq io fires s) else Some s) = Some s' \<Longrightarrow>
       \<not> irq_enabled (snd s) \<longrightarrow> \<not> sys_tick_count (fst s) < u"
    by (fastforce simp: take_irq_def split: if_splits prod.splits)
qed auto

section \<open>Delays in microseconds\<close>

text \<open>
  \<open>reloading io b\<close>: the counter restarts before it passes \<open>b\<close>, as it does with the autoreload
  \<open>init_timer_irq\<close> sets up.
\<close>

definition reloading :: "'h bus \<Rightarrow> nat \<Rightarrow> bool" where
  "reloading io b \<longleftrightarrow> (\<forall>d. fst (bus_rd32 io STK_CTN_HI d) = 0 \<and>
     unat (fst (bus_rd32 io STK_CTN_LO d)) \<le> b)"

lemma reloading_cycle64:
  assumes "reloading io b"
  shows "\<exists>r m'. lnGetCycle64 io m = Some (r, m') \<and> unat r \<le> b"
proof -
  obtain h m1 where 1: "rd32 io STK_CTN_HI m = (h, m1)" by force
  obtain l m2 where 2: "rd32 io STK_CTN_LO m1 = (l, m2)" by force
  obtain h' m3 where 3: "rd32 io STK_CTN_HI m2 = (h', m3)" by force
  have "h = fst (bus_rd32 io STK_CTN_HI (dev m))" "h' = fst (bus_rd32 io STK_CTN_HI (dev m2))"
    "l = fst (bus_rd32 io STK_CTN_LO (dev m1))"
    using 1 2 3 by (auto simp: rd32_def split: prod.splits)
  with assms have "h = 0" "h' = 0" "unat l \<le> b" by (auto simp: reloading_def)
  with 1 2 3 show ?thesis by (subst lnGetCycle64.simps) simp
qed

lemma reloading_us64:
  assumes "reloading io b" "lnGetUs64 io t m = Some (us, m')"
  shows "unat us \<le> b div unat (tickPerUs t)"
proof -
  obtain r m1 where "lnGetCycle64 io m = Some (r, m1)" "unat r \<le> b"
    using reloading_cycle64 [OF assms(1)] by blast
  with assms(2) show ?thesis
    by (auto simp: lnGetUs64_def unat_div_distrib div_le_mono split: if_splits)
qed

lemma delay_us_never:
  assumes b: "reloading io b" and "b div unat (tickPerUs t) < unat target"
  shows "delay_us_loop io t target m = None"
proof (rule ccontr)
  assume "delay_us_loop io t target m \<noteq> None"
  then obtain m' where run: "delay_us_loop io t target m = Some m'" by blast
  have "\<not> (io = io \<and> reloading io b \<and> b div unat (tickPerUs t) < unat target)"
  proof (rule delay_us_loop.raw_induct [OF _ run, where
      P = "\<lambda>io t target m m'. \<not> (io = io \<and> reloading io b \<and> b div unat (tickPerUs t) < unat target)"])
    fix f and io :: "'b bus" and t target m m'
    assume IH: "\<And>(io :: 'b bus) t target m m'. f io t target m = Some m' \<Longrightarrow>
        \<not> (io = io \<and> reloading io b \<and> b div unat (tickPerUs t) < unat target)"
      and run: "Option.bind (lnGetUs64 io t m)
        (\<lambda>(us, m). if us < target then f io t target m else Some m) = Some m'"
    from run obtain us m1 where us: "lnGetUs64 io t m = Some (us, m1)"
      and rest: "(if us < target then f io t target m1 else Some m1) = Some m'"
      by (auto elim!: bind_SomeE)
    show "\<not> (io = io \<and> reloading io b \<and> b div unat (tickPerUs t) < unat target)"
    proof (cases "us < target")
      case True
      with rest IH show ?thesis by simp
    next
      case False
      then have "unat target \<le> unat us" by (simp add: word_less_nat_alt)
      with reloading_us64 [OF _ us] show ?thesis by (meson leD le_trans)
    qed
  qed
  with assms show False by simp
qed

section \<open>Set-up\<close>

lemma u64_halves:
  "push_bit 32 (ucast (ucast (drop_bit 32 w) :: u32)) OR ucast (ucast (w AND 0xFFFFFFFF) :: u32) = w"
  for w :: u64
proof (rule bit_word_eqI)
  fix n assume n: "n < LENGTH(64)"
  have low: "(0xFFFFFFFF :: u64) = mask 32" by (simp add: mask_eq_exp_minus_1)
  show "bit (push_bit 32 (ucast (ucast (drop_bit 32 w) :: u32)) OR
      ucast (ucast (w AND 0xFFFFFFFF) :: u32) :: u64) n = bit w n"
    using n unfolding low
    by (cases "n < 32") (auto simp: bit_or_iff bit_push_bit_iff bit_ucast_iff bit_drop_bit_eq
      bit_and_iff bit_mask_iff)
qed

lemma init_timer_irq_trace:
  assumes "init_timer_irq (traced io) g s = (t', m')"
  shows "\<exists>lo hi m1 m2 chi clo. rd32 (traced io) STK_CTN_LO (snd s) = (lo, m1) \<and>
     rd32 (traced io) STK_CTN_HI m1 = (hi, m2) \<and>
     trace m' = trace (snd s) @ [(STK_CMP_HI, chi), (STK_CMP_LO, clo), (STK_CTLR, 0x2F)] \<and>
     (push_bit 32 (ucast chi) OR ucast clo :: u64) =
       (ucast lo OR push_bit 32 (ucast hi)) + ucast (SystemCoreClock g div 1000)"
proof -
  obtain lo m1 where 1: "rd32 (traced io) STK_CTN_LO (snd s) = (lo, m1)" by force
  obtain hi m2 where 2: "rd32 (traced io) STK_CTN_HI m1 = (hi, m2)" by force
  let ?cmp = "(ucast lo OR push_bit 32 (ucast hi)) + ucast (SystemCoreClock g div 1000) :: u64"
  have "SYSTICK_STEN OR SYSTICK_STIE OR SYSTICK_STCLK OR SYSTICK_MODE_UP OR SYSTICK_INIT OR
      SYSTICK_STRE = 0x2F"
    by (simp add: SYSTICK_STEN_def SYSTICK_STIE_def SYSTICK_STCLK_def SYSTICK_MODE_UP_def
      SYSTICK_INIT_def SYSTICK_STRE_def)
  with assms 1 2 have "trace m' = trace (snd s) @ [(STK_CMP_HI, ucast (drop_bit 32 ?cmp)),
      (STK_CMP_LO, ucast (?cmp AND 0xFFFFFFFF)), (STK_CTLR, 0x2F)]"
    by (auto simp: init_timer_irq_def Let_def trace_rd32 [OF 1] trace_rd32 [OF 2])
  with 1 2 u64_halves [of ?cmp] show ?thesis by blast
qed

lemma init_timer_irq_timer:
  "init_timer_irq io g s = (t', m') \<Longrightarrow>
     t' = lnSystemTimerInit g (fst s) \<and> csr m' = csr (snd s) \<and> ram m' = ram (snd s)"
  by (auto simp: init_timer_irq_def Let_def split: prod.splits dest!: rd32_frameD)

lemma stage2_irq_init_trace:
  assumes "stage2_irq_init (traced io) l m = (table, m')"
  shows "\<exists>c. trace m' = trace m @ map (\<lambda>i. (PFIC_IPRIOIR + 4 * of_nat i, 0x50505050)) [0 ..< 64] @
    [(PFIC_CFGR, c OR PFIC_CFGR_VECTORED)]"
proof -
  let ?m = "csrw CSR_INTSYSCR INTSYSCR_VALUE (csrw CSR_MIE MIE_MEIE (csrw CSR_INTMASK INTMASK_VALUE m))"
  let ?p = "PFIC_PRIO PFIC_DEFAULT_PRIO * 0x01010101"
  obtain c where "trace (or32 (traced io) PFIC_CFGR PFIC_CFGR_VECTORED
      (set_priorities (traced io) ?p PFIC_IPRIOIR_COUNT ?m)) =
    trace (set_priorities (traced io) ?p PFIC_IPRIOIR_COUNT ?m) @ [(PFIC_CFGR, c OR PFIC_CFGR_VECTORED)]"
    by (rule trace_or32)
  moreover have "?p = 0x50505050" by (simp add: PFIC_PRIO_def PFIC_DEFAULT_PRIO_def)
  ultimately show ?thesis
    using assms trace_set_priorities [of PFIC_IPRIOIR_COUNT io ?p ?m]
    by (auto simp: stage2_irq_init_def Let_def PFIC_IPRIOIR_COUNT_def)
qed

lemma stage2_irq_init_csr:
  assumes "stage2_irq_init io l m = (table, m')"
  shows "csr m' = (csr m)(CSR_INTMASK := 0x1D, CSR_MIE := 0x800, CSR_INTSYSCR := 0x16,
    CSR_MTVEC := vec_table_addr l OR 3)" "table = init_vec_table l"
  using assms
  by (auto simp: stage2_irq_init_def Let_def csrw_def INTMASK_VALUE_def CSR_BC0_MSIE_def
    CSR_BC0_MEIE_def CSR_BC0_OTHER_def MIE_MEIE_def INTSYSCR_VALUE_def INTSYSCR_INESTEN_def
    INTSYSCR_MPTCFG_2_def INTSYSCR_HWSTKOVEN_def MTVEC_WCH_VECTORED_def)

section \<open>Properties\<close>

text \<open>A counter that advances by one tick per access, one tick before a carry into the high word.\<close>

definition tick_bus :: "nat bus" where
  "tick_bus = \<lparr>bus_rd32 = \<lambda>a n. (if a = STK_CTN_LO then of_nat n
       else if a = STK_CTN_HI then of_nat (n div 2 ^ 32) else 0, n + 1),
     bus_wr32 = \<lambda>a v n. n, bus_mem8 = \<lambda>n a. 0\<rparr>"

definition tick_mach :: "nat mach" where
  "tick_mach = \<lparr>csr = \<lambda>_. MIE_BIT, ram = \<lambda>_. 0, dev = 4294967295\<rparr>"

lemma STK_addr_neq [simp]: "STK_CTN_HI \<noteq> STK_CTN_LO" "STK_CTN_LO \<noteq> STK_CTN_HI"
  by (simp_all add: STK_CTN_HI_def STK_CTN_LO_def LN_STK_ADR_def)

lemma tick_free: "free_running tick_bus (\<lambda>n. n) 1"
  by (simp add: free_running_def tick_bus_def)



text \<open>C29: with interrupts enabled and a timer that keeps firing, lnDelay returns after exactly
  \<open>wait\<close> timer interrupts, as long as the tick counter does not overflow; RAM and the control
  registers are as before.\<close>

theorem delay_waits:
  assumes "irq_fires fires f" and "irq_enabled m"
    and "unat (sys_tick_count t) + unat wait < 2 ^ 32"
  shows "\<exists>t' m'. lnDelay io fires wait (t, m) = Some (t', m') \<and>
     unat (sys_tick_count t') = unat (sys_tick_count t) + unat wait \<and> tickPerUs t' = tickPerUs t \<and>
     csr m' = csr m \<and> ram m' = ram m"
proof -
  have sum: "unat (sys_tick_count t + wait) = unat (sys_tick_count t) + unat wait"
    using assms(3) by (intro unat_add_small) simp
  then have "sys_tick_count t \<le> sys_tick_count t + wait" by (simp add: word_le_nat_alt)
  from delay_loop_returns [OF assms(1,2) this, of io] obtain s' where
    "lnDelay io fires wait (t, m) = Some s'" "ticked (sys_tick_count t + wait) (t, m) s'"
    by (auto simp: lnDelay_def)
  with sum show ?thesis by (cases s') (auto simp: ticked_def)
qed

theorem delay_waits_witness:
  "\<exists>t' m'. lnDelay tick_bus (\<lambda>n. (even n, n + 1)) 30 (timer_reset, tick_mach) = Some (t', m') \<and>
     unat (sys_tick_count t') = 30"
  using delay_waits [of "\<lambda>n. (even n, n + 1)" "\<lambda>n. n mod 2" tick_mach timer_reset 30 tick_bus]
  by (fastforce simp: irq_fires_def irq_enabled_def tick_mach_def MIE_BIT_def timer_reset_def
    elim!: oddE)

text \<open>With interrupts masked, a wait that is not over at the start never ends.\<close>

lemma delay_masked_hangs:
  assumes "\<not> irq_enabled m" and "sys_tick_count t < sys_tick_count t + wait"
  shows "lnDelay io fires wait (t, m) = None"
  using assms unfolding lnDelay_def by (cases "delay_loop io fires (sys_tick_count t + wait) (t, m)")
    (auto dest: delay_loop_masked)

text \<open>C30: a delay whose end lies beyond the overflow of the 32-bit tick counter returns at once,
  without waiting.\<close>

theorem delay_overflow_skips:
  assumes "2 ^ 32 \<le> unat (sys_tick_count t) + unat wait"
  shows "lnDelay io fires wait (t, m) = Some (t, m)"
proof -
  have less: "unat (sys_tick_count t) < 2 ^ 32" "unat wait < 2 ^ 32"
    using unsigned_less [where ?'a = nat, of "sys_tick_count t"] unsigned_less [where ?'a = nat, of wait]
    by simp_all
  have "unat (sys_tick_count t + wait) = (unat (sys_tick_count t) + unat wait) mod 2 ^ 32"
    by (simp add: unat_word_ariths)
  also have "\<dots> = unat (sys_tick_count t) + unat wait - 2 ^ 32"
    using assms less by (simp add: le_mod_geq)
  finally have "\<not> sys_tick_count t < sys_tick_count t + wait"
    using less by (simp add: word_less_nat_alt)
  then show ?thesis unfolding lnDelay_def by (subst delay_loop.simps) simp
qed

theorem delay_overflow_skips_witness:
  "lnDelay tick_bus (\<lambda>n. (True, n)) 30 (\<lparr>tickPerUs = 144, sys_tick_count = 4294967290\<rparr>, tick_mach) =
     Some (\<lparr>tickPerUs = 144, sys_tick_count = 4294967290\<rparr>, tick_mach)"
  by (rule delay_overflow_skips) simp

text \<open>C31: with the autoreload that \<^verbatim>\<open>init_timer_irq\<close> sets up, the counter restarts every millisecond, so
  a wait in microseconds longer than the reload period never ends.\<close>

theorem delay_us_hangs:
  assumes "reloading io b" and "b div unat (tickPerUs t) < unat wait"
  shows "lnDelayUs io t wait m = None"
proof (cases "lnGetUs64 io t m")
  case (Some r)
  obtain us m' where r: "r = (us, m')" by force
  have "unat us \<le> b div unat (tickPerUs t)" using reloading_us64 [OF assms(1)] Some r by blast
  with assms(2) have "unat us + unat wait < 2 ^ 64"
    using unsigned_less [where ?'a = nat, of wait] by simp
  then have "unat (us + ucast wait) = unat us + unat wait"
    using unat_add_small [of us "ucast wait"] by simp
  with assms(2) have "b div unat (tickPerUs t) < unat (us + ucast wait)" by linarith
  from delay_us_never [OF assms(1) this] Some r show ?thesis by (simp add: lnDelayUs_def)
qed (simp add: lnDelayUs_def)

text \<open>A counter that restarts every 144000 ticks, as the device state.\<close>

definition reload_bus :: "nat bus" where
  "reload_bus = \<lparr>bus_rd32 = \<lambda>a n. (if a = STK_CTN_LO then of_nat (n mod 144000) else 0, n + 1),
     bus_wr32 = \<lambda>a v n. n, bus_mem8 = \<lambda>n a. 0\<rparr>"

lemma reload_reloading: "reloading reload_bus 143999"
proof -
  have "n mod 144000 \<le> 143999" for n :: nat using mod_less_divisor [of 144000 n] by simp
  then show ?thesis
    by (simp add: reloading_def reload_bus_def unsigned_of_nat take_bit_nat_eq_self order_le_less_trans)
qed

theorem delay_us_hangs_witness:
  "lnDelayUs reload_bus \<lparr>tickPerUs = 144, sys_tick_count = 0\<rparr> 1000 tick_mach = None"
  by (rule delay_us_hangs [OF reload_reloading]) simp



text \<open>LnIrqSetPriority replaces the priority byte of its interrupt and leaves the other three bytes
  of the word as they are, for priorities that fit the four bits.\<close>

lemma priority_byte_isolated:
  assumes "i < 4" and "prio < 16"
  shows "byte32 i (prio_word irq prio b) =
     (if i = irq_num irq mod 4 then ucast (push_bit 4 prio) else byte32 i b)"
  by (rule prio_word_byte [OF assms])

text \<open>The timer set-up writes the compare value one millisecond after the counter it read, high word
  before low word, and only then starts the timer.\<close>

lemma timer_setup:
  assumes "init_timer_irq (traced io) g s = (t', m')"
  shows "\<exists>lo hi m1 m2 chi clo. rd32 (traced io) STK_CTN_LO (snd s) = (lo, m1) \<and>
     rd32 (traced io) STK_CTN_HI m1 = (hi, m2) \<and>
     trace m' = trace (snd s) @ [(STK_CMP_HI, chi), (STK_CMP_LO, clo), (STK_CTLR, 0x2F)] \<and>
     (push_bit 32 (ucast chi) OR ucast clo :: u64) =
       (ucast lo OR push_bit 32 (ucast hi)) + ucast (SystemCoreClock g div 1000) \<and>
     tickPerUs t' = ucast (SystemCoreClock g div 1000000) \<and>
     sys_tick_count t' = sys_tick_count (fst s)"
  using init_timer_irq_trace [OF assms] init_timer_irq_timer [OF assms]
  by (simp add: lnSystemTimerInit_def)

end
