(* ===== verification/Usb_Turns.thy ===== *)
theory Usb_Turns
  imports Usb_Control "HOL-Library.Sublist"
begin

text \<open>
  Runs of the USB driver in which the platform moves on between two polls (the LED blinks, timer
  interrupts are taken): before every poll the class driver's state may drift. The interface
  \<open>class_drift\<close> extends \<open>class_driver\<close> by what the drift must respect; the facts about control
  transfers hold for every such run.
\<close>

section \<open>Runs with drift\<close>

inductive turns ::
  "('p \<Rightarrow> 'p \<Rightarrow> bool) \<Rightarrow> 'p usb_class \<Rightarrow> usb_event list \<Rightarrow> 'p usb \<Rightarrow> 'p usb \<Rightarrow> bool" for drift k
where
  turns_nil: "turns drift k [] u u"
| turns_step: "drift (cls u) p \<Longrightarrow> host_step k ev (u\<lparr>cls := p\<rparr>) = Some v \<Longrightarrow> turns drift k evs v w \<Longrightarrow>
     turns drift k (ev # evs) u w"

inductive_simps turns_Nil [simp]: "turns drift k [] u w"
inductive_simps turns_Cons: "turns drift k (ev # evs) u w"

lemma turns_append:
  "turns drift k (evs @ evs') u w \<longleftrightarrow> (\<exists>v. turns drift k evs u v \<and> turns drift k evs' v w)"
proof (induction evs arbitrary: u)
  case (Cons ev evs)
  show ?case unfolding append_Cons turns_Cons Cons.IH by blast
qed simp

lemma usb_ok_cls: "usb_ok ok u \<Longrightarrow> ok p \<Longrightarrow> usb_ok ok (u\<lparr>cls := p\<rparr>)"
  by (simp add: usb_ok_def)

lemma receiving_cls [simp]: "receiving got n (u\<lparr>cls := p\<rparr>) = receiving got n u"
  by (simp add: receiving_def)

lemma sending_cls [simp]: "sending bs n (u\<lparr>cls := p\<rparr>) = sending bs n u"
  by (simp add: sending_def armed_packet_def)

lemma in_idle:
  assumes "phase u = CTRL_IDLE" and "host_step k Ev_in u = Some u'"
  shows "phase u' = CTRL_IDLE" "cls u' = cls u"
  using assms by (auto simp: host_step_in poll_in_def)

text \<open>A run without drift is a run.\<close>

lemma host_steps_turns:
  assumes "\<And>p. drift p p" and "host_steps k evs u = Some u'"
  shows "turns drift k evs u u'"
  using assms(2)
proof (induction evs arbitrary: u)
  case (Cons ev evs)
  then obtain v where "host_step k ev u = Some v" "turns drift k evs v u'"
    by (auto elim!: bind_SomeE)
  then show ?case using assms(1) [of "cls u"] by (intro turns_step [of drift u "cls u" k ev v]) simp_all
qed simp

section \<open>Drift that the class driver does not notice\<close>

locale class_drift = class_driver +
  fixes drift :: "'a \<Rightarrow> 'a \<Rightarrow> bool"
  assumes drift_refl: "drift p p"
    and drift_trans: "drift p q \<Longrightarrow> drift q r \<Longrightarrow> drift p r"
    and drift_ok: "drift p q \<Longrightarrow> ok p \<Longrightarrow> ok q"
    and drift_request: "drift p q \<Longrightarrow> cls_request k req p = (a, p') \<Longrightarrow>
      \<exists>q'. cls_request k req q = (a, q') \<and> drift p' q'"
begin

lemma turn_ok:
  assumes "usb_ok ok u" "drift (cls u) p" "packet_sized ev" "host_step k ev (u\<lparr>cls := p\<rparr>) = Some v"
  shows "usb_ok ok (u\<lparr>cls := p\<rparr>)" "usb_ok ok v"
proof -
  show u: "usb_ok ok (u\<lparr>cls := p\<rparr>)"
    using assms(1,2) drift_ok usb_okD(5) by (blast intro: usb_ok_cls)
  show "usb_ok ok v" using host_step_ok [OF u assms(3)] assms(4) by auto
qed

lemma turns_ok:
  "turns drift k evs u w \<Longrightarrow> usb_ok ok u \<Longrightarrow> list_all packet_sized evs \<Longrightarrow> usb_ok ok w"
  by (induction rule: turns.induct) (auto dest: turn_ok)

lemma turns_idle:
  assumes "turns drift k [Ev_in] u w" and "phase u = CTRL_IDLE"
  shows "phase w = CTRL_IDLE \<and> drift (cls u) (cls w)"
proof -
  from assms(1) obtain p where p: "drift (cls u) p" "host_step k Ev_in (u\<lparr>cls := p\<rparr>) = Some w"
    by (auto simp: turns_Cons)
  from in_idle [OF _ p(2)] assms(2) p(1) show ?thesis by simp
qed

text \<open>The packets of a control write: the class driver gets the data once, in a drifted state.\<close>

lemma turns_receiving:
  assumes "usb_ok ok u" and "receiving got (length bs) u" and "ctrl_request u = DFU_DNLOAD"
    and "length got + length bs \<le> DFU_TRANSFER_SIZE" and "turns drift k (map Ev_out (packets bs)) u w"
  shows "\<exists>b p. drift (cls u) p \<and> phase w = CTRL_IDLE \<and>
    length b = DFU_TRANSFER_SIZE \<and> take (length got + length bs) b = got @ bs \<and>
    cls_data k \<lparr>cp_addr = dfu_rx_addr u, cp_bytes = b\<rparr> (of_nat (length got + length bs)) p = Some (cls w)"
  using assms
proof (induction bs arbitrary: got u rule: packets.induct)
  case (1 bs)
  note u = 1(2) and got = 1(3) and dn = 1(4) and room = 1(5) and run = 1(6)
  show ?case
  proof (cases "length bs \<le> EP0_MAX_PACKET")
    case True
    then have "packets bs = [bs]" by (subst packets.simps) simp
    with run obtain p where p: "drift (cls u) p" "host_step k (Ev_out bs) (u\<lparr>cls := p\<rparr>) = Some w"
      by (auto simp: turns_Cons)
    have "usb_ok ok (u\<lparr>cls := p\<rparr>)" using turn_ok(1) [OF u p(1) _ p(2)] True by simp
    from out_step_last [OF this _ _ refl True room] got dn p(2)
    obtain b where "phase w = CTRL_IDLE" "length b = DFU_TRANSFER_SIZE"
      "take (length got + length bs) b = got @ bs"
      "cls_data k \<lparr>cp_addr = dfu_rx_addr u, cp_bytes = b\<rparr> (of_nat (length got + length bs)) p = Some (cls w)"
      by auto
    with p(1) show ?thesis by blast
  next
    case False
    let ?p = "take EP0_MAX_PACKET bs" and ?r = "drop EP0_MAX_PACKET bs"
    have more: "packets bs = ?p # packets ?r" using False by (subst packets.simps) simp
    have n: "length ?p = EP0_MAX_PACKET" "length ?p < length bs" using False by simp_all
    from run obtain p v where p: "drift (cls u) p" "host_step k (Ev_out ?p) (u\<lparr>cls := p\<rparr>) = Some v"
      and rest: "turns drift k (map Ev_out (packets ?r)) v w"
      unfolding more by (auto simp: turns_Cons)
    have ok: "usb_ok ok (u\<lparr>cls := p\<rparr>)" using turn_ok(1) [OF u p(1) _ p(2)] by simp
    have v: "usb_ok ok v" "receiving (got @ ?p) (length bs - length ?p) v" "cls v = p"
      "ctrl_request v = DFU_DNLOAD" "dfu_rx_addr v = dfu_rx_addr u"
      using out_step_more [OF ok _ n room, of k] got dn p(2) by auto
    have len: "length ?r = length bs - length ?p" "length (got @ ?p) + length ?r = length got + length bs"
      "(got @ ?p) @ ?r = got @ bs"
      using n by simp_all
    have "\<exists>b q. drift (cls v) q \<and> phase w = CTRL_IDLE \<and> length b = DFU_TRANSFER_SIZE \<and>
        take (length got + length bs) b = got @ bs \<and>
        cls_data k \<lparr>cp_addr = dfu_rx_addr v, cp_bytes = b\<rparr> (of_nat (length got + length bs)) q = Some (cls w)"
      using 1(1) [OF False v(1) v(2) [folded len(1)] v(4) _ rest] room unfolding len(2,3) by blast
    with drift_trans [OF p(1)] v(3,5) show ?thesis by metis
  qed
qed

text \<open>Before the last packet the class driver has not been given anything.\<close>

lemma turns_receiving_cut:
  assumes "usb_ok ok u" and "receiving got (length bs) u" and "ctrl_request u = DFU_DNLOAD"
    and "length got + length bs \<le> DFU_TRANSFER_SIZE"
    and "strict_prefix ps (packets bs)" and "turns drift k (map Ev_out ps) u w"
  shows "drift (cls u) (cls w)"
  using assms
proof (induction bs arbitrary: got u ps rule: packets.induct)
  case (1 bs)
  note u = 1(2) and got = 1(3) and dn = 1(4) and room = 1(5) and ps = 1(6) and run = 1(7)
  let ?p = "take EP0_MAX_PACKET bs" and ?r = "drop EP0_MAX_PACKET bs"
  show ?case
  proof (cases "ps = []")
    case True
    with run show ?thesis by (simp add: drift_refl)
  next
    case False
    have long: "\<not> length bs \<le> EP0_MAX_PACKET"
    proof
      assume "length bs \<le> EP0_MAX_PACKET"
      then have "packets bs = [bs]" by (subst packets.simps) simp
      with ps False show False by (cases ps) (auto simp: strict_prefix_def)
    qed
    then have more: "packets bs = ?p # packets ?r" by (subst packets.simps) simp
    from False ps obtain qs where qs: "ps = ?p # qs" "strict_prefix qs (packets ?r)"
      unfolding more by (cases ps) auto
    have n: "length ?p = EP0_MAX_PACKET" "length ?p < length bs" using long by simp_all
    from run obtain c v where c: "drift (cls u) c" "host_step k (Ev_out ?p) (u\<lparr>cls := c\<rparr>) = Some v"
      and rest: "turns drift k (map Ev_out qs) v w"
      unfolding qs(1) by (auto simp: turns_Cons)
    have ok: "usb_ok ok (u\<lparr>cls := c\<rparr>)" using turn_ok(1) [OF u c(1) _ c(2)] by simp
    have v: "usb_ok ok v" "receiving (got @ ?p) (length bs - length ?p) v" "cls v = c"
      "ctrl_request v = DFU_DNLOAD"
      using out_step_more [OF ok _ n room, of k] got dn c(2) by auto
    have len: "length ?r = length bs - length ?p" "length (got @ ?p) + length ?r = length got + length bs"
      using n by simp_all
    have "drift (cls v) (cls w)"
      using 1(1) [OF long v(1) v(2) [folded len(1)] v(4) _ qs(2) rest] room unfolding len(2) by blast
    with drift_trans [OF c(1)] v(3) show ?thesis by simp
  qed
qed

text \<open>The SETUP packet of a control write: the class driver has taken the request.\<close>

lemma turns_request:
  assumes u: "usb_ok ok u"
    and r: "bmRequestType r AND 0x60 = 0x20" "\<not> flag_set (bmRequestType r) USB_DIR_IN"
      "bRequest r = DFU_DNLOAD" "unat (wLength r) = length bs"
    and bs: "bs \<noteq> []"
    and req: "cls_request k r (cls u) = (a, p)"
    and run: "turns drift k (Ev_setup r # evs) u w"
  shows "\<exists>v. turns drift k evs v w \<and> usb_ok ok v \<and> receiving [] (length bs) v \<and>
    ctrl_request v = DFU_DNLOAD \<and> drift p (cls v) \<and> dfu_rx_addr v = dfu_rx_addr u"
proof -
  from run obtain c v where c: "drift (cls u) c" "host_step k (Ev_setup r) (u\<lparr>cls := c\<rparr>) = Some v"
    and rest: "turns drift k evs v w"
    by (auto simp: turns_Cons)
  have ok: "usb_ok ok (u\<lparr>cls := c\<rparr>)" using turn_ok(1) [OF u c(1) _ c(2)] by simp
  obtain d l p' where req': "cls_request k r c = ((d, l), p')" "drift p p'"
    using drift_request [OF c(1) req] by (metis surj_pair)
  have "wLength r \<noteq> 0" using r(4) bs(1) by auto
  then have v: "v = wreg INT_FG (ucast USBFS_INT_FG_TRANSFER) (ep0_recv
      ((setup_state r (u\<lparr>cls := c\<rparr>))\<lparr>cls := p', phase := CTRL_DATA_OUT, ctrl_data_remaining := wLength r,
       dfu_rx_offset := 0\<rparr>))"
    using c(2) r(2) req' by (simp add: host_step_setup_eq route_class [OF r(1)])
  have "usb_ok ok v" using turn_ok(2) [OF u c(1) _ c(2)] by simp
  moreover have "receiving [] (length bs) v" "ctrl_request v = DFU_DNLOAD"
    using r(3,4) by (simp_all add: receiving_def v ep0_recv_def)
  moreover have "cls v = p'" "dfu_rx_addr v = dfu_rx_addr u" by (simp_all add: v ep0_recv_def)
  ultimately show ?thesis using rest req'(2) by blast
qed

lemma turns_write:
  assumes u: "usb_ok ok u"
    and r: "bmRequestType r AND 0x60 = 0x20" "\<not> flag_set (bmRequestType r) USB_DIR_IN"
      "bRequest r = DFU_DNLOAD" "unat (wLength r) = length bs"
    and bs: "bs \<noteq> []" "length bs \<le> DFU_TRANSFER_SIZE"
    and req: "cls_request k r (cls u) = (a, p)"
    and run: "turns drift k (Ev_setup r # map Ev_out (packets bs)) u w"
  shows "\<exists>b q. drift p q \<and> phase w = CTRL_IDLE \<and> length b = DFU_TRANSFER_SIZE \<and>
    take (length bs) b = bs \<and>
    cls_data k \<lparr>cp_addr = dfu_rx_addr u, cp_bytes = b\<rparr> (wLength r) q = Some (cls w)"
proof -
  obtain v where rest: "turns drift k (map Ev_out (packets bs)) v w" and
    v: "usb_ok ok v" "receiving [] (length bs) v" "ctrl_request v = DFU_DNLOAD" "drift p (cls v)"
      "dfu_rx_addr v = dfu_rx_addr u"
    using turns_request [OF u r bs(1) req run] by blast
  have "\<exists>b q. drift (cls v) q \<and> phase w = CTRL_IDLE \<and> length b = DFU_TRANSFER_SIZE \<and>
      take (length [] + length bs) b = [] @ bs \<and>
      cls_data k \<lparr>cp_addr = dfu_rx_addr v, cp_bytes = b\<rparr> (of_nat (length [] + length bs)) q = Some (cls w)"
    using turns_receiving [of v "[]" bs] v(1-3) bs(2) rest by simp
  moreover have "of_nat (length bs) = wLength r" using r(4) by (metis of_nat_unat ucast_id)
  ultimately show ?thesis using drift_trans [OF v(4)] v(5) by auto
qed

text \<open>A control write that is cut off before its last packet: the request is all that has happened.\<close>

lemma turns_write_cut:
  assumes u: "usb_ok ok u"
    and r: "bmRequestType r AND 0x60 = 0x20" "\<not> flag_set (bmRequestType r) USB_DIR_IN"
      "bRequest r = DFU_DNLOAD" "unat (wLength r) = length bs"
    and bs: "bs \<noteq> []" "length bs \<le> DFU_TRANSFER_SIZE"
    and req: "cls_request k r (cls u) = (a, p)"
    and run: "turns drift k (Ev_setup r # map Ev_out ps) u w" and ps: "strict_prefix ps (packets bs)"
  shows "drift p (cls w)"
proof -
  obtain v where rest: "turns drift k (map Ev_out ps) v w" and
    v: "usb_ok ok v" "receiving [] (length bs) v" "ctrl_request v = DFU_DNLOAD" "drift p (cls v)"
    using turns_request [OF u r bs(1) req run] by blast
  have "drift (cls v) (cls w)"
    using turns_receiving_cut [of v "[]" bs ps w] v(1-3) bs(2) ps rest by simp
  with v(4) show ?thesis by (rule drift_trans)
qed

text \<open>A run can always go on.\<close>

lemma turns_continue:
  "usb_ok ok u \<Longrightarrow> list_all packet_sized evs \<Longrightarrow> \<exists>w. turns drift k evs u w"
proof (induction evs arbitrary: u)
  case (Cons ev evs)
  then obtain v where v: "host_step k ev u = Some v" "usb_ok ok v"
    using host_step_ok [of u ev] by auto
  with Cons obtain w where "turns drift k evs v w" by auto
  moreover have "turns drift k (ev # evs) u w" if "turns drift k evs v w" for w
    using turns_step [of drift u "cls u" k ev v evs w] drift_refl v(1) that by simp
  ultimately show ?case by blast
qed (use turns_nil in blast)

text \<open>A request that answers one packet, and the IN token that fetches it.\<close>

lemma turns_short_read:
  assumes u: "usb_ok ok u"
    and r: "bmRequestType r AND 0x60 = 0x20" "flag_set (bmRequestType r) USB_DIR_IN" "wLength r \<noteq> 0"
    and req: "cls_request k r (cls u) = ((Some bs, l), p)"
    and l: "unat l = length bs" "bs \<noteq> []" "length bs \<le> 64" "l \<le> wLength r"
    and run: "turns drift k [Ev_setup r, Ev_in] u w"
  shows "phase w = CTRL_IDLE \<and> drift p (cls w)"
proof -
  from run obtain c v e where c: "drift (cls u) c" "host_step k (Ev_setup r) (u\<lparr>cls := c\<rparr>) = Some v"
    and e: "drift (cls v) e" "host_step k Ev_in (v\<lparr>cls := e\<rparr>) = Some w"
    by (auto simp: turns_Cons)
  have ok: "usb_ok ok (u\<lparr>cls := c\<rparr>)" using turn_ok(1) [OF u c(1) _ c(2)] by simp
  obtain p' where p': "cls_request k r c = ((Some bs, l), p')" "drift p p'"
    using drift_request [OF c(1) req] by blast
  let ?u = "(setup_state r (u\<lparr>cls := c\<rparr>))\<lparr>cls := p'\<rparr>"
  have "length (ep0_buffer ?u) = EP0_MAX_PACKET"
    using usb_okD(1) [OF setup_state_ok [OF ok]] by simp
  from start_data_in_sending [OF this, of l bs] l(1) obtain v1 where
    v1: "start_data_in (Some bs) l ?u = Some v1" "sending bs (length bs) v1" "cls v1 = p'" by auto
  have "\<not> l > wLength r" using l(4) by simp
  then have "v = wreg INT_FG (ucast USBFS_INT_FG_TRANSFER) v1"
    using c(2) r v1(1) p'(1) by (simp add: host_step_setup_eq route_class [OF r(1)])
  then have v: "sending bs (length bs) v" "cls v = p'" using v1 by (simp_all add: sending_def)
  then have "sending bs (length bs) (v\<lparr>cls := e\<rparr>)" "0 < length bs" using l(2) by simp_all
  from in_step_last [OF this l(3), of k] e(2) have "phase w = CTRL_IDLE" "cls w = e" by auto
  with drift_trans [OF p'(2)] e(1) v(2) show ?thesis by simp
qed

end

end
