(* ===== verification/Fmc_Device.thy ===== *)
theory Fmc_Device
  imports Dfu
begin

text \<open>
  What the driver of \<^verbatim>\<open>src_stage2/flash.h\<close> relies on of the flash controller, as the reference
  manual of the CH32V30x describes it: the two locks with their key sequences, the fast page erase
  (256 bytes), the block erase (32 KB), the page buffer of the fast programming mode, the flag that
  an operation has ended, and busy flags that clear after finitely many polls. The controller is no
  code of the repository: \<open>fmc_device\<close> is a hypothesis on the bus, through a view of its device
  state as a \<open>chip\<close>. What programming a word that is not erased leaves there is a parameter.
\<close>

section \<open>The controller\<close>

record chip =
  cells :: "nat \<Rightarrow> u8"              \<comment> \<open>the array, by the offset in its address window\<close>
  ctl :: u32
  addr_reg :: u32
  endf :: bool
  page_buf :: "nat \<rightharpoonup> u32"     \<comment> \<open>the words written since the last commit\<close>
  key1 :: bool                     \<comment> \<open>the first key of the lock was just written\<close>
  fkey1 :: bool

text \<open>The array shows at 0 and at its alias; both windows have 27 address bits.\<close>

definition off :: "u32 \<Rightarrow> nat" where
  "off a = unat a mod 2 ^ 27"

definition pat :: "nat \<Rightarrow> u8" where
  "pat i = byte32 (i mod 4) ERASED"

definition erase_block :: "nat \<Rightarrow> nat \<Rightarrow> (nat \<Rightarrow> u8) \<Rightarrow> nat \<Rightarrow> u8" where
  "erase_block k p f i = (if i div k = p div k then pat i else f i)"

definition word_at :: "(nat \<Rightarrow> u8) \<Rightarrow> nat \<Rightarrow> u32" where
  "word_at f j = le32 (f (4 * j)) (f (4 * j + 1)) (f (4 * j + 2)) (f (4 * j + 3))"

definition commit :: "(u32 \<Rightarrow> u32 \<Rightarrow> u32) \<Rightarrow> (nat \<rightharpoonup> u32) \<Rightarrow> (nat \<Rightarrow> u8) \<Rightarrow> nat \<Rightarrow> u8" where
  "commit over buf f i = (case buf (i div 4) of
     None \<Rightarrow> f i
   | Some w \<Rightarrow> byte32 (i mod 4)
       (if word_at f (i div 4) = ERASED then w else over (word_at f (i div 4)) w))"

text \<open>A write to the control register: it is ignored while the register is locked; the fast lock
  cannot be cleared by it; with the fast lock open, the start bits begin an operation.\<close>

definition ctl_write :: "(u32 \<Rightarrow> u32 \<Rightarrow> u32) \<Rightarrow> u32 \<Rightarrow> chip \<Rightarrow> chip" where
  "ctl_write over w c =
     (if bit (ctl c) 7 then c
      else
        let c' = c\<lparr>ctl := (w AND NOT (FMC_CTL_START OR FMC_CTL_FASTSTART)) OR
                           (ctl c AND FMC_CTL_FASTUNLOCK)\<rparr>
        in if bit (ctl c) 15 then c'
           else if bit w 6 \<and> bit w 17 then
             c'\<lparr>cells := erase_block 256 (off (addr_reg c)) (cells c), endf := True\<rparr>
           else if bit w 6 \<and> bit w 18 then
             c'\<lparr>cells := erase_block 32768 (off (addr_reg c)) (cells c), endf := True\<rparr>
           else if bit w 21 \<and> bit w 16 then
             c'\<lparr>cells := commit over (page_buf c) (cells c), page_buf := Map.empty, endf := True\<rparr>
           else c')"

definition chip_wr :: "(u32 \<Rightarrow> u32 \<Rightarrow> u32) \<Rightarrow> u32 \<Rightarrow> u32 \<Rightarrow> chip \<Rightarrow> chip" where
  "chip_wr over a w c =
     (if a = FMC_CTL then ctl_write over w c
      else if a = FMC_ADDR then c\<lparr>addr_reg := w\<rparr>
      else if a = FMC_STAT then (if bit w 5 then c\<lparr>endf := False\<rparr> else c)
      else if a = FMC_KEY then
        (if key1 c \<and> w = 0xCDEF89AB then c\<lparr>key1 := False, ctl := ctl c AND NOT FMC_CTL_LK\<rparr>
         else c\<lparr>key1 := (w = 0x45670123)\<rparr>)
      else if a = FMC_CHF9 then
        (if fkey1 c \<and> w = 0xCDEF89AB then c\<lparr>fkey1 := False, ctl := ctl c AND NOT FMC_CTL_FASTUNLOCK\<rparr>
         else c\<lparr>fkey1 := (w = 0x45670123)\<rparr>)
      else if a < 0x10000000 \<and> bit (ctl c) 16 then c\<lparr>page_buf := (page_buf c)(off a div 4 \<mapsto> w)\<rparr>
      else c)"

definition stat_of :: "chip \<Rightarrow> u32" where
  "stat_of c = (if endf c then FMC_STAT_WP_ENDF else 0)"

definition fmc_device ::
  "'h bus \<Rightarrow> ('h \<Rightarrow> chip) \<Rightarrow> (u32 \<Rightarrow> u32 \<Rightarrow> u32) \<Rightarrow> ('h \<Rightarrow> nat) \<Rightarrow> bool" where
  "fmc_device io view over f \<longleftrightarrow> fmc_drains io f \<and>
     (\<forall>a w d. view (bus_wr32 io a w d) = chip_wr over a w (view d)) \<and>
     (\<forall>a d. view (snd (bus_rd32 io a d)) = view d) \<and>
     (\<forall>d. fst (bus_rd32 io FMC_CTL d) = ctl (view d)) \<and>
     (\<forall>d. fst (bus_rd32 io FMC_STAT d) AND NOT (FMC_STAT_BUSY OR FMC_STAT_WR_BUSY) = stat_of (view d)) \<and>
     (\<forall>a d. a < 0x10000000 \<longrightarrow> bus_mem8 io d a = cells (view d) (off a))"

text \<open>Between operations: no mode bit set, no flag pending, nothing in the page buffer.\<close>

definition chip_idle :: "chip \<Rightarrow> bool" where
  "chip_idle c \<longleftrightarrow> \<not> bit (ctl c) 0 \<and> \<not> bit (ctl c) 6 \<and> \<not> bit (ctl c) 16 \<and> \<not> bit (ctl c) 17 \<and>
     \<not> bit (ctl c) 18 \<and> \<not> bit (ctl c) 21 \<and> \<not> endf c \<and> page_buf c = Map.empty"

definition unlocked :: "chip \<Rightarrow> bool" where
  "unlocked c \<longleftrightarrow> \<not> bit (ctl c) 7 \<and> \<not> bit (ctl c) 15"

lemmas fmc_bits = FMC_CTL_PG_def FMC_CTL_START_def FMC_CTL_LK_def FMC_CTL_FASTUNLOCK_def
  FMC_CTL_FASTPROGRAM_def FMC_CTL_FASTERASE_def FMC_CTL_BER32_def FMC_CTL_FASTSTART_def

lemmas stat_bits = FMC_STAT_BUSY_def FMC_STAT_WR_BUSY_def FMC_STAT_PG_ERR_def FMC_STAT_WP_ERR_def
  FMC_STAT_WP_ENDF_def

lemmas bit_rules = bit_or_iff bit_and_iff bit_not_iff bit_push_bit_iff bit_1_iff

lemma fmc_addr_neq [simp]:
  "FMC_STAT \<noteq> FMC_CTL" "FMC_CTL \<noteq> FMC_STAT" "FMC_ADDR \<noteq> FMC_CTL" "FMC_ADDR \<noteq> FMC_STAT"
  "FMC_KEY \<noteq> FMC_CTL" "FMC_KEY \<noteq> FMC_ADDR" "FMC_KEY \<noteq> FMC_STAT" "FMC_CHF9 \<noteq> FMC_CTL"
  "FMC_CHF9 \<noteq> FMC_ADDR" "FMC_CHF9 \<noteq> FMC_STAT" "FMC_CHF9 \<noteq> FMC_KEY" "FMC_STAT \<noteq> FMC_ADDR"
  by (simp_all add: FMC_STAT_def FMC_CTL_def FMC_ADDR_def FMC_KEY_def FMC_CHF9_def FMC_BASE_def)


lemma flash_not_fmc [simp]:
  "a < 0x10000000 \<Longrightarrow> a \<noteq> FMC_CTL \<and> a \<noteq> FMC_ADDR \<and> a \<noteq> FMC_STAT \<and> a \<noteq> FMC_KEY \<and> a \<noteq> FMC_CHF9"
  by (auto simp: FMC_STAT_def FMC_CTL_def FMC_ADDR_def FMC_KEY_def FMC_CHF9_def FMC_BASE_def)

section \<open>Control words\<close>

lemma bit_one_at: "bit (push_bit k 1 :: u32) n \<longleftrightarrow> n = k \<and> k < 32"
  by (auto simp: bit_exp_iff)

lemma bit_flags [simp]:
  "bit FMC_CTL_PG n \<longleftrightarrow> n = 0" "bit FMC_CTL_START n \<longleftrightarrow> n = 6" "bit FMC_CTL_LK n \<longleftrightarrow> n = 7"
  "bit FMC_CTL_FASTUNLOCK n \<longleftrightarrow> n = 15" "bit FMC_CTL_FASTPROGRAM n \<longleftrightarrow> n = 16"
  "bit FMC_CTL_FASTERASE n \<longleftrightarrow> n = 17" "bit FMC_CTL_BER32 n \<longleftrightarrow> n = 18"
  "bit FMC_CTL_FASTSTART n \<longleftrightarrow> n = 21"
  unfolding fmc_bits bit_one_at by simp_all

lemmas ctl_bits = bit_or_iff bit_and_iff bit_not_iff

lemma flag_bit: "flag_set w (push_bit n 1) = bit w n"
  unfolding bit_iff_and_push_bit_not_eq_0 ..

lemma flag_locks: "flag_set w FMC_CTL_LK = bit w 7" "flag_set w FMC_CTL_FASTUNLOCK = bit w 15"
  unfolding fmc_bits flag_bit by simp_all

lemma bit_ctl_write:
  assumes "\<not> bit (ctl c) 7"
  shows "bit (ctl (ctl_write over w c)) n \<longleftrightarrow>
    bit w n \<and> n \<noteq> 6 \<and> n \<noteq> 21 \<or> n = 15 \<and> bit (ctl c) 15"
proof -
  have "ctl (ctl_write over w c) =
      (w AND NOT (FMC_CTL_START OR FMC_CTL_FASTSTART)) OR (ctl c AND FMC_CTL_FASTUNLOCK)"
    using assms by (simp add: ctl_write_def Let_def)
  moreover have "bit w n \<Longrightarrow> n < 32" using bit_imp_le_length [of w n] by simp
  ultimately show ?thesis by (auto simp: ctl_bits)
qed

lemma ctl_write_fields [simp]:
  "addr_reg (ctl_write over w c) = addr_reg c" "key1 (ctl_write over w c) = key1 c" "fkey1 (ctl_write over w c) = fkey1 c"
  by (simp_all add: ctl_write_def Let_def)

lemma ctl_write_plain:
  assumes "\<not> (bit w 6 \<and> (bit w 17 \<or> bit w 18))" "\<not> (bit w 21 \<and> bit w 16)"
  shows "cells (ctl_write over w c) = cells c" "endf (ctl_write over w c) = endf c"
    "page_buf (ctl_write over w c) = page_buf c"
  using assms by (auto simp: ctl_write_def Let_def)

lemma ctl_write_start:
  assumes "unlocked c" "bit w 6" "bit w k" "k = 17 \<and> n = 256 \<or> k = 18 \<and> n = 32768 \<and> \<not> bit w 17"
  shows "cells (ctl_write over w c) = erase_block n (off (addr_reg c)) (cells c)" "endf (ctl_write over w c)"
    "page_buf (ctl_write over w c) = page_buf c"
  using assms by (auto simp: ctl_write_def Let_def unlocked_def)

lemma ctl_write_commit:
  assumes "unlocked c" "\<not> bit w 6" "bit w 21" "bit w 16"
  shows "cells (ctl_write over w c) = commit over (page_buf c) (cells c)" "endf (ctl_write over w c)"
    "page_buf (ctl_write over w c) = Map.empty"
  using assms by (auto simp: ctl_write_def Let_def unlocked_def)


section \<open>Register accesses of the driver\<close>

abbreviation chip_of :: "('h \<Rightarrow> chip) \<Rightarrow> 'h mach \<Rightarrow> chip" where
  "chip_of view m \<equiv> view (dev m)"

lemma device_rd32:
  assumes "fmc_device io view over f" and "rd32 io a m = (v, m')"
  shows "chip_of view m' = chip_of view m"
    and "a = FMC_CTL \<Longrightarrow> v = ctl (chip_of view m)"
    and "a = FMC_STAT \<Longrightarrow> v AND NOT (FMC_STAT_BUSY OR FMC_STAT_WR_BUSY) = stat_of (chip_of view m)"
proof -
  from assms(2) obtain d where rd: "bus_rd32 io a (dev m) = (v, d)" and m': "m' = m\<lparr>dev := d\<rparr>"
    by (auto simp: rd32_def split: prod.split_asm)
  note D = assms(1) [unfolded fmc_device_def]
  from D have "view (snd (bus_rd32 io a (dev m))) = view (dev m)" by blast
  with rd m' show "chip_of view m' = chip_of view m" by simp
  from D have "fst (bus_rd32 io FMC_CTL (dev m)) = ctl (view (dev m))" by blast
  with rd show "a = FMC_CTL \<Longrightarrow> v = ctl (chip_of view m)" by auto
  from D have "fst (bus_rd32 io FMC_STAT (dev m)) AND NOT (FMC_STAT_BUSY OR FMC_STAT_WR_BUSY) =
      stat_of (view (dev m))" by blast
  with rd show "a = FMC_STAT \<Longrightarrow>
      v AND NOT (FMC_STAT_BUSY OR FMC_STAT_WR_BUSY) = stat_of (chip_of view m)" by auto
qed

lemma device_drains: "fmc_device io view over f \<Longrightarrow> fmc_drains io f"
  by (simp add: fmc_device_def)

lemma device_wr32:
  "fmc_device io view over f \<Longrightarrow> chip_of view (wr32 io a w m) = chip_wr over a w (chip_of view m)"
  by (simp add: fmc_device_def wr32_def)

lemma device_ctl:
  assumes "fmc_device io view over f"
  shows "chip_of view (or32 io FMC_CTL w m) = ctl_write over (ctl (chip_of view m) OR w) (chip_of view m)"
    and "chip_of view (and32 io FMC_CTL w m) = ctl_write over (ctl (chip_of view m) AND w) (chip_of view m)"
  using device_rd32 [OF assms]
  by (auto simp: or32_def and32_def device_wr32 [OF assms] chip_wr_def split: prod.split)

lemma device_flash8:
  "fmc_device io view over f \<Longrightarrow> a < 0x10000000 \<Longrightarrow> flash8 io m a = cells (chip_of view m) (off a)"
  by (simp add: fmc_device_def flash8_def)

text \<open>The error flags are never set, and the end flag is the chip's.\<close>

lemma bit_stat:
  "bit FMC_STAT_BUSY n \<longleftrightarrow> n = 0" "bit FMC_STAT_WR_BUSY n \<longleftrightarrow> n = 1" "bit FMC_STAT_PG_ERR n \<longleftrightarrow> n = 3"
  "bit FMC_STAT_WP_ERR n \<longleftrightarrow> n = 4" "bit FMC_STAT_WP_ENDF n \<longleftrightarrow> n = 5"
  unfolding stat_bits bit_one_at by simp_all

lemma device_stat:
  assumes "fmc_device io view over f" and "rd32 io FMC_STAT m = (v, m')"
  shows "\<not> flag_set v (FMC_STAT_PG_ERR OR FMC_STAT_WP_ERR)"
    and "flag_set v FMC_STAT_WP_ENDF \<longleftrightarrow> endf (chip_of view m)"
proof -
  have b: "bit v n = bit (stat_of (chip_of view m)) n" if "n \<noteq> 0" "n \<noteq> 1" for n
  proof -
    have "bit (v AND NOT (FMC_STAT_BUSY OR FMC_STAT_WR_BUSY)) n = bit (stat_of (chip_of view m)) n"
      using device_rd32(3) [OF assms refl] by simp
    then show ?thesis using that bit_imp_le_length [of v n] bit_imp_le_length [of "stat_of (chip_of view m)" n]
      by (auto simp: ctl_bits bit_stat)
  qed
  have st: "bit (stat_of c) n \<longleftrightarrow> endf c \<and> n = 5" for c n by (simp add: stat_of_def bit_stat)
  have "v AND (FMC_STAT_PG_ERR OR FMC_STAT_WP_ERR) = 0"
    using b [of 3] b [of 4] st by (intro bit_word_eqI) (auto simp: ctl_bits bit_stat)
  then show "\<not> flag_set v (FMC_STAT_PG_ERR OR FMC_STAT_WP_ERR)" by simp
  have "flag_set v FMC_STAT_WP_ENDF = bit v 5"
    unfolding FMC_STAT_WP_ENDF_def by (rule flag_bit)
  also have "\<dots> = endf (chip_of view m)" using b [of 5] by (simp add: stat_of_def bit_stat)
  finally show "flag_set v FMC_STAT_WP_ENDF \<longleftrightarrow> endf (chip_of view m)" .
qed

lemma device_wait:
  assumes D: "fmc_device io view over f" shows
    "\<exists>m'. fmc_wait_busy io m = Some m' \<and> chip_of view m' = chip_of view m \<and> csr m' = csr m"
    "\<exists>m'. fmc_wait_wr_busy io m = Some m' \<and> chip_of view m' = chip_of view m \<and> csr m' = csr m"
proof -
  show "\<exists>m'. fmc_wait_busy io m = Some m' \<and> chip_of view m' = chip_of view m \<and> csr m' = csr m"
  proof (induction "f (dev m)" arbitrary: m rule: less_induct)
    case less
    obtain v m1 where rd: "rd32 io FMC_STAT m = (v, m1)" by fastforce
    note V = device_rd32(1) [OF D rd] and C = rd32_frameD [OF rd]
    show ?case
    proof (cases "flag_set v FMC_STAT_BUSY")
      case True
      then have "f (dev m1) < f (dev m)" using fmc_drainsD [OF device_drains [OF D] rd] by simp
      from less [OF this] True rd V C show ?thesis by (simp add: fmc_wait_busy.simps [of io m])
    qed (use rd V C in \<open>simp add: fmc_wait_busy.simps [of io m]\<close>)
  qed
  show "\<exists>m'. fmc_wait_wr_busy io m = Some m' \<and> chip_of view m' = chip_of view m \<and> csr m' = csr m"
  proof (induction "f (dev m)" arbitrary: m rule: less_induct)
    case less
    obtain v m1 where rd: "rd32 io FMC_STAT m = (v, m1)" by fastforce
    note V = device_rd32(1) [OF D rd] and C = rd32_frameD [OF rd]
    show ?case
    proof (cases "flag_set v FMC_STAT_WR_BUSY")
      case True
      then have "f (dev m1) < f (dev m)" using fmc_drainsD [OF device_drains [OF D] rd] by simp
      from less [OF this] True rd V C show ?thesis by (simp add: fmc_wait_wr_busy.simps [of io m])
    qed (use rd V C in \<open>simp add: fmc_wait_wr_busy.simps [of io m]\<close>)
  qed
qed

text \<open>Unlocking opens both locks and leaves the array alone.\<close>

lemma device_unlock:
  assumes D: "fmc_device io view over f"
  shows "unlocked (chip_of view (fmc_fast_unlock io m))"
    and "cells (chip_of view (fmc_fast_unlock io m)) = cells (chip_of view m)"
    and "chip_idle (chip_of view m) \<Longrightarrow> chip_idle (chip_of view (fmc_fast_unlock io m))"
proof -
  define c where "c = chip_of view m"
  define c1 where "c1 = (if bit (ctl c) 7
    then c\<lparr>key1 := False, ctl := ctl c AND NOT FMC_CTL_LK\<rparr> else c)"
  define c2 where "c2 = (if bit (ctl c1) 15
    then c1\<lparr>fkey1 := False, ctl := ctl c1 AND NOT FMC_CTL_FASTUNLOCK\<rparr> else c1)"
  have k1: "chip_wr over FMC_KEY 0xCDEF89AB (chip_wr over FMC_KEY 0x45670123 x) =
      x\<lparr>key1 := False, ctl := ctl x AND NOT FMC_CTL_LK\<rparr>" for x
    by (simp add: chip_wr_def)
  have k2: "chip_wr over FMC_CHF9 0xCDEF89AB (chip_wr over FMC_CHF9 0x45670123 x) =
      x\<lparr>fkey1 := False, ctl := ctl x AND NOT FMC_CTL_FASTUNLOCK\<rparr>" for x
    by (simp add: chip_wr_def)
  obtain v1 m1 where r1: "rd32 io FMC_CTL m = (v1, m1)" by fastforce
  define m2 where "m2 = (if bit v1 7 then wr32 io FMC_KEY 0xCDEF89AB (wr32 io FMC_KEY 0x45670123 m1) else m1)"
  obtain v2 m3 where r2: "rd32 io FMC_CTL m2 = (v2, m3)" by fastforce
  have 1: "v1 = ctl c" "chip_of view m1 = c"
    using device_rd32 [OF D r1] by (simp_all add: c_def)
  have 2: "chip_of view m2 = c1"
    by (simp add: m2_def c1_def 1 device_wr32 [OF D] k1)
  have 3: "v2 = ctl c1" "chip_of view m3 = c1"
    using device_rd32 [OF D r2] by (simp_all add: 2)
  have eq: "chip_of view (fmc_fast_unlock io m) = c2"
    by (simp add: fmc_fast_unlock_def Let_def r1 flag_locks r2 3 c2_def device_wr32 [OF D] k2
      flip: m2_def)
  show "unlocked (chip_of view (fmc_fast_unlock io m))"
    unfolding eq by (auto simp: unlocked_def c2_def c1_def ctl_bits)
  show "cells (chip_of view (fmc_fast_unlock io m)) = cells (chip_of view m)"
    unfolding eq by (simp add: c2_def c1_def c_def)
  show "chip_idle (chip_of view m) \<Longrightarrow> chip_idle (chip_of view (fmc_fast_unlock io m))"
    unfolding eq by (auto simp: chip_idle_def c2_def c1_def c_def ctl_bits)
qed

section \<open>Erasing\<close>

text \<open>The sequence of an erase, on the chip: mode bit, address, start; then flag, mode and start cleared.\<close>

definition erase_begin :: "(u32 \<Rightarrow> u32 \<Rightarrow> u32) \<Rightarrow> u32 \<Rightarrow> u32 \<Rightarrow> chip \<Rightarrow> chip" where
  "erase_begin over md fa c =
     (let c = (ctl_write over (ctl c OR md) c)\<lparr>addr_reg := fa\<rparr>
      in ctl_write over (ctl c OR FMC_CTL_START) c)"

definition erase_finish :: "(u32 \<Rightarrow> u32 \<Rightarrow> u32) \<Rightarrow> u32 \<Rightarrow> chip \<Rightarrow> chip" where
  "erase_finish over md c =
     (let c = c\<lparr>endf := False\<rparr>; c = ctl_write over (ctl c AND NOT md) c
      in ctl_write over (ctl c AND NOT FMC_CTL_START) c)"

lemma chip_erase:
  assumes u: "unlocked c" and i: "chip_idle c" and md: "\<And>n. bit md n \<longleftrightarrow> n = k"
    and k: "k = 17 \<and> N = 256 \<or> k = 18 \<and> N = 32768"
  shows "endf (erase_begin over md fa c)"
    and "cells (erase_finish over md (erase_begin over md fa c)) = erase_block N (off fa) (cells c)"
    and "chip_idle (erase_finish over md (erase_begin over md fa c))"
proof -
  define c1 where "c1 = (ctl_write over (ctl c OR md) c)\<lparr>addr_reg := fa\<rparr>"
  define c2 where "c2 = ctl_write over (ctl c1 OR FMC_CTL_START) c1"
  define c3 where "c3 = ctl_write over (ctl c2 AND NOT md) (c2\<lparr>endf := False\<rparr>)"
  define c4 where "c4 = ctl_write over (ctl c3 AND NOT FMC_CTL_START) c3"
  have b0: "\<not> bit (ctl c) 0" "\<not> bit (ctl c) 6" "\<not> bit (ctl c) 7" "\<not> bit (ctl c) 15" "\<not> bit (ctl c) 16"
      "\<not> bit (ctl c) 17" "\<not> bit (ctl c) 18" "\<not> bit (ctl c) 21"
    using u i by (simp_all add: unlocked_def chip_idle_def)
  have len: "bit (ctl c) n \<Longrightarrow> n < 32" for n using bit_imp_le_length [of "ctl c" n] by simp
  have b1: "bit (ctl c1) n \<longleftrightarrow> bit (ctl c) n \<or> n = k" for n
    using b0 k by (auto simp: c1_def bit_ctl_write ctl_bits md)
  have s1: "cells c1 = cells c" "page_buf c1 = page_buf c" "addr_reg c1 = fa"
    using b0 k by (auto simp: c1_def ctl_write_plain ctl_bits md)
  have b2: "bit (ctl c2) n \<longleftrightarrow> bit (ctl c1) n" for n
    using b0 k by (auto simp: c2_def bit_ctl_write ctl_bits b1)
  have "unlocked c1" using b0 k by (auto simp: unlocked_def b1)
  moreover have "bit (ctl c1 OR FMC_CTL_START) 6" "bit (ctl c1 OR FMC_CTL_START) k"
    "k = 17 \<and> N = 256 \<or> k = 18 \<and> N = 32768 \<and> \<not> bit (ctl c1 OR FMC_CTL_START) 17"
    using b0 k by (auto simp: ctl_bits b1)
  ultimately have s2: "cells c2 = erase_block N (off fa) (cells c1)" "endf c2" "page_buf c2 = page_buf c1"
    unfolding c2_def by (simp_all only: ctl_write_start s1)
  have b3: "bit (ctl c3) n \<longleftrightarrow> bit (ctl c) n" for n
    using b0 k len [of n] by (auto simp: c3_def bit_ctl_write ctl_bits md b2 b1)
  have s3: "cells c3 = cells c2" "page_buf c3 = page_buf c2" "\<not> endf c3"
    using b0 k by (auto simp: c3_def ctl_write_plain ctl_bits md b2 b1)
  have b4: "bit (ctl c4) n \<longleftrightarrow> bit (ctl c) n" for n
    using b0 k len [of n] by (auto simp: c4_def bit_ctl_write ctl_bits b3)
  have s4: "cells c4 = cells c3" "page_buf c4 = page_buf c3" "\<not> endf c4"
    using b0 k s3 by (auto simp: c4_def ctl_write_plain ctl_bits b3)
  have fin: "erase_begin over md fa c = c2" "erase_finish over md c2 = c4"
    by (simp_all add: erase_begin_def erase_finish_def c1_def c2_def c3_def c4_def Let_def)
  show "endf (erase_begin over md fa c)" using s2 by (simp add: fin)
  show "cells (erase_finish over md (erase_begin over md fa c)) = erase_block N (off fa) (cells c)"
    using s1 s2 s3 s4 by (simp add: fin)
  show "chip_idle (erase_finish over md (erase_begin over md fa c))"
    using i s1 s2 s3 s4 by (simp add: fin chip_idle_def b4)
qed

section \<open>Addresses and words of the array\<close>

lemma bit_alias: "bit FLASH_ALIAS n \<longleftrightarrow> n = 27"
proof -
  have eq: "FLASH_ALIAS = push_bit 27 1" by (simp add: FLASH_ALIAS_def)
  show ?thesis unfolding eq bit_one_at by auto
qed

lemma unat_alias:
  assumes "unat a < 2 ^ 27" shows "unat (a OR FLASH_ALIAS) = 2 ^ 27 + unat a"
proof -
  have "\<not> bit (unat a) 27" unfolding bit_iff_odd using assms by simp
  then have "\<not> bit a 27" by (simp add: bit_unsigned_iff)
  then have "a AND FLASH_ALIAS = 0" by (intro bit_word_eqI) (auto simp: ctl_bits bit_alias)
  then have "a OR FLASH_ALIAS = a + FLASH_ALIAS" using word_plus_and_or [of a FLASH_ALIAS] by simp
  then show ?thesis using unat_plus_nat [of a "2 ^ 27"] assms by (simp add: FLASH_ALIAS_def)
qed

lemma alias_at:
  assumes "unat a + k < 2 ^ 27"
  shows "(a OR FLASH_ALIAS) + of_nat k < 0x10000000" and "off ((a OR FLASH_ALIAS) + of_nat k) = unat a + k"
proof -
  have "unat ((a OR FLASH_ALIAS) + of_nat k) = 2 ^ 27 + (unat a + k)"
    using assms unat_alias [of a] unat_plus_nat [of "a OR FLASH_ALIAS" k] by simp
  with assms show "(a OR FLASH_ALIAS) + of_nat k < 0x10000000"
    and "off ((a OR FLASH_ALIAS) + of_nat k) = unat a + k"
    by (simp_all add: word_less_nat_alt off_def)
qed

lemma off_alias: "unat a < 2 ^ 27 \<Longrightarrow> off (a OR FLASH_ALIAS) = unat a"
  using alias_at(2) [of a 0] by simp

lemma device_byte:
  assumes "fmc_device io view over f" and "unat a + k < 2 ^ 27"
  shows "flash8 io m ((a OR FLASH_ALIAS) + of_nat k) = cells (chip_of view m) (unat a + k)"
  using device_flash8 [OF assms(1) alias_at(1) [OF assms(2)]] alias_at(2) [OF assms(2)] by simp

lemma le32_erased:
  "le32 b0 b1 b2 b3 = ERASED \<longleftrightarrow> b0 = byte32 0 ERASED \<and> b1 = byte32 (Suc 0) ERASED \<and>
     b2 = byte32 2 ERASED \<and> b3 = byte32 3 ERASED"
  by (metis byte32_le32 le32_split)

lemma pat_add: "k < 4 \<Longrightarrow> pat (4 * j + k) = byte32 k ERASED"
  by (simp add: pat_def)

lemma all_less_4: "(\<forall>k < 4 :: nat. P k) \<longleftrightarrow> P 0 \<and> P 1 \<and> P 2 \<and> P 3"
proof -
  have "k < 4 \<longleftrightarrow> k = 0 \<or> k = 1 \<or> k = 2 \<or> k = 3" for k :: nat by auto
  then show ?thesis by auto
qed

lemma word_at_erased: "word_at g j = ERASED \<longleftrightarrow> (\<forall>k < 4. g (4 * j + k) = pat (4 * j + k))"
  using pat_add [of 0 j] pat_add [of 1 j] pat_add [of 2 j] pat_add [of 3 j]
  by (simp add: word_at_def le32_erased all_less_4)

lemma page_words: "(p :: nat) mod 256 = 0 \<Longrightarrow> p = 4 * (p div 4)"
  by auto

lemma page_room: "(p :: nat) mod 256 = 0 \<Longrightarrow> p < 2 ^ 27 \<Longrightarrow> p + 256 \<le> 2 ^ 27"
proof -
  assume "p mod 256 = 0" and "p < 2 ^ 27"
  then obtain q where "p = 256 * q" "256 * q < 256 * 524288" by auto
  then show ?thesis by simp
qed

lemma in_page_word:
  "(\<forall>i < 64. \<forall>k < 4. P (4 * (q + i) + k :: nat)) \<longleftrightarrow> (\<forall>i. 4 * q \<le> i \<and> i < 4 * q + 256 \<longrightarrow> P i)"
proof
  assume L: "\<forall>i < 64. \<forall>k < 4. P (4 * (q + i) + k)"
  show "\<forall>i. 4 * q \<le> i \<and> i < 4 * q + 256 \<longrightarrow> P i"
  proof (intro allI impI)
    fix i assume "4 * q \<le> i \<and> i < 4 * q + 256"
    then have "(i - 4 * q) div 4 < 64" "(i - 4 * q) mod 4 < 4"
      "i = 4 * (q + (i - 4 * q) div 4) + (i - 4 * q) mod 4" by auto
    with L show "P i" by metis
  qed
qed auto

lemma device_page_erased:
  assumes D: "fmc_device io view over f" and a: "unat a mod 256 = 0" "unat a < 2 ^ 27"
  shows "fmc_page_is_erased io a m \<longleftrightarrow>
    (\<forall>i. unat a \<le> i \<and> i < unat a + 256 \<longrightarrow> cells (chip_of view m) i = pat i)"
proof -
  define q where "q = unat a div 4"
  have q: "unat a = 4 * q" using page_words [OF a(1)] by (simp add: q_def)
  have top: "unat a + 256 \<le> 2 ^ 27" using a by (rule page_room)
  have "flash32 io m ((a OR FLASH_ALIAS) + 4 * of_nat i) = word_at (cells (chip_of view m)) (q + i)"
    if "i < 64" for i
  proof -
    have "(a OR FLASH_ALIAS) + 4 * of_nat i + of_nat k = (a OR FLASH_ALIAS) + of_nat (4 * i + k)" for k
      by simp
    then have "flash8 io m ((a OR FLASH_ALIAS) + 4 * of_nat i + of_nat k) =
        cells (chip_of view m) (4 * (q + i) + k)" if "k < 4" for k
      using device_byte [OF D, of a "4 * i + k" m] that \<open>i < 64\<close> top q
      by (simp only:) (simp add: algebra_simps)
    from this [of 0] this [of 1] this [of 2] this [of 3] show ?thesis
      by (simp add: flash32_def word_at_def)
  qed
  then have "fmc_page_is_erased io a m \<longleftrightarrow>
      (\<forall>i < 64. \<forall>k < 4. cells (chip_of view m) (4 * (q + i) + k) = pat (4 * (q + i) + k))"
    by (simp add: fmc_page_is_erased_iff word_at_erased)
  also have "\<dots> \<longleftrightarrow> (\<forall>i. unat a \<le> i \<and> i < unat a + 256 \<longrightarrow> cells (chip_of view m) i = pat i)"
    unfolding q by (rule in_page_word)
  finally show ?thesis .
qed

section \<open>The erase operations\<close>

definition erase_span :: "nat \<Rightarrow> nat \<Rightarrow> (nat \<Rightarrow> u8) \<Rightarrow> nat \<Rightarrow> u8" where
  "erase_span p n A i = (if p \<le> i \<and> i < p + n then pat i else A i)"

lemma erase_block_span:
  assumes "p mod k = 0" "0 < k" shows "erase_block k p A = erase_span p k A"
proof -
  obtain q where p: "p = k * q" using assms(1) by auto
  have "i div k = q \<longleftrightarrow> p \<le> i \<and> i < p + k" for i
    using less_eq_div_iff_mult_less_eq [OF assms(2), of q i]
      div_less_iff_less_mult [OF assms(2), of i "Suc q"] by (auto simp: p algebra_simps)
  with assms(2) show ?thesis by (auto simp: fun_eq_iff erase_block_def erase_span_def p)
qed

lemma erase_span_add: "erase_span (p + m) n (erase_span p m A) = erase_span p (m + n) A"
  by (auto simp: fun_eq_iff erase_span_def)

lemma erase_span_0 [simp]: "erase_span p 0 A = A"
  by (auto simp: fun_eq_iff erase_span_def)

lemma device_erase_seq:
  assumes D: "fmc_device io view over f" and i: "chip_idle (chip_of view m)"
    and md: "\<And>n. bit md n \<longleftrightarrow> n = k" and k: "k = 17 \<and> N = 256 \<or> k = 18 \<and> N = 32768"
  obtains m1 v m2 where
    "fmc_wait_busy io (or32 io FMC_CTL FMC_CTL_START (wr32 io FMC_ADDR fa (or32 io FMC_CTL md
       (fmc_fast_unlock io m)))) = Some m1"
    "rd32 io FMC_STAT m1 = (v, m2)"
    "\<not> flag_set v (FMC_STAT_PG_ERR OR FMC_STAT_WP_ERR)" "flag_set v FMC_STAT_WP_ENDF"
    "cells (chip_of view (and32 io FMC_CTL (NOT FMC_CTL_START) (and32 io FMC_CTL (NOT md)
       (wr32 io FMC_STAT FMC_STAT_WP_ENDF m2)))) = erase_block N (off fa) (cells (chip_of view m))"
    "chip_idle (chip_of view (and32 io FMC_CTL (NOT FMC_CTL_START) (and32 io FMC_CTL (NOT md)
       (wr32 io FMC_STAT FMC_STAT_WP_ENDF m2))))"
proof -
  let ?u = "fmc_fast_unlock io m"
  let ?s = "or32 io FMC_CTL FMC_CTL_START (wr32 io FMC_ADDR fa (or32 io FMC_CTL md ?u))"
  note U = device_unlock [OF D, of m]
  obtain m1 where w: "fmc_wait_busy io ?s = Some m1" and m1: "chip_of view m1 = chip_of view ?s"
    using device_wait(1) [OF D] by blast
  obtain v m2 where r: "rd32 io FMC_STAT m1 = (v, m2)" by fastforce
  let ?e = "and32 io FMC_CTL (NOT FMC_CTL_START) (and32 io FMC_CTL (NOT md)
       (wr32 io FMC_STAT FMC_STAT_WP_ENDF m2))"
  have b: "chip_of view m1 = erase_begin over md fa (chip_of view ?u)"
    by (simp add: m1 erase_begin_def Let_def device_ctl [OF D] device_wr32 [OF D] chip_wr_def)
  have e: "chip_of view ?e = erase_finish over md (chip_of view m1)"
    using device_rd32(1) [OF D r]
    by (simp add: erase_finish_def Let_def device_ctl [OF D] device_wr32 [OF D] chip_wr_def bit_stat)
  note E = chip_erase [OF U(1) U(3) [OF i] md k, of over fa]
  show thesis
    using E U(2) device_stat [OF D r] by (intro that [OF w r]) (simp_all add: b e)
qed

lemma device_erase_page:
  assumes D: "fmc_device io view over f" and i: "chip_idle (chip_of view m)"
    and a: "unat a mod 256 = 0" "unat a < 2 ^ 27"
  shows "\<exists>m'. fmc_erase_page io a m = Some (True, m') \<and> chip_idle (chip_of view m') \<and>
    cells (chip_of view m') = erase_span (unat a) 256 (cells (chip_of view m))"
proof -
  let ?m = "csrc MSTATUS MIE_BIT m"
  have "chip_idle (chip_of view ?m)" using i by simp
  from device_erase_seq [OF D this bit_flags(6) disjI1 [OF conjI [OF refl refl]], of "a OR FLASH_ALIAS"]
  obtain m1 v m2 where *: "fmc_wait_busy io (or32 io FMC_CTL FMC_CTL_START (wr32 io FMC_ADDR (a OR FLASH_ALIAS)
       (or32 io FMC_CTL FMC_CTL_FASTERASE (fmc_fast_unlock io ?m)))) = Some m1"
    "rd32 io FMC_STAT m1 = (v, m2)"
    "\<not> flag_set v (FMC_STAT_PG_ERR OR FMC_STAT_WP_ERR)" "flag_set v FMC_STAT_WP_ENDF"
    and C: "cells (chip_of view (and32 io FMC_CTL (NOT FMC_CTL_START) (and32 io FMC_CTL (NOT FMC_CTL_FASTERASE)
       (wr32 io FMC_STAT FMC_STAT_WP_ENDF m2)))) = erase_block 256 (off (a OR FLASH_ALIAS)) (cells (chip_of view ?m))"
    and I: "chip_idle (chip_of view (and32 io FMC_CTL (NOT FMC_CTL_START) (and32 io FMC_CTL (NOT FMC_CTL_FASTERASE)
       (wr32 io FMC_STAT FMC_STAT_WP_ENDF m2))))" by blast
  let ?e = "and32 io FMC_CTL (NOT FMC_CTL_START) (and32 io FMC_CTL (NOT FMC_CTL_FASTERASE)
       (wr32 io FMC_STAT FMC_STAT_WP_ENDF m2))"
  have C': "cells (chip_of view ?e) = erase_span (unat a) 256 (cells (chip_of view m))"
    using C erase_block_span [OF a(1)] a(2) by (simp add: off_alias)
  then have "fmc_page_is_erased io a ?e"
    unfolding device_page_erased [OF D a] by (simp add: erase_span_def)
  then have "page_words_erased io ?e (a OR FLASH_ALIAS)" by (simp add: fmc_page_is_erased_def)
  with * C' I show ?thesis by (simp add: fmc_erase_page_def AutoNoInterrupt_def Let_def)
qed

lemma device_erase_32k:
  assumes D: "fmc_device io view over f" and i: "chip_idle (chip_of view m)"
    and a: "unat a mod 32768 = 0" "unat a < 2 ^ 27"
  shows "\<exists>m'. fmc_erase_32k io a m = Some (True, m') \<and> chip_idle (chip_of view m') \<and>
    cells (chip_of view m') = erase_span (unat a) 32768 (cells (chip_of view m))"
proof -
  let ?m = "csrc MSTATUS MIE_BIT m"
  have "chip_idle (chip_of view ?m)" using i by simp
  from device_erase_seq [OF D this bit_flags(7) disjI2 [OF conjI [OF refl refl]], of "a OR FLASH_ALIAS"]
  obtain m1 v m2 where *: "fmc_wait_busy io (or32 io FMC_CTL FMC_CTL_START (wr32 io FMC_ADDR (a OR FLASH_ALIAS)
       (or32 io FMC_CTL FMC_CTL_BER32 (fmc_fast_unlock io ?m)))) = Some m1"
    "rd32 io FMC_STAT m1 = (v, m2)"
    "\<not> flag_set v (FMC_STAT_PG_ERR OR FMC_STAT_WP_ERR)" "flag_set v FMC_STAT_WP_ENDF"
    "cells (chip_of view (and32 io FMC_CTL (NOT FMC_CTL_START) (and32 io FMC_CTL (NOT FMC_CTL_BER32)
       (wr32 io FMC_STAT FMC_STAT_WP_ENDF m2)))) = erase_block 32768 (off (a OR FLASH_ALIAS)) (cells (chip_of view ?m))"
    "chip_idle (chip_of view (and32 io FMC_CTL (NOT FMC_CTL_START) (and32 io FMC_CTL (NOT FMC_CTL_BER32)
       (wr32 io FMC_STAT FMC_STAT_WP_ENDF m2))))" by blast
  with erase_block_span [OF a(1)] a(2) show ?thesis
    by (simp add: fmc_erase_32k_def AutoNoInterrupt_def off_alias Let_def)
qed

lemma device_erase_pages:
  assumes D: "fmc_device io view over f"
  shows "chip_idle (chip_of view m) \<Longrightarrow> unat a mod 256 = 0 \<Longrightarrow> unat a + 256 * n \<le> 2 ^ 27 \<Longrightarrow>
    \<exists>m'. erase_pages io n a m = Some (True, m') \<and> chip_idle (chip_of view m') \<and>
      cells (chip_of view m') = erase_span (unat a) (256 * n) (cells (chip_of view m))"
proof (induction n arbitrary: a m)
  case (Suc n)
  from Suc.prems obtain m1 where m1: "fmc_erase_page io a m = Some (True, m1)" "chip_idle (chip_of view m1)"
    "cells (chip_of view m1) = erase_span (unat a) 256 (cells (chip_of view m))"
    using device_erase_page [OF D, of m a] by auto
  have u: "unat (a + 256) = unat a + 256" using unat_plus_nat [of a 256] Suc.prems(3) by simp
  with Suc.prems obtain m2 where "erase_pages io n (a + 256) m1 = Some (True, m2)"
    "chip_idle (chip_of view m2)"
    "cells (chip_of view m2) = erase_span (unat a + 256) (256 * n) (cells (chip_of view m1))"
    using Suc.IH [of m1 "a + 256"] m1(2) by auto
  with m1 show ?case by (simp add: erase_span_add)
qed simp

section \<open>Programming\<close>

definition put :: "nat \<Rightarrow> u8 list \<Rightarrow> (nat \<Rightarrow> u8) \<Rightarrow> nat \<Rightarrow> u8" where
  "put p bs A i = (if p \<le> i \<and> i < p + length bs then bs ! (i - p) else A i)"

lemma put_Nil [simp]: "put p [] A = A"
  by (auto simp: fun_eq_iff put_def)

lemma put_append: "put (p + length bs) cs (put p bs A) = put p (bs @ cs) A"
  by (auto simp: fun_eq_iff put_def nth_append)

lemma put_erased: "length bs = n \<Longrightarrow> put p bs (erase_span p n A) = put p bs A"
  by (auto simp: fun_eq_iff put_def erase_span_def)

definition word_buf :: "nat \<Rightarrow> nat \<Rightarrow> (nat \<Rightarrow> u8) \<Rightarrow> nat \<rightharpoonup> u32" where
  "word_buf q n g j = (if q \<le> j \<and> j < q + n then Some (word_at g (j - q)) else None)"

lemma byte32_word_at: "k < 4 \<Longrightarrow> byte32 k (word_at g j) = g (4 * j + k)"
proof -
  have "\<forall>k < 4. byte32 k (word_at g j) = g (4 * j + k)"
    by (simp add: all_less_4 word_at_def)
  then show "k < 4 \<Longrightarrow> byte32 k (word_at g j) = g (4 * j + k)" by blast
qed

lemma commit_word_buf:
  assumes er: "\<forall>i. 4 * q \<le> i \<and> i < 4 * (q + n) \<longrightarrow> A i = pat i"
  shows "commit over (word_buf q n g) A = (\<lambda>i. if 4 * q \<le> i \<and> i < 4 * (q + n) then g (i - 4 * q) else A i)"
proof
  fix i :: nat
  have i: "i = 4 * (i div 4) + i mod 4" "i mod 4 < 4" by simp_all
  show "commit over (word_buf q n g) A i = (if 4 * q \<le> i \<and> i < 4 * (q + n) then g (i - 4 * q) else A i)"
  proof (cases "q \<le> i div 4 \<and> i div 4 < q + n")
    case True
    then have "4 * q \<le> i \<and> i < 4 * (q + n)" by auto
    moreover have "word_at A (i div 4) = ERASED"
      unfolding word_at_erased using er True by (auto simp: algebra_simps)
    moreover have "4 * (i div 4 - q) + i mod 4 = i - 4 * q"
      using True i(1) by (simp add: algebra_simps)
    ultimately show ?thesis using True
      by (simp add: commit_def word_buf_def byte32_word_at)
  next
    case False
    then have "\<not> (4 * q \<le> i \<and> i < 4 * (q + n))" by auto
    with False show ?thesis by (auto simp: commit_def word_buf_def)
  qed
qed

lemma cp_rd32_word:
  assumes "4 \<le> length (cp_bytes d)" shows "cp_rd32 d = Some (word_at ((!) (cp_bytes d)) 0)"
proof -
  from assms have "cp_bytes d \<noteq> []" by auto
  with assms show ?thesis by (simp add: cp_rd32_def cp_rd8_def word_at_def numeral_2_eq_2)
qed

lemma word_at_drop: "4 * Suc j + 4 \<le> length bs \<Longrightarrow> word_at ((!) (drop 4 bs)) j = word_at ((!) bs) (Suc j)"
  by (simp add: word_at_def add.commute)

lemma word_buf_0 [simp]: "word_buf q 0 g = Map.empty"
  by (simp add: fun_eq_iff word_buf_def)

lemma device_fill:
  assumes D: "fmc_device io view over f"
  shows "bit (ctl (chip_of view m)) 16 \<Longrightarrow> 2 ^ 27 \<le> unat p \<Longrightarrow> unat p + 4 * n \<le> 2 ^ 28 \<Longrightarrow>
    unat p = 2 ^ 27 + 4 * q \<Longrightarrow> 4 * n \<le> length (cp_bytes d) \<Longrightarrow>
    \<exists>m'. fill_aligned io n p d m = Some m' \<and> chip_of view m' =
      (chip_of view m)\<lparr>page_buf := page_buf (chip_of view m) ++ word_buf q n ((!) (cp_bytes d))\<rparr>"
proof (induction n arbitrary: p q d m)
  case 0
  then show ?case by simp
next
  case (Suc n)
  let ?w = "word_at ((!) (cp_bytes d)) 0"
  let ?c = "(chip_of view m)\<lparr>page_buf := (page_buf (chip_of view m))(q \<mapsto> ?w)\<rparr>"
  have rd: "cp_rd32 d = Some ?w" using Suc.prems(5) by (intro cp_rd32_word) simp
  have p: "p < 0x10000000" "off p div 4 = q"
    using Suc.prems by (simp_all add: word_less_nat_alt off_def)
  obtain m1 where m1: "fmc_wait_wr_busy io (wr32 io p ?w m) = Some m1" "chip_of view m1 = ?c"
    using device_wait(2) [OF D, of "wr32 io p ?w m"] Suc.prems(1) p
    by (auto simp: device_wr32 [OF D] chip_wr_def)
  have p4: "unat (p + 4) = unat p + 4" using unat_plus_nat [of p 4] Suc.prems(3) by simp
  have h: "bit (ctl (chip_of view m1)) 16" "2 ^ 27 \<le> unat (p + 4)" "unat (p + 4) + 4 * n \<le> 2 ^ 28"
      "unat (p + 4) = 2 ^ 27 + 4 * Suc q" "4 * n \<le> length (cp_bytes (cp_add d 4))"
    using Suc.prems p4 m1(2) by simp_all
  obtain m2 where m2: "fill_aligned io n (p + 4) (cp_add d 4) m1 = Some m2" "chip_of view m2 =
      (chip_of view m1)\<lparr>page_buf := page_buf (chip_of view m1) ++
         word_buf (Suc q) n ((!) (cp_bytes (cp_add d 4)))\<rparr>"
    using Suc.IH [OF h] by blast
  have "(page_buf (chip_of view m))(q \<mapsto> ?w) ++ word_buf (Suc q) n ((!) (drop 4 (cp_bytes d))) =
      page_buf (chip_of view m) ++ word_buf q (Suc n) ((!) (cp_bytes d))"
  proof
    fix j
    have "word_at ((!) (drop 4 (cp_bytes d))) (j - Suc q) = word_at ((!) (cp_bytes d)) (j - q)"
      if "Suc q \<le> j" "j < Suc q + n"
    proof -
      have "Suc (j - Suc q) = j - q" using that by simp
      with word_at_drop [of "j - Suc q" "cp_bytes d"] Suc.prems(5) that show ?thesis by simp
    qed
    then show "((page_buf (chip_of view m))(q \<mapsto> ?w) ++ word_buf (Suc q) n ((!) (drop 4 (cp_bytes d)))) j =
        (page_buf (chip_of view m) ++ word_buf q (Suc n) ((!) (cp_bytes d))) j"
      by (auto simp: map_add_def word_buf_def split: option.split)
  qed
  with rd m1 m2 show ?case by simp
qed

text \<open>The sequence of a block write, on the chip: mode bit, page buffer, start; then mode and flag cleared.\<close>

definition program_run :: "(u32 \<Rightarrow> u32 \<Rightarrow> u32) \<Rightarrow> (nat \<rightharpoonup> u32) \<Rightarrow> chip \<Rightarrow> chip" where
  "program_run over buf c =
     (let c = ctl_write over (ctl c OR FMC_CTL_FASTPROGRAM) c; c = c\<lparr>page_buf := page_buf c ++ buf\<rparr>
      in ctl_write over (ctl c OR FMC_CTL_FASTSTART) c)"

definition program_finish :: "(u32 \<Rightarrow> u32 \<Rightarrow> u32) \<Rightarrow> chip \<Rightarrow> chip" where
  "program_finish over c =
     (let c = ctl_write over (ctl c AND NOT FMC_CTL_PG) c;
          c = ctl_write over (ctl c AND NOT FMC_CTL_FASTPROGRAM) c
      in c\<lparr>endf := False\<rparr>)"

lemma chip_program_mode:
  assumes "unlocked c" shows "bit (ctl (ctl_write over (ctl c OR FMC_CTL_FASTPROGRAM) c)) 16"
  using assms by (simp add: unlocked_def bit_ctl_write ctl_bits)

lemma chip_program:
  assumes u: "unlocked c" and i: "chip_idle c"
  shows "endf (program_run over buf c)"
    and "cells (program_finish over (program_run over buf c)) = commit over buf (cells c)"
    and "chip_idle (program_finish over (program_run over buf c))"
    and "unlocked (program_finish over (program_run over buf c))"
proof -
  define c1 where "c1 = ctl_write over (ctl c OR FMC_CTL_FASTPROGRAM) c"
  define c2 where "c2 = c1\<lparr>page_buf := page_buf c1 ++ buf\<rparr>"
  define c3 where "c3 = ctl_write over (ctl c2 OR FMC_CTL_FASTSTART) c2"
  define c4 where "c4 = ctl_write over (ctl c3 AND NOT FMC_CTL_PG) c3"
  define c5 where "c5 = ctl_write over (ctl c4 AND NOT FMC_CTL_FASTPROGRAM) c4"
  have b0: "\<not> bit (ctl c) 0" "\<not> bit (ctl c) 6" "\<not> bit (ctl c) 7" "\<not> bit (ctl c) 15" "\<not> bit (ctl c) 16"
      "\<not> bit (ctl c) 17" "\<not> bit (ctl c) 18" "\<not> bit (ctl c) 21"
    using u i by (simp_all add: unlocked_def chip_idle_def)
  have len: "bit (ctl c) n \<Longrightarrow> n < 32" for n using bit_imp_le_length [of "ctl c" n] by simp
  have b2: "bit (ctl c2) n \<longleftrightarrow> bit (ctl c) n \<or> n = 16" for n
    using b0 by (auto simp: c2_def c1_def bit_ctl_write ctl_bits)
  have s2: "cells c2 = cells c" "page_buf c2 = buf"
    using b0 i by (auto simp: c2_def c1_def ctl_write_plain ctl_bits chip_idle_def)
  have b3: "bit (ctl c3) n \<longleftrightarrow> bit (ctl c2) n" for n
    using b0 by (auto simp: c3_def bit_ctl_write ctl_bits b2)
  have "unlocked c2" using b0 by (auto simp: unlocked_def b2)
  moreover have "\<not> bit (ctl c2 OR FMC_CTL_FASTSTART) 6" "bit (ctl c2 OR FMC_CTL_FASTSTART) 21"
      "bit (ctl c2 OR FMC_CTL_FASTSTART) 16"
    using b0 by (auto simp: ctl_bits b2)
  ultimately have s3: "cells c3 = commit over (page_buf c2) (cells c2)" "endf c3" "page_buf c3 = Map.empty"
    unfolding c3_def by (blast intro: ctl_write_commit)+
  have b4: "bit (ctl c4) n \<longleftrightarrow> bit (ctl c2) n" for n
    using b0 len [of n] by (cases "n = 0") (auto simp: c4_def bit_ctl_write ctl_bits b3 b2)
  have s4: "cells c4 = cells c3" "page_buf c4 = page_buf c3"
    using b0 by (auto simp: c4_def ctl_write_plain ctl_bits b3 b2)
  have b5: "bit (ctl c5) n \<longleftrightarrow> bit (ctl c) n" for n
    using b0 len [of n] by (auto simp: c5_def bit_ctl_write ctl_bits b4 b2)
  have s5: "cells c5 = cells c4" "page_buf c5 = page_buf c4"
    using b0 by (auto simp: c5_def ctl_write_plain ctl_bits b4 b2)
  have eq: "program_run over buf c = c3" "program_finish over c3 = c5\<lparr>endf := False\<rparr>"
    by (simp_all add: program_run_def program_finish_def c1_def c2_def c3_def c4_def c5_def Let_def)
  show "endf (program_run over buf c)" using s3 by (simp add: eq)
  show "cells (program_finish over (program_run over buf c)) = commit over buf (cells c)"
    using s2 s3 s4 s5 by (simp add: eq)
  show "chip_idle (program_finish over (program_run over buf c))"
    using i s3 s4 s5 by (simp add: eq chip_idle_def b5)
  show "unlocked (program_finish over (program_run over buf c))"
    using u by (simp add: eq unlocked_def b5)
qed

lemma device_write_block:
  assumes D: "fmc_device io view over f" and u: "unlocked (chip_of view m)" and i: "chip_idle (chip_of view m)"
    and a: "unat a mod 256 = 0" "unat a < 2 ^ 27" and d: "256 \<le> length (cp_bytes d)"
    and er: "\<forall>i. unat a \<le> i \<and> i < unat a + 256 \<longrightarrow> cells (chip_of view m) i = pat i"
  shows "\<exists>m'. fmc_write_block io a d m = Some (True, m') \<and> unlocked (chip_of view m') \<and>
    chip_idle (chip_of view m') \<and>
    cells (chip_of view m') = put (unat a) (take 256 (cp_bytes d)) (cells (chip_of view m))"
proof -
  define q where "q = unat a div 4"
  have q: "unat a = 4 * q" using page_words [OF a(1)] by (simp add: q_def)
  have top: "unat a + 256 \<le> 2 ^ 27" using a by (rule page_room)
  let ?c = "chip_of view m" and ?p = "a OR FLASH_ALIAS"
  let ?m1 = "or32 io FMC_CTL FMC_CTL_FASTPROGRAM (csrc MSTATUS MIE_BIT m)"
  obtain m2 where m2: "fmc_wait_busy io ?m1 = Some m2" "chip_of view m2 = chip_of view ?m1"
    using device_wait(1) [OF D] by blast
  obtain m3 where m3: "fmc_wait_wr_busy io m2 = Some m3" "chip_of view m3 = chip_of view m2"
    using device_wait(2) [OF D] by blast
  have c3: "chip_of view m3 = ctl_write over (ctl ?c OR FMC_CTL_FASTPROGRAM) ?c"
    by (simp add: m3 m2 device_ctl [OF D])
  have "unat ?p = 2 ^ 27 + 4 * q" using unat_alias [OF a(2)] q by simp
  then obtain m4 where m4: "fill_aligned io 64 ?p d m3 = Some m4" "chip_of view m4 =
      (chip_of view m3)\<lparr>page_buf := page_buf (chip_of view m3) ++ word_buf q 64 ((!) (cp_bytes d))\<rparr>"
    using device_fill [OF D, of m3 ?p 64 q d] chip_program_mode [OF u] c3 d q top by auto
  let ?m5 = "or32 io FMC_CTL FMC_CTL_FASTSTART m4"
  obtain m6 where m6: "fmc_wait_busy io ?m5 = Some m6" "chip_of view m6 = chip_of view ?m5"
    using device_wait(1) [OF D] by blast
  have c6: "chip_of view m6 = program_run over (word_buf q 64 ((!) (cp_bytes d))) ?c"
    by (simp add: m6 device_ctl [OF D] m4 c3 program_run_def Let_def)
  obtain v m7 where r: "rd32 io FMC_STAT m6 = (v, m7)" by fastforce
  let ?e = "wr32 io FMC_STAT FMC_STAT_WP_ENDF (and32 io FMC_CTL (NOT FMC_CTL_FASTPROGRAM)
       (and32 io FMC_CTL (NOT FMC_CTL_PG) m7))"
  have e: "chip_of view ?e = program_finish over (chip_of view m6)"
    using device_rd32(1) [OF D r]
    by (simp add: program_finish_def Let_def device_ctl [OF D] device_wr32 [OF D] chip_wr_def bit_stat)
  note P = chip_program [OF u i, of over "word_buf q 64 ((!) (cp_bytes d))"]
  have "commit over (word_buf q 64 ((!) (cp_bytes d))) (cells ?c) =
      put (unat a) (take 256 (cp_bytes d)) (cells ?c)"
    using commit_word_buf [of q 64 "cells ?c" over "(!) (cp_bytes d)"] er d q
    by (auto simp: fun_eq_iff put_def)
  then show ?thesis
    using P device_stat [OF D r] m2(1) m3(1) m4(1) m6(1) r
    by (simp add: fmc_write_block_def AutoNoInterrupt_def Let_def fill_unaligned_eq_aligned e c6)
qed

lemma device_write_blocks:
  assumes D: "fmc_device io view over f"
  shows "unlocked (chip_of view m) \<Longrightarrow> chip_idle (chip_of view m) \<Longrightarrow> unat a mod 256 = 0 \<Longrightarrow>
    unat a + 256 * k \<le> 2 ^ 27 \<Longrightarrow> n \<le> 256 * int k \<Longrightarrow> 256 * int k < n + 256 \<Longrightarrow>
    256 * k \<le> length (cp_bytes d) \<Longrightarrow>
    \<forall>i. unat a \<le> i \<and> i < unat a + 256 * k \<longrightarrow> cells (chip_of view m) i = pat i \<Longrightarrow>
    \<exists>m'. write_blocks io a d n m = Some (True, m') \<and> chip_idle (chip_of view m') \<and>
      cells (chip_of view m') = put (unat a) (take (256 * k) (cp_bytes d)) (cells (chip_of view m))"
proof (induction k arbitrary: a d n m)
  case 0
  then show ?case by (simp add: write_blocks.simps [of io a d n m])
next
  case (Suc k)
  let ?c = "chip_of view m"
  obtain m1 where m1: "fmc_write_block io a d m = Some (True, m1)" "unlocked (chip_of view m1)"
    "chip_idle (chip_of view m1)"
    "cells (chip_of view m1) = put (unat a) (take 256 (cp_bytes d)) (cells ?c)"
    using device_write_block [OF D Suc.prems(1,2,3), of d] Suc.prems(4,7,8) by auto
  have u: "unat (a + 256) = unat a + 256" using unat_plus_nat [of a 256] Suc.prems(4) by simp
  have rest: "cells (chip_of view m1) i = pat i" if "unat (a + 256) \<le> i" "i < unat (a + 256) + 256 * k" for i
    using that Suc.prems(8) by (auto simp: m1(4) put_def u)
  have "\<exists>m'. write_blocks io (a + 256) (cp_add d 256) (n - 256) m1 = Some (True, m') \<and>
      chip_idle (chip_of view m') \<and> cells (chip_of view m') =
      put (unat (a + 256)) (take (256 * k) (cp_bytes (cp_add d 256))) (cells (chip_of view m1))"
    using Suc.prems rest by (intro Suc.IH m1) (auto simp: u)
  then obtain m2 where m2: "write_blocks io (a + 256) (cp_add d 256) (n - 256) m1 = Some (True, m2)"
    "chip_idle (chip_of view m2)" "cells (chip_of view m2) =
      put (unat a + 256) (take (256 * k) (drop 256 (cp_bytes d))) (put (unat a) (take 256 (cp_bytes d)) (cells ?c))"
    by (auto simp: u m1(4))
  have "length (take 256 (cp_bytes d)) = 256" using Suc.prems(7) by simp
  then have "cells (chip_of view m2) =
      put (unat a) (take 256 (cp_bytes d) @ take (256 * k) (drop 256 (cp_bytes d))) (cells ?c)"
    using m2(3) put_append [of "unat a" "take 256 (cp_bytes d)"] by simp
  then have "cells (chip_of view m2) = put (unat a) (take (256 * Suc k) (cp_bytes d)) (cells ?c)"
    by (simp add: take_add)
  moreover have "n > 0" using Suc.prems(6) by simp
  ultimately show ?case
    using m1(1) m2(1,2) by (simp add: write_blocks.simps [of io a d n m])
qed

lemma device_write:
  assumes D: "fmc_device io view over f" and i: "chip_idle (chip_of view m)"
    and "unat a mod 256 = 0" "unat a + 256 * k \<le> 2 ^ 27" "n \<le> 256 * int k" "256 * int k < n + 256"
    and "256 * k \<le> length (cp_bytes d)"
    and "\<forall>i. unat a \<le> i \<and> i < unat a + 256 * k \<longrightarrow> cells (chip_of view m) i = pat i"
  shows "\<exists>m'. fmc_write io a d n m = Some (True, m') \<and> chip_idle (chip_of view m') \<and>
    cells (chip_of view m') = put (unat a) (take (256 * k) (cp_bytes d)) (cells (chip_of view m))"
  unfolding fmc_write_def
  using device_write_blocks [OF D, of "fmc_fast_unlock io m" a k n d] assms(3-) device_unlock [OF D, of m] i
  by simp

text \<open>The LED is on another peripheral.\<close>

lemma device_LED:
  assumes "fmc_device io view over f"
  shows "chip_of view (lnDigitalWrite io LED_PIN v m) = chip_of view m"
  by (simp add: lnDigitalWrite_def decode_pins device_wr32 [OF assms] chip_wr_def gpioPort_def
    LN_GPIOA_ADR_def GPIO_BSHR_def GPIO_BCR_def FMC_STAT_def FMC_CTL_def FMC_ADDR_def FMC_KEY_def
    FMC_CHF9_def FMC_BASE_def)

end
