(* ===== verification/Dfu_Flash.thy ===== *)
theory Dfu_Flash
  imports Fmc_Device
begin

text \<open>
  What the DFU handlers do to the flash array, over the flash driver's operations: the interface
  \<open>flash_array\<close> extends \<open>flash_driver\<close> by the effect of every operation on the array. The driver of
  \<^verbatim>\<open>flash.h\<close> on any controller that behaves as documented (\<open>fmc_device\<close>) implements it.
\<close>

lemma pages_for: "n \<le> 256 * ((n + 255) div 256)" "256 * ((n + 255) div 256) < n + 256" for n :: nat
  by linarith+

lemma put_outside: "i < p \<or> p + length bs \<le> i \<Longrightarrow> put p bs A i = A i"
  by (auto simp: put_def)

lemma next_page: "(p :: nat) mod 256 = 0 \<Longrightarrow> (p + 4096) mod 256 = 0"
  by (simp add: mod_eq_0_iff_dvd)

locale flash_array = flash_driver +
  fixes A :: "'a \<Rightarrow> nat \<Rightarrow> u8"
    and ok :: "'a \<Rightarrow> bool"
  assumes content_array: "unat a + k < 2 ^ 27 \<Longrightarrow>
      content s ((a OR FLASH_ALIAS) + of_nat k) = A s (unat a + k)"
    and erased_array: "unat a mod 256 = 0 \<Longrightarrow> unat a < 2 ^ 27 \<Longrightarrow>
      page_is_erased fl a s \<longleftrightarrow> (\<forall>i. unat a \<le> i \<and> i < unat a + 256 \<longrightarrow> A s i = pat i)"
    and erase_page_array: "ok s \<Longrightarrow> unat a mod 256 = 0 \<Longrightarrow> unat a < 2 ^ 27 \<Longrightarrow>
      \<exists>s'. erase_page fl a s = Some (True, s') \<and> ok s' \<and> A s' = erase_span (unat a) 256 (A s)"
    and erase_32k_array: "ok s \<Longrightarrow> unat a mod 32768 = 0 \<Longrightarrow> unat a < 2 ^ 27 \<Longrightarrow>
      \<exists>s'. erase_32k fl a s = Some (True, s') \<and> ok s' \<and> A s' = erase_span (unat a) 32768 (A s)"
    and erase_range_array: "ok s \<Longrightarrow> unat a mod 256 = 0 \<Longrightarrow> unat a + 1024 * k \<le> 2 ^ 27 \<Longrightarrow>
      \<exists>s'. erase_range fl a (int k) s = Some (True, s') \<and> ok s' \<and> A s' = erase_span (unat a) (1024 * k) (A s)"
    and write_array: "ok s \<Longrightarrow> unat a mod 256 = 0 \<Longrightarrow> unat a + 256 * k \<le> 2 ^ 27 \<Longrightarrow>
      n \<le> 256 * int k \<Longrightarrow> 256 * int k < n + 256 \<Longrightarrow> 256 * k \<le> length (cp_bytes d) \<Longrightarrow>
      (\<forall>i. unat a \<le> i \<and> i < unat a + 256 * k \<longrightarrow> A s i = pat i) \<Longrightarrow>
      \<exists>s'. flash_write fl a d n s = Some (True, s') \<and> ok s' \<and>
        A s' = put (unat a) (take (256 * k) (cp_bytes d)) (A s)"
    and led_array: "A (set_led fl v s) = A s" "ok (set_led fl v s) = ok s"
begin

lemma erase_dirty_pages_array:
  "ok s \<Longrightarrow> unat a mod 256 = 0 \<Longrightarrow> unat a + 256 * k \<le> 2 ^ 27 \<Longrightarrow>
   unat lim \<le> unat a + 256 * k \<Longrightarrow> unat a + 256 * k < unat lim + 256 \<Longrightarrow>
   \<exists>s'. erase_dirty_pages fl a lim s = Some (True, s') \<and> ok s' \<and> A s' = erase_span (unat a) (256 * k) (A s)"
proof (induction k arbitrary: a s)
  case 0
  then have "\<not> a < lim" by (simp add: word_less_nat_alt)
  with 0 show ?case by (simp add: erase_dirty_pages.simps [of fl a lim s])
next
  case (Suc k)
  have lt: "a < lim" using Suc.prems(5) by (simp add: word_less_nat_alt)
  have u: "unat (a + 256) = unat a + 256" using unat_plus_nat [of a 256] Suc.prems(3) by simp
  have IH: "\<exists>s'. erase_dirty_pages fl (a + 256) lim t = Some (True, s') \<and> ok s' \<and>
      A s' = erase_span (unat a + 256) (256 * k) (A t)" if "ok t" for t
    using Suc.IH [OF that, of "a + 256"] Suc.prems u by simp
  show ?case
  proof (cases "page_is_erased fl a s")
    case True
    then have "erase_span (unat a) 256 (A s) = A s"
      using erased_array [of a s] Suc.prems by (auto simp: fun_eq_iff erase_span_def)
    then have "erase_span (unat a + 256) (256 * k) (A s) = erase_span (unat a) (256 + 256 * k) (A s)"
      by (metis erase_span_add)
    with IH [OF Suc.prems(1)] lt True show ?thesis
      by (simp add: erase_dirty_pages.simps [of fl a lim s] FLASH_SECTOR_SIZE_def)
  next
    case False
    obtain s1 where "erase_page fl a s = Some (True, s1)" "ok s1" "A s1 = erase_span (unat a) 256 (A s)"
      using erase_page_array [of s a] Suc.prems by auto
    with IH [of s1] lt False show ?thesis
      by (simp add: erase_dirty_pages.simps [of fl a lim s] FLASH_SECTOR_SIZE_def erase_span_add)
  qed
qed

lemma write_block_array:
  assumes "ok (plat d)" and wa: "unat (write_address (dfu_address d) (dfu_block_num d)) = wa"
    and al: "wa mod 256 = 0" and top: "wa + unat len \<le> unat (flash_end d)" "unat (flash_end d) \<le> 2 ^ 27"
    and k: "k = (unat len + 255) div 256" and buf: "256 * k \<le> length (cp_bytes data)"
  shows "\<exists>s'. dfu_write_block fl data len d = Some (d\<lparr>plat := s', status := DFU_STATUS_OK\<rparr>) \<and>
    ok s' \<and> A s' = put wa (take (256 * k) (cp_bytes data)) (A (plat d))"
proof -
  let ?wa = "write_address (dfu_address d) (dfu_block_num d)"
  let ?bs = "take (256 * k) (cp_bytes data)"
  obtain q where q: "wa = 256 * q" using al by auto
  have kl: "unat len \<le> 256 * k" "256 * k < unat len + 256" using pages_for [of "unat len"] unfolding k by simp_all
  have "256 * q + unat len \<le> 256 * 524288" using top by (simp add: q)
  then have "q + k \<le> 524288" using kl by simp
  then have fit: "wa + 256 * k \<le> 2 ^ 27" by (simp add: q)
  have lim: "unat (?wa + ucast len) = wa + unat len"
    using unat_add_small [of ?wa "ucast len"] wa top by simp
  have base: "page_base ?wa = ?wa"
    using page_base_unat [of ?wa] wa al by (simp add: word_unat_eq_iff)
  obtain s1 where s1: "erase_dirty_pages fl (page_base ?wa) (?wa + ucast len) (plat d) = Some (True, s1)"
    "ok s1" "A s1 = erase_span wa (256 * k) (A (plat d))"
    using erase_dirty_pages_array [OF assms(1), of ?wa k "?wa + ucast len"] wa al fit kl lim base by auto
  have "int (unat len) \<le> int (256 * k)" "int (256 * k) < int (unat len + 256)"
    using kl by (simp_all only: of_nat_le_iff of_nat_less_iff)
  then have kn: "uint len \<le> 256 * int k" "256 * int k < uint len + 256" by simp_all
  obtain s2 where s2: "flash_write fl ?wa data (uint len) s1 = Some (True, s2)" "ok s2"
    "A s2 = put wa ?bs (A s1)"
    using write_array [OF s1(2), of ?wa k "uint len" data] wa al fit kn buf s1(3)
    by (auto simp: erase_span_def)
  have A2: "A s2 = put wa ?bs (A (plat d))"
    using s2(3) s1(3) put_erased [of ?bs "256 * k" wa] buf by simp
  have "content s2 ((?wa OR FLASH_ALIAS) + of_nat i) = cp_bytes data ! i" if "i < unat len" for i
    using content_array [of ?wa i s2] wa fit kl that buf by (simp add: A2 put_def)
  then have "flash_verify fl ?wa data (uint len) s2 = Some True"
    using verify_compares [of "unat len" data ?wa s2] kl buf by simp
  moreover have "\<not> flash_end d < ?wa + ucast len" using lim top by (simp add: word_less_nat_alt)
  ultimately have "dfu_write_block fl data len d = Some (d\<lparr>plat := s2, status := DFU_STATUS_OK\<rparr>)"
    using s1(1) s2(1) by (simp add: dfu_write_block_def Let_def)
  with A2 s2(2) show ?thesis by blast
qed

lemma erase_command_array:
  assumes "ok (plat d)" and addr: "unat addr < 2 ^ 27"
  defines "b \<equiv> unat addr - unat addr mod 4096" and "B \<equiv> A (plat d)"
  shows "\<exists>s'. dfu_erase_command fl addr d = Some (d\<lparr>plat := s', status := DFU_STATUS_OK\<rparr>) \<and> ok s' \<and>
    A s' = erase_span b (if b mod 32768 = 0 \<and> erase_span b 4096 B \<noteq> B then 32768 else 4096) B"
proof -
  let ?b = "sector_base addr" and ?s = "set_led fl True (plat d)"
  have b: "unat ?b = b" by (simp add: sector_base_unat b_def)
  have bal: "b mod 4096 = 0" by (simp add: b_def mod_eq_0_iff_dvd)
  then obtain q where q: "b = 4096 * q" by auto
  have "b < 2 ^ 27" using addr by (simp add: b_def)
  then have "4096 * q < 4096 * 32768" by (simp add: q)
  then have fit: "b + 4096 \<le> 2 ^ 27" by (simp add: q)
  have not_top: "?b \<noteq> 0xFFFFF000" using b fit by auto
  have s: "ok ?s" "A ?s = B" using assms(1) by (simp_all add: led_array B_def)
  have pages: "(\<forall>i < 16. page_is_erased fl (?b + 256 * of_nat i) ?s) \<longleftrightarrow> erase_span b 4096 B = B"
  proof -
    have "page_is_erased fl (?b + 256 * of_nat i) ?s \<longleftrightarrow>
        (\<forall>j. b + 256 * i \<le> j \<and> j < b + 256 * i + 256 \<longrightarrow> B j = pat j)" if "i < 16" for i
    proof -
      have "unat (?b + of_nat (256 * i)) = b + 256 * i"
        using unat_plus_nat [of ?b "256 * i"] b fit that by simp
      then show ?thesis
        using erased_array [of "?b + of_nat (256 * i)" ?s] s fit that by (simp add: q)
    qed
    then have "(\<forall>i < 16. page_is_erased fl (?b + 256 * of_nat i) ?s) \<longleftrightarrow>
        (\<forall>i < 16. \<forall>j. b + 256 * i \<le> j \<and> j < b + 256 * i + 256 \<longrightarrow> B j = pat j)" by simp
    also have "\<dots> \<longleftrightarrow> (\<forall>j. b \<le> j \<and> j < b + 4096 \<longrightarrow> B j = pat j)"
    proof (intro iffI allI impI)
      fix j assume L: "\<forall>i < 16. \<forall>j. b + 256 * i \<le> j \<and> j < b + 256 * i + 256 \<longrightarrow> B j = pat j"
        and j: "b \<le> j \<and> j < b + 4096"
      from j have "(j - b) div 256 < 16" "b + 256 * ((j - b) div 256) \<le> j"
        "j < b + 256 * ((j - b) div 256) + 256" by auto
      with L show "B j = pat j" by blast
    qed auto
    also have "\<dots> \<longleftrightarrow> erase_span b 4096 B = B" by (auto simp: fun_eq_iff erase_span_def)
    finally show ?thesis .
  qed
  have m: "?b mod 32768 = 0 \<longleftrightarrow> b mod 32768 = 0"
    using b by (simp add: word_unat_eq_iff unat_mod_distrib)
  consider (clean) "erase_span b 4096 B = B" | (big) "erase_span b 4096 B \<noteq> B" "b mod 32768 = 0"
    | (small) "erase_span b 4096 B \<noteq> B" "b mod 32768 \<noteq> 0" by blast
  then show ?thesis
  proof cases
    case clean
    then show ?thesis
      using s by (intro exI [of _ "set_led fl False ?s"])
        (simp add: dfu_erase_command_def all_pages_erased_sector pages Let_def led_array)
  next
    case big
    obtain s1 where "erase_32k fl ?b ?s = Some (True, s1)" "ok s1" "A s1 = erase_span b 32768 B"
      using erase_32k_array [OF s(1), of ?b] b big(2) fit s(2) by auto
    with big m not_top show ?thesis
      by (intro exI [of _ "set_led fl False s1"])
        (simp add: dfu_erase_command_def all_pages_erased_sector pages Let_def led_array)
  next
    case small
    obtain s1 where "erase_range fl ?b (int DFU_SECTOR_SIZE_KB) ?s = Some (True, s1)" "ok s1"
      "A s1 = erase_span b 4096 B"
      using erase_range_array [OF s(1), of ?b DFU_SECTOR_SIZE_KB] b fit s(2) q
      by (auto simp: DFU_SECTOR_SIZE_KB_def)
    with small m not_top show ?thesis
      by (intro exI [of _ "set_led fl False s1"])
        (simp add: dfu_erase_command_def all_pages_erased_sector pages Let_def led_array)
  qed
qed

end

section \<open>The driver on a documented controller\<close>

lemma fmc_flash_array:
  assumes D: "fmc_device io view over f"
  shows "flash_array (fmc_ops io) (flash8 io) (\<lambda>m. cells (chip_of view m)) (\<lambda>m. chip_idle (chip_of view m))"
proof (intro flash_array.intro flash_array_axioms.intro, goal_cases)
  case 1
  show ?case by (rule fmc.flash_driver_axioms)
next
  case (6 s a k)
  then show ?case
    using device_erase_pages [OF D, of s a "4 * k"] by (simp add: fmc_erase_range_def nat_mult_distrib mult.commute)
next
  case (7 s a k n d)
  then show ?case using device_write [OF D, of s a k n d] by simp
qed (use device_byte [OF D] device_page_erased [OF D] device_erase_page [OF D] device_erase_32k [OF D]
  device_LED [OF D] in simp_all)

text \<open>A controller that is never busy, for the witnesses.\<close>

definition chip_bus :: "chip bus" where
  "chip_bus = \<lparr>bus_rd32 = (\<lambda>a c. (if a = FMC_STAT then stat_of c else if a = FMC_CTL then ctl c else 0, c)),
               bus_wr32 = chip_wr (\<lambda>x w. x AND w),
               bus_mem8 = (\<lambda>c a. cells c (off a))\<rparr>"

lemma chip_device: "fmc_device chip_bus (\<lambda>c. c) (\<lambda>x w. x AND w) (\<lambda>_. 0)"
proof -
  have b: "bit (stat_of c) n \<longleftrightarrow> endf c \<and> n = 5" for c n by (simp add: stat_of_def bit_stat)
  have "stat_of c AND NOT (FMC_STAT_BUSY OR FMC_STAT_WR_BUSY) = stat_of c" for c
    by (rule bit_word_eqI) (auto simp: ctl_bits b bit_stat)
  moreover have "stat_of c AND (FMC_STAT_BUSY OR FMC_STAT_WR_BUSY) = 0" for c
    by (rule bit_word_eqI) (auto simp: ctl_bits b bit_stat)
  ultimately show ?thesis by (auto simp: fmc_device_def fmc_drains_def chip_bus_def)
qed

interpretation chip: flash_array "fmc_ops chip_bus" "flash8 chip_bus" "\<lambda>m. cells (dev m)" "\<lambda>m. chip_idle (dev m)"
  using fmc_flash_array [OF chip_device] by simp

end
