(* ===== verification/Usb_Flash.thy ===== *)
theory Usb_Flash
  imports Usb_Dfu Usb_Turns Dfu_Flash
begin

text \<open>
  A download session as the host runs it on the bus (SETUP, OUT and IN packets, one poll after each),
  composed of the USB driver, the DFU handlers, the flash driver and a controller that behaves as
  documented. Between two polls the machine may do anything that leaves the controller alone.
\<close>

section \<open>The host's side\<close>

definition dnload_req :: "nat \<Rightarrow> u16 \<Rightarrow> usb_setup_packet" where
  "dnload_req N n = \<lparr>bmRequestType = 0x21, bRequest = DFU_DNLOAD, wValue = of_nat N, wIndex = 0, wLength = n\<rparr>"

definition getstatus_req :: usb_setup_packet where
  "getstatus_req = \<lparr>bmRequestType = 0xA1, bRequest = DFU_GETSTATUS, wValue = 0, wIndex = 0, wLength = 6\<rparr>"

text \<open>A block: the request, its data, the status stage, and GETSTATUS until the device is idle.\<close>

definition block_events :: "nat \<Rightarrow> u8 list \<Rightarrow> usb_event list" where
  "block_events N bs =
     (Ev_setup (dnload_req N (of_nat (length bs))) # map Ev_out (packets bs)) @
     [Ev_in, Ev_setup getstatus_req, Ev_in, Ev_setup getstatus_req, Ev_in]"

text \<open>The requests that reset the device, and traffic that has neither those nor a data stage from
  the host: bus resets, enumeration, status requests.\<close>

definition asks_reset :: "usb_event \<Rightarrow> bool" where
  "asks_reset ev \<longleftrightarrow> (\<exists>r. ev = Ev_setup r \<and> bmRequestType r AND 0x60 = 0x20 \<and>
     (bRequest r = DFU_DETACH \<or> bRequest r = DFU_DNLOAD \<and> wLength r = 0))"

definition chatter :: "usb_event \<Rightarrow> bool" where
  "chatter ev \<longleftrightarrow> (case ev of Ev_out bs \<Rightarrow> False | _ \<Rightarrow> \<not> asks_reset ev)"

lemma chatterD: "chatter ev \<Longrightarrow> \<not> asks_reset ev \<and> packet_sized ev \<and> (\<forall>bs. ev \<noteq> Ev_out bs)"
  by (cases ev) (simp_all add: chatter_def)

text \<open>The commands of a DfuSe host: move the address pointer, erase a sector, a command the device
  does not know, block \<open>N\<close> of the data; and what else it may send in between.\<close>

datatype host_cmd =
  Point u32 | Erase u32 | Unknown u8 u32 | Program nat "u8 list" | Chat "usb_event list"

fun cmd_events :: "host_cmd \<Rightarrow> usb_event list" where
  "cmd_events (Point a) = block_events 0 (DFUSE_CMD_SET_ADDRESS # bytes32 a)"
| "cmd_events (Erase a) = block_events 0 (DFUSE_CMD_ERASE_PAGE # bytes32 a)"
| "cmd_events (Unknown c a) = block_events 0 (c # bytes32 a)"
| "cmd_events (Program N bs) = block_events N bs"
| "cmd_events (Chat evs) = evs"

definition session_events :: "host_cmd list \<Rightarrow> usb_event list" where
  "session_events cs = concat (map cmd_events cs)"

lemma session_events_simps [simp]:
  "session_events [] = []" "session_events (c # cs) = cmd_events c @ session_events cs"
  "session_events (cs @ cs') = session_events cs @ session_events cs'"
  by (simp_all add: session_events_def)

section \<open>What the commands promise\<close>

text \<open>
  The device as the host thinks of it: an address pointer, an array of bytes and the status and
  state GETSTATUS reports after a command. A programmed block replaces whole pages; what ends up
  behind its last byte in the last page is not promised. A block beyond the end of the flash and an
  unknown command are refused. Block 1 is dropped, and yet reported OK.
\<close>

record programmer =
  pointer :: u32
  memory :: "nat \<Rightarrow> u8"
  reply :: "dfu_status \<times> dfu_state"

definition replied :: "dfu_status \<Rightarrow> programmer \<Rightarrow> programmer" where
  "replied st s = s\<lparr>reply := (st, if st = DFU_STATUS_OK then STATE_DFU_DNLOAD_IDLE else STATE_DFU_ERROR)\<rparr>"

definition erase_effect :: "u32 \<Rightarrow> (nat \<Rightarrow> u8) \<Rightarrow> nat \<Rightarrow> u8" where
  "erase_effect a A = (let b = unat a - unat a mod 4096 in
     erase_span b (if b mod 32768 = 0 \<and> erase_span b 4096 A \<noteq> A then 32768 else 4096) A)"

definition block_at :: "u32 \<Rightarrow> nat \<Rightarrow> nat" where
  "block_at p N = unat p + 4096 * (N - 2)"

fun spec_cmd :: "nat \<Rightarrow> host_cmd \<Rightarrow> programmer \<Rightarrow> programmer \<Rightarrow> bool" where
  "spec_cmd lim (Point a) s s' \<longleftrightarrow> s' = replied DFU_STATUS_OK (s\<lparr>pointer := a\<rparr>)"
| "spec_cmd lim (Erase a) s s' \<longleftrightarrow> s' = replied DFU_STATUS_OK (s\<lparr>memory := erase_effect a (memory s)\<rparr>)"
| "spec_cmd lim (Unknown c a) s s' \<longleftrightarrow> s' = replied DFU_STATUS_ERR_UNKNOWN s"
| "spec_cmd lim (Program N bs) s s' \<longleftrightarrow>
     (if N = 1 then s' = replied DFU_STATUS_OK s
      else if lim < block_at (pointer s) N + length bs then s' = replied DFU_STATUS_ERR_ADDRESS s
      else \<exists>tail. length (bs @ tail) = 256 * ((length bs + 255) div 256) \<and>
        s' = replied DFU_STATUS_OK (s\<lparr>memory := put (block_at (pointer s) N) (bs @ tail) (memory s)\<rparr>))"
| "spec_cmd lim (Chat evs) s s' \<longleftrightarrow> (\<exists>r. s' = s\<lparr>reply := r\<rparr>)"

inductive spec_run :: "nat \<Rightarrow> host_cmd list \<Rightarrow> programmer \<Rightarrow> programmer \<Rightarrow> bool" for lim where
  run_nil: "spec_run lim [] s s"
| run_cmd: "spec_cmd lim c s s' \<Longrightarrow> spec_run lim cs s' s'' \<Longrightarrow> spec_run lim (c # cs) s s''"

inductive_simps spec_run_Nil [simp]: "spec_run lim [] s s'"
inductive_simps spec_run_Cons: "spec_run lim (c # cs) s s'"

text \<open>The commands this covers, given the address pointer: erase addresses in the array's window,
  blocks that fit the receive buffer, on a page boundary, that do not wrap around the address space.\<close>

fun cmd_ok :: "u32 \<Rightarrow> host_cmd \<Rightarrow> bool" where
  "cmd_ok p (Point a) \<longleftrightarrow> True"
| "cmd_ok p (Erase a) \<longleftrightarrow> unat a < 2 ^ 27"
| "cmd_ok p (Unknown c a) \<longleftrightarrow> c \<noteq> DFUSE_CMD_SET_ADDRESS \<and> c \<noteq> DFUSE_CMD_ERASE_PAGE"
| "cmd_ok p (Program N bs) \<longleftrightarrow> bs \<noteq> [] \<and> length bs \<le> DFU_TRANSFER_SIZE \<and> 1 \<le> N \<and> N < 2 ^ 16 \<and>
     unat p mod 256 = 0 \<and> block_at p N + length bs < 2 ^ 32"
| "cmd_ok p (Chat evs) \<longleftrightarrow> list_all chatter evs"

fun pointer_after :: "host_cmd \<Rightarrow> u32 \<Rightarrow> u32" where
  "pointer_after (Point a) p = a"
| "pointer_after c p = p"

fun cmds_ok :: "u32 \<Rightarrow> host_cmd list \<Rightarrow> bool" where
  "cmds_ok p [] \<longleftrightarrow> True"
| "cmds_ok p (c # cs) \<longleftrightarrow> cmd_ok p c \<and> cmds_ok (pointer_after c p) cs"

lemma spec_cmd_pointer: "spec_cmd lim c s s' \<Longrightarrow> pointer s' = pointer_after c (pointer s)"
  by (cases c) (auto simp: replied_def split: if_split_asm)

section \<open>A block\<close>

lemma packets_sized: "list_all packet_sized (map Ev_out (packets bs))"
proof (induction bs rule: packets.induct)
  case (1 bs)
  then show ?case by (subst packets.simps) simp
qed

lemma block_events_sized: "list_all packet_sized (block_events N bs)"
  by (simp add: block_events_def packets_sized)

lemma cmd_events_sized: "cmd_ok p c \<Longrightarrow> list_all packet_sized (cmd_events c)"
proof (cases c)
  case (Chat evs)
  assume "cmd_ok p c"
  with Chat show ?thesis by (auto simp: list_all_iff dest: chatterD)
qed (simp_all add: block_events_sized)

lemma session_events_sized: "cmds_ok p cs \<Longrightarrow> list_all packet_sized (session_events cs)"
  by (induction cs arbitrary: p) (auto simp: cmd_events_sized)

text \<open>What may happen to the machine between two polls: anything the flash controller does not see.\<close>

definition plat_drift :: "('h \<Rightarrow> chip) \<Rightarrow> 'h mach dfu \<Rightarrow> 'h mach dfu \<Rightarrow> bool" where
  "plat_drift view d d' \<longleftrightarrow> (\<exists>m. d' = d\<lparr>plat := m\<rparr> \<and> chip_of view m = chip_of view (plat d))"

lemma plat_drift_refl: "plat_drift view d d"
  unfolding plat_drift_def by (rule exI [of _ "plat d"]) simp

lemma plat_driftD:
  assumes "plat_drift view d d'"
  shows "chip_of view (plat d') = chip_of view (plat d)" "state d' = state d" "status d' = status d"
    "dfu_address d' = dfu_address d" "flash_end d' = flash_end d" "dfu_block_num d' = dfu_block_num d"
  using assms by (auto simp: plat_drift_def)

lemma dfu_ready_plat [simp]: "dfu_ready io f (d\<lparr>plat := m\<rparr>) = dfu_ready io f d"
  by (simp add: dfu_ready_def)

lemma dfu_handle_request_plat:
  "dfu_handle_request r (d\<lparr>plat := m\<rparr>) = (case dfu_handle_request r d of (c, a, d') \<Rightarrow> (c, a, d'\<lparr>plat := m\<rparr>))"
  by (auto simp: dfu_handle_request_def Let_def)

interpretation dfu_drift: class_drift "dfu_class (fmc_ops io)" "dfu_ready io f" "plat_drift view" for io f view
proof (unfold_locales, goal_cases)
  case (1 p)
  show ?case by (rule plat_drift_refl)
next
  case (2 p q r)
  then show ?case by (auto simp: plat_drift_def)
next
  case (3 p q)
  then show ?case by (auto simp: plat_drift_def)
next
  case (4 p q req a p')
  from 4(1) obtain m where m: "q = p\<lparr>plat := m\<rparr>" "chip_of view m = chip_of view (plat p)"
    unfolding plat_drift_def by blast
  from 4(2) obtain c where h: "dfu_handle_request req p = (c, a, p')" by (auto split: prod.split_asm)
  then have "cls_request (dfu_class (fmc_ops io)) req q = (a, p'\<lparr>plat := m\<rparr>)"
    by (simp add: m(1) dfu_handle_request_plat)
  moreover have "plat_drift view p' (p'\<lparr>plat := m\<rparr>)"
    using m(2) dfu_handle_request_frame(1) [OF h] unfolding plat_drift_def by auto
  ultimately show ?case by blast
qed

text \<open>What the DFU handlers are given when the data stage of a block is complete.\<close>

definition requested :: "nat \<Rightarrow> 's dfu \<Rightarrow> 's dfu" where
  "requested N d = d\<lparr>dfu_block_num := ucast (of_nat N :: u16), state := STATE_DFU_DNLOAD_SYNC,
                     status := DFU_STATUS_OK\<rparr>"

lemma requested_simps [simp]:
  "dfu_block_num (requested N d) = ucast (of_nat N :: u16)" "state (requested N d) = STATE_DFU_DNLOAD_SYNC"
  "dfu_address (requested N d) = dfu_address d" "flash_end (requested N d) = flash_end d"
  "plat (requested N d) = plat d"
  by (simp_all add: requested_def)

lemma getstatus_turns:
  assumes "usb_ok (dfu_ready io f) u"
    and "turns (plat_drift view) (dfu_class (fmc_ops io)) [Ev_setup getstatus_req, Ev_in] u w"
  shows "phase w = CTRL_IDLE \<and>
    plat_drift view ((cls u)\<lparr>state := dfu_getstatus_next (state (cls u))\<rparr>) (cls w)"
proof (rule dfu_drift.turns_short_read [OF assms(1) _ _ _ _ _ _ _ _ assms(2)])
  show "cls_request (dfu_class (fmc_ops io)) getstatus_req (cls u) =
      ((Some (dfu_status_response (status (cls u)) (dfu_getstatus_next (state (cls u)))), 6),
       (cls u)\<lparr>state := dfu_getstatus_next (state (cls u))\<rparr>)"
    by (simp add: dfu_handle_getstatus getstatus_req_def)
qed (simp_all add: getstatus_req_def USB_DIR_IN_def dfu_status_response_def)

lemma block_turns:
  fixes io :: "'h bus"
  defines "k \<equiv> dfu_class (fmc_ops io)"
  assumes u: "usb_ok (dfu_ready io f) u" and bs: "bs \<noteq> []" "length bs \<le> DFU_TRANSFER_SIZE"
    and run: "turns (plat_drift view) k (block_events N bs) u w"
  shows "\<exists>b q d. plat_drift view (requested N (cls u)) q \<and>
    length b = DFU_TRANSFER_SIZE \<and> take (length bs) b = bs \<and>
    dfu_handle_data (fmc_ops io) \<lparr>cp_addr = dfu_rx_addr u, cp_bytes = b\<rparr> (of_nat (length bs)) q = Some d \<and>
    plat_drift view (d\<lparr>state := dfu_getstatus_next (dfu_getstatus_next (state d))\<rparr>) (cls w)"
proof -
  let ?r = "dnload_req N (of_nat (length bs))" and ?D = "plat_drift view"
  have n: "unat (of_nat (length bs) :: u16) = length bs"
    using bs(2) by (simp add: DFU_TRANSFER_SIZE_def unsigned_of_nat take_bit_nat_eq_self)
  then have "wLength ?r \<noteq> 0" using bs(1) by (auto simp: dnload_req_def)
  then have req: "cls_request k ?r (cls u) = ((None, 0), requested N (cls u))"
    by (simp add: k_def dnload_req_def requested_def dfu_handle_request_simps)
  have split: "block_events N bs = (Ev_setup ?r # map Ev_out (packets bs)) @ [Ev_in] @
      [Ev_setup getstatus_req, Ev_in] @ [Ev_setup getstatus_req, Ev_in]"
    by (simp add: block_events_def)
  from run obtain u1 u2 u3 where u1: "turns ?D k (Ev_setup ?r # map Ev_out (packets bs)) u u1"
    and u2: "turns ?D k [Ev_in] u1 u2" and u3: "turns ?D k [Ev_setup getstatus_req, Ev_in] u2 u3"
    and w: "turns ?D k [Ev_setup getstatus_req, Ev_in] u3 w"
    unfolding split turns_append by blast
  have ok1: "usb_ok (dfu_ready io f) u1"
    using dfu_drift.turns_ok [OF u1 [unfolded k_def] u] packets_sized by simp
  have ok2: "usb_ok (dfu_ready io f) u2" using dfu_drift.turns_ok [OF u2 [unfolded k_def] ok1] by simp
  have ok3: "usb_ok (dfu_ready io f) u3" using dfu_drift.turns_ok [OF u3 [unfolded k_def] ok2] by simp
  obtain b q where q: "?D (requested N (cls u)) q" and b: "length b = DFU_TRANSFER_SIZE" "take (length bs) b = bs"
    and ph: "phase u1 = CTRL_IDLE"
    and d: "dfu_handle_data (fmc_ops io) \<lparr>cp_addr = dfu_rx_addr u, cp_bytes = b\<rparr> (of_nat (length bs)) q = Some (cls u1)"
    using dfu_drift.turns_write [OF u _ _ _ _ bs req [unfolded k_def] u1 [unfolded k_def]] n
    by (auto simp: dnload_req_def USB_DIR_IN_def)
  have 2: "?D (cls u1) (cls u2)" using dfu_drift.turns_idle [OF u2 [unfolded k_def] ph] by simp
  have 3: "?D ((cls u2)\<lparr>state := dfu_getstatus_next (state (cls u2))\<rparr>) (cls u3)"
    using getstatus_turns [OF ok2 u3 [unfolded k_def]] by simp
  have 4: "?D ((cls u3)\<lparr>state := dfu_getstatus_next (state (cls u3))\<rparr>) (cls w)"
    using getstatus_turns [OF ok3 w [unfolded k_def]] by simp
  have "?D ((cls u1)\<lparr>state := dfu_getstatus_next (dfu_getstatus_next (state (cls u1)))\<rparr>) (cls w)"
    using 2 3 4 by (auto simp: plat_drift_def)
  with q b d show ?thesis by blast
qed

section \<open>A command\<close>

lemma unat_block: "N < 2 ^ 16 \<Longrightarrow> unat (ucast (of_nat N :: u16) :: u32) = N"
  by (simp add: unsigned_of_nat take_bit_nat_eq_self)

lemma unat_write_address:
  assumes "2 \<le> N" "N < 2 ^ 16" "unat a + 4096 * (N - 2) < 2 ^ 32"
  shows "unat (write_address a (ucast (of_nat N :: u16))) = unat a + 4096 * (N - 2)"
proof -
  have "(ucast (of_nat N :: u16) :: u32) = of_nat N"
    using unat_block [OF assms(2)] assms(2) by (simp add: word_unat_eq_iff unsigned_of_nat take_bit_nat_eq_self)
  moreover have "(of_nat N - 2 :: u32) * 4096 = of_nat (4096 * (N - 2))"
    using assms(1) by (simp add: of_nat_diff)
  ultimately have "write_address a (ucast (of_nat N :: u16)) = a + of_nat (4096 * (N - 2))"
    by (simp add: write_address_def DFU_TRANSFER_SIZE_def)
  with unat_plus_nat [OF assms(3)] show ?thesis by simp
qed

lemma block_word:
  assumes "length bs \<le> DFU_TRANSFER_SIZE" shows "unat (of_nat (length bs) :: u16) = length bs"
  using assms by (simp add: DFU_TRANSFER_SIZE_def unsigned_of_nat take_bit_nat_eq_self)

text \<open>What the data handler makes of a block that is complete.\<close>

lemma block_address:
  assumes "cmd_ok p (Program N bs)" and "N \<noteq> 1"
  shows "unat (write_address p (ucast (of_nat N :: u16))) = block_at p N"
    and "unat (write_address p (ucast (of_nat N :: u16)) + ucast (of_nat (length bs) :: u16)) =
      block_at p N + length bs"
    and "2 \<le> (ucast (of_nat N :: u16) :: u32)" and "block_at p N mod 256 = 0"
proof -
  have N: "2 \<le> N" "N < 2 ^ 16" and len: "length bs \<le> DFU_TRANSFER_SIZE"
    and al: "unat p mod 256 = 0" and fit: "block_at p N + length bs < 2 ^ 32"
    using assms by simp_all
  show wa: "unat (write_address p (ucast (of_nat N :: u16))) = block_at p N"
    unfolding block_at_def using N fit by (intro unat_write_address) (simp_all add: block_at_def)
  show "unat (write_address p (ucast (of_nat N :: u16)) + ucast (of_nat (length bs) :: u16)) =
      block_at p N + length bs"
    using wa fit block_word [OF len] unat_add_small [of "write_address p (ucast (of_nat N :: u16))"
      "ucast (of_nat (length bs) :: u16)"] by simp
  show "2 \<le> (ucast (of_nat N :: u16) :: u32)"
    using unat_block [OF N(2)] N(1) by (simp add: word_le_nat_alt)
  show "block_at p N mod 256 = 0" using al by (simp add: block_at_def mod_eq_0_iff_dvd)
qed

lemma program_handled:
  fixes io :: "'h bus"
  assumes D: "fmc_device io view over f" and idle: "chip_idle (chip_of view (plat q))"
    and ok: "cmd_ok (dfu_address q) (Program N bs)" and N1: "N \<noteq> 1"
    and fits: "block_at (dfu_address q) N + length bs \<le> unat (flash_end q)" and lim: "unat (flash_end q) \<le> 2 ^ 27"
    and N: "dfu_block_num q = ucast (of_nat N :: u16)"
    and b: "length b = DFU_TRANSFER_SIZE" "take (length bs) b = bs"
  shows "\<exists>m tail. dfu_handle_data (fmc_ops io) \<lparr>cp_addr = x, cp_bytes = b\<rparr> (of_nat (length bs)) q =
      Some (q\<lparr>plat := m, status := DFU_STATUS_OK\<rparr>) \<and> chip_idle (chip_of view m) \<and>
    length (bs @ tail) = 256 * ((length bs + 255) div 256) \<and>
    cells (chip_of view m) = put (block_at (dfu_address q) N) (bs @ tail) (cells (chip_of view (plat q)))"
proof -
  let ?n = "of_nat (length bs) :: u16" and ?p = "block_at (dfu_address q) N"
  have bs: "bs \<noteq> []" "length bs \<le> DFU_TRANSFER_SIZE" using ok by simp_all
  note n = block_word [OF bs(2)] and A = block_address [OF ok N1, folded N]
  have N0: "dfu_block_num q \<noteq> 0" using A(3) by auto
  have pos: "0 < ?n" using n bs(1) by (simp add: word_less_nat_alt)
  have k: "256 * ((length bs + 255) div 256) \<le> 4096" using bs(2) by (simp add: DFU_TRANSFER_SIZE_def)
  let ?B = "take (256 * ((length bs + 255) div 256)) b"
  have "\<exists>m. dfu_write_block (fmc_ops io) \<lparr>cp_addr = x, cp_bytes = b\<rparr> ?n q =
      Some (q\<lparr>plat := m, status := DFU_STATUS_OK\<rparr>) \<and> chip_idle (chip_of view m) \<and>
      cells (chip_of view m) = put ?p ?B (cells (chip_of view (plat q)))"
    using flash_array.write_block_array [OF fmc_flash_array [OF D], of q ?p ?n "(length bs + 255) div 256"
        "\<lparr>cp_addr = x, cp_bytes = b\<rparr>"] idle A(1,4) fits lim n k b(1)
    by (simp add: DFU_TRANSFER_SIZE_def)
  moreover have "\<exists>tail. ?B = bs @ tail \<and> length (bs @ tail) = 256 * ((length bs + 255) div 256)"
  proof (intro exI conjI)
    have "?B = take (length bs) ?B @ drop (length bs) ?B"
      by (rule append_take_drop_id [symmetric])
    also have "take (length bs) ?B = bs" using b(2) pages_for(1) [of "length bs"] by (simp add: min_absorb1)
    finally show "?B = bs @ drop (length bs) ?B" .
    then show "length (bs @ drop (length bs) ?B) = 256 * ((length bs + 255) div 256)"
      using k b(1) by (metis DFU_TRANSFER_SIZE_def length_take min_absorb2)
  qed
  moreover have "dfu_handle_data (fmc_ops io) \<lparr>cp_addr = x, cp_bytes = b\<rparr> ?n q =
      dfu_write_block (fmc_ops io) \<lparr>cp_addr = x, cp_bytes = b\<rparr> ?n q"
    using A(3) N0 pos by (simp add: dfu_handle_data_def)
  ultimately obtain m tail where "dfu_handle_data (fmc_ops io) \<lparr>cp_addr = x, cp_bytes = b\<rparr> ?n q =
      Some (q\<lparr>plat := m, status := DFU_STATUS_OK\<rparr>)" "chip_idle (chip_of view m)"
    "length (bs @ tail) = 256 * ((length bs + 255) div 256)"
    "cells (chip_of view m) = put ?p (bs @ tail) (cells (chip_of view (plat q)))" by auto
  then show ?thesis by blast
qed

lemma program_refused:
  assumes ok: "cmd_ok (dfu_address q) (Program N bs)" and N1: "N \<noteq> 1"
    and out: "unat (flash_end q) < block_at (dfu_address q) N + length bs"
    and N: "dfu_block_num q = ucast (of_nat N :: u16)"
  shows "dfu_handle_data fl data (of_nat (length bs)) q = Some (dfu_fail DFU_STATUS_ERR_ADDRESS q)"
proof -
  note A = block_address [OF ok N1, folded N]
  have "bs \<noteq> []" "length bs \<le> DFU_TRANSFER_SIZE" using ok by simp_all
  then have "0 < (of_nat (length bs) :: u16)" using block_word [of bs] by (simp add: word_less_nat_alt)
  moreover have "dfu_block_num q \<noteq> 0" using A(3) by auto
  moreover have "flash_end q < write_address (dfu_address q) (dfu_block_num q) + ucast (of_nat (length bs) :: u16)"
    using A(2) out by (simp add: word_less_nat_alt)
  ultimately show ?thesis using A(3) by (simp add: dfu_handle_data_def dfu_write_block_out_of_range)
qed

lemma program_dropped: "dfu_block_num q = 1 \<Longrightarrow> dfu_handle_data fl data len q = Some q"
  by (simp add: dfu_handle_data_def word_le_nat_alt)

lemma command_bytes:
  assumes "length b = DFU_TRANSFER_SIZE" "take 5 b = c # bytes32 a" and "i < 5"
  shows "cp_rd8 \<lparr>cp_addr = x, cp_bytes = b\<rparr> i = Some ((c # bytes32 a) ! i)"
  using arg_cong [OF assms(2), of "\<lambda>x. x ! i"] assms(1,3) by (simp add: cp_rd8_def DFU_TRANSFER_SIZE_def)

lemma command_handled:
  assumes b: "length b = DFU_TRANSFER_SIZE" "take 5 b = c # bytes32 a" and N: "dfu_block_num q = 0"
  shows "c = DFUSE_CMD_SET_ADDRESS \<Longrightarrow> dfu_handle_data fl \<lparr>cp_addr = x, cp_bytes = b\<rparr> 5 q =
      Some (q\<lparr>dfu_address := a, status := DFU_STATUS_OK\<rparr>)"
    and "c = DFUSE_CMD_ERASE_PAGE \<Longrightarrow> dfu_handle_data fl \<lparr>cp_addr = x, cp_bytes = b\<rparr> 5 q =
      dfu_erase_command fl a q"
    and "c \<noteq> DFUSE_CMD_SET_ADDRESS \<Longrightarrow> c \<noteq> DFUSE_CMD_ERASE_PAGE \<Longrightarrow>
      dfu_handle_data fl \<lparr>cp_addr = x, cp_bytes = b\<rparr> 5 q = Some (dfu_fail DFU_STATUS_ERR_UNKNOWN q)"
  using N command_bytes [OF b, of 0] command_bytes [OF b, of 1] command_bytes [OF b, of 2]
    command_bytes [OF b, of 3] command_bytes [OF b, of 4]
  by (simp_all add: dfu_handle_data_def bytes32_def DFUSE_CMD_ERASE_PAGE_def DFUSE_CMD_SET_ADDRESS_def
    numeral_eq_Suc [of "num.One"])

text \<open>The device on the bus in the terms of the host.\<close>

definition programmer_of :: "('h \<Rightarrow> chip) \<Rightarrow> 'h mach dfu \<Rightarrow> programmer" where
  "programmer_of view d = \<lparr>pointer = dfu_address d, memory = cells (chip_of view (plat d)),
                          reply = (status d, state d)\<rparr>"

lemma programmer_of_simps [simp]:
  "pointer (programmer_of view d) = dfu_address d" "memory (programmer_of view d) = cells (chip_of view (plat d))"
  "reply (programmer_of view d) = (status d, state d)"
  by (simp_all add: programmer_of_def)

text \<open>A block's GETSTATUS requests take dfuDNLOAD-SYNC to dfuDNLOAD-IDLE and leave dfuERROR alone.\<close>

lemma polled:
  assumes q: "plat_drift view (requested N d0) q" and fe: "flash_end d = flash_end q"
    and st: "status d = st" "state d = (if st = DFU_STATUS_OK then STATE_DFU_DNLOAD_SYNC else STATE_DFU_ERROR)"
    and w: "plat_drift view (d\<lparr>state := dfu_getstatus_next (dfu_getstatus_next (state d))\<rparr>) w"
  shows "flash_end w = flash_end d0" "chip_of view (plat w) = chip_of view (plat d)"
    "programmer_of view w = replied st \<lparr>pointer = dfu_address d, memory = cells (chip_of view (plat d)), reply = r\<rparr>"
  using plat_driftD [OF q] plat_driftD [OF w] fe st
  by (simp_all add: programmer_of_def replied_def dfu_getstatus_next_def)

section \<open>Turns without a data stage\<close>

lemma no_data_frame:
  assumes "host_step (dfu_class fl) ev u = Some u'" and "\<forall>bs. ev \<noteq> Ev_out bs"
  shows "plat (cls u') = plat (cls u) \<and> dfu_address (cls u') = dfu_address (cls u)"
proof (cases ev)
  case (Ev_setup r)
  with assms(1) obtain a u1 where
    route: "route_request (dfu_class fl) r (setup_state r u) = Some (a, u1)" and c: "cls u' = cls u1"
    by (auto simp: host_step_setup_eq ep0_recv_def elim!: bind_SomeE
      dest!: ep0_send_addr(4) start_data_in_addr(4) split: prod.split_asm if_split_asm)
  have "plat (cls u1) = plat (cls u) \<and> dfu_address (cls u1) = dfu_address (cls u)"
    using route dfu_handle_request_frame [of r "cls u"]
    by (auto simp: route_request_def handle_std_request_def Let_def split: if_split_asm prod.split_asm)
  with c show ?thesis by simp
next
  case Ev_in
  with assms(1) show ?thesis
    by (auto simp: host_step_in poll_in_def Let_def apply_address_def elim!: bind_SomeE
      dest!: ep0_send_addr(4) split: if_split_asm)
next
  case (Ev_out bs)
  with assms(2) show ?thesis by simp
qed (use assms(1) in \<open>auto simp: host_step_def do_usb_poll_def poll_bus_reset_def Let_def usb_bit_defs\<close>)

lemma chatter_turns:
  assumes "turns (plat_drift view) (dfu_class fl) evs u w" and "list_all chatter evs"
  shows "chip_of view (plat (cls w)) = chip_of view (plat (cls u)) \<and> dfu_address (cls w) = dfu_address (cls u)"
  using assms
proof (induction rule: turns.induct)
  case (turns_step u p ev v evs w)
  then have "plat (cls v) = plat p \<and> dfu_address (cls v) = dfu_address p"
    using no_data_frame [OF turns_step.hyps(2)] chatterD [of ev] by simp
  with turns_step plat_driftD [OF turns_step.hyps(1)] show ?case by simp
qed simp

text \<open>No turn changes the end of flash.\<close>

lemma host_step_flash_end:
  assumes "host_step (dfu_class fl) ev u = Some u'" shows "flash_end (cls u') = flash_end (cls u)"
  using host_step_cls [OF assms]
proof (elim disjE exE conjE)
  fix r a assume "cls_request (dfu_class fl) r (cls u) = (a, cls u')"
  then show ?thesis
    using dfu_handle_request_frame(2) [of r "cls u"] by (auto split: prod.split_asm)
next
  fix c len assume "cls_data (dfu_class fl) c len (cls u) = Some (cls u')"
  then show ?thesis using dfu_handle_data_frame(1) [of fl c len "cls u"] by simp
qed simp

lemma turns_flash_end:
  "turns (plat_drift view) (dfu_class fl) evs u w \<Longrightarrow> flash_end (cls w) = flash_end (cls u)"
  by (induction rule: turns.induct) (auto dest!: host_step_flash_end plat_driftD(5))

section \<open>A command\<close>

lemma cmd_turns:
  fixes io :: "'h bus"
  assumes D: "fmc_device io view over f"
    and run: "turns (plat_drift view) (dfu_class (fmc_ops io)) (cmd_events c) u w"
    and u: "usb_ok (dfu_ready io f) u" "chip_idle (chip_of view (plat (cls u)))"
    and ok: "cmd_ok (dfu_address (cls u)) c" and lim: "unat (flash_end (cls u)) \<le> 2 ^ 27"
  shows "chip_idle (chip_of view (plat (cls w))) \<and>
    spec_cmd (unat (flash_end (cls u))) c (programmer_of view (cls u)) (programmer_of view (cls w))"
proof -
  let ?P = "programmer_of view (cls u)"
  have block: thesis
    if "cmd_events c = block_events N bs" "bs \<noteq> []" "length bs \<le> DFU_TRANSFER_SIZE"
      "\<And>b q d. plat_drift view (requested N (cls u)) q \<Longrightarrow> length b = DFU_TRANSFER_SIZE \<Longrightarrow>
        take (length bs) b = bs \<Longrightarrow>
        dfu_handle_data (fmc_ops io) \<lparr>cp_addr = dfu_rx_addr u, cp_bytes = b\<rparr> (of_nat (length bs)) q = Some d \<Longrightarrow>
        plat_drift view (d\<lparr>state := dfu_getstatus_next (dfu_getstatus_next (state d))\<rparr>) (cls w) \<Longrightarrow> thesis"
    for N bs and thesis
    using block_turns [OF u(1) that(2,3) run [unfolded that(1)]] that(4) by blast
  have command: thesis
    if "cmd_events c = block_events 0 (x # bytes32 a)"
      "\<And>b q d. plat_drift view (requested 0 (cls u)) q \<Longrightarrow> length b = DFU_TRANSFER_SIZE \<Longrightarrow>
        take 5 b = x # bytes32 a \<Longrightarrow> dfu_block_num q = 0 \<Longrightarrow>
        dfu_handle_data (fmc_ops io) \<lparr>cp_addr = dfu_rx_addr u, cp_bytes = b\<rparr> 5 q = Some d \<Longrightarrow>
        plat_drift view (d\<lparr>state := dfu_getstatus_next (dfu_getstatus_next (state d))\<rparr>) (cls w) \<Longrightarrow> thesis"
    for x a and thesis
  proof (rule block [OF that(1)])
    fix b q d assume "plat_drift view (requested 0 (cls u)) q" "length b = DFU_TRANSFER_SIZE"
      "take (length (x # bytes32 a)) b = x # bytes32 a"
      "dfu_handle_data (fmc_ops io) \<lparr>cp_addr = dfu_rx_addr u, cp_bytes = b\<rparr> (of_nat (length (x # bytes32 a))) q = Some d"
      "plat_drift view (d\<lparr>state := dfu_getstatus_next (dfu_getstatus_next (state d))\<rparr>) (cls w)"
    with plat_driftD(6) [of view "requested 0 (cls u)" q] show thesis by (intro that(2) [of q b d]) simp_all
  qed (simp_all add: DFU_TRANSFER_SIZE_def)
  show ?thesis
  proof (cases c)
    case (Point a)
    show ?thesis
    proof (rule command [of DFUSE_CMD_SET_ADDRESS a])
      fix b q d assume q: "plat_drift view (requested 0 (cls u)) q" and b: "length b = DFU_TRANSFER_SIZE"
          "take 5 b = DFUSE_CMD_SET_ADDRESS # bytes32 a" "dfu_block_num q = 0"
        and h: "dfu_handle_data (fmc_ops io) \<lparr>cp_addr = dfu_rx_addr u, cp_bytes = b\<rparr> 5 q = Some d"
        and w: "plat_drift view (d\<lparr>state := dfu_getstatus_next (dfu_getstatus_next (state d))\<rparr>) (cls w)"
      note Q = plat_driftD [OF q, simplified]
      have d: "d = q\<lparr>dfu_address := a, status := DFU_STATUS_OK\<rparr>"
        using h command_handled(1) [OF b] by simp
      from polled(2) [OF q _ _ _ w, of DFU_STATUS_OK] polled(3) [OF q _ _ _ w, of DFU_STATUS_OK "reply ?P"] Q u(2) show ?thesis
        by (simp add: d Point) (simp add: programmer_of_def)
    qed (simp add: Point)
  next
    case (Erase a)
    show ?thesis
    proof (rule command [of DFUSE_CMD_ERASE_PAGE a])
      fix b q d assume q: "plat_drift view (requested 0 (cls u)) q" and b: "length b = DFU_TRANSFER_SIZE"
          "take 5 b = DFUSE_CMD_ERASE_PAGE # bytes32 a" "dfu_block_num q = 0"
        and h: "dfu_handle_data (fmc_ops io) \<lparr>cp_addr = dfu_rx_addr u, cp_bytes = b\<rparr> 5 q = Some d"
        and w: "plat_drift view (d\<lparr>state := dfu_getstatus_next (dfu_getstatus_next (state d))\<rparr>) (cls w)"
      note Q = plat_driftD [OF q, simplified]
      have "unat a < 2 ^ 27" using ok by (simp add: Erase)
      then obtain m where d: "d = q\<lparr>plat := m, status := DFU_STATUS_OK\<rparr>"
        and m: "chip_idle (chip_of view m)" "cells (chip_of view m) = erase_effect a (memory ?P)"
        using h command_handled(2) [OF b] flash_array.erase_command_array [OF fmc_flash_array [OF D], of q a] u(2) Q
        by (auto simp: erase_effect_def Let_def)
      from polled(2) [OF q _ _ _ w, of DFU_STATUS_OK] polled(3) [OF q _ _ _ w, of DFU_STATUS_OK "reply ?P"] Q m show ?thesis
        by (simp add: d Erase) (simp add: programmer_of_def)
    qed (simp add: Erase)
  next
    case (Unknown x a)
    show ?thesis
    proof (rule command [of x a])
      fix b q d assume q: "plat_drift view (requested 0 (cls u)) q" and b: "length b = DFU_TRANSFER_SIZE"
          "take 5 b = x # bytes32 a" "dfu_block_num q = 0"
        and h: "dfu_handle_data (fmc_ops io) \<lparr>cp_addr = dfu_rx_addr u, cp_bytes = b\<rparr> 5 q = Some d"
        and w: "plat_drift view (d\<lparr>state := dfu_getstatus_next (dfu_getstatus_next (state d))\<rparr>) (cls w)"
      note Q = plat_driftD [OF q, simplified]
      have d: "d = dfu_fail DFU_STATUS_ERR_UNKNOWN q"
        using h command_handled(3) [OF b] ok by (simp add: Unknown)
      from polled(2) [OF q _ _ _ w, of DFU_STATUS_ERR_UNKNOWN] polled(3) [OF q _ _ _ w, of DFU_STATUS_ERR_UNKNOWN "reply ?P"] Q u(2) show ?thesis
        by (simp add: d Unknown dfu_fail_def) (simp add: programmer_of_def)
    qed (simp add: Unknown)
  next
    case (Program N bs)
    show ?thesis
    proof (rule block [of N bs])
      fix b q d assume q: "plat_drift view (requested N (cls u)) q" and b: "length b = DFU_TRANSFER_SIZE" "take (length bs) b = bs"
        and h: "dfu_handle_data (fmc_ops io) \<lparr>cp_addr = dfu_rx_addr u, cp_bytes = b\<rparr> (of_nat (length bs)) q = Some d"
        and w: "plat_drift view (d\<lparr>state := dfu_getstatus_next (dfu_getstatus_next (state d))\<rparr>) (cls w)"
      note Q = plat_driftD [OF q, simplified]
      have cok: "cmd_ok (dfu_address q) (Program N bs)" using ok Q by (simp add: Program)
      consider (dropped) "N = 1" | (refused) "N \<noteq> 1" "unat (flash_end q) < block_at (dfu_address q) N + length bs"
        | (stored) "N \<noteq> 1" "block_at (dfu_address q) N + length bs \<le> unat (flash_end q)" by linarith
      then show ?thesis
      proof cases
        case dropped
        then have d: "d = q" using h program_dropped [of q] Q(6) by simp
        have "status q = DFU_STATUS_OK" using Q(3) by (simp add: requested_def)
        with polled(2) [OF q _ _ _ w, of DFU_STATUS_OK] polled(3) [OF q _ _ _ w, of DFU_STATUS_OK "reply ?P"] Q u(2) dropped show ?thesis
          by (simp add: d Program) (simp add: programmer_of_def)
      next
        case refused
        then have d: "d = dfu_fail DFU_STATUS_ERR_ADDRESS q" using h program_refused [OF cok refused Q(6)] by simp
        from polled(2) [OF q _ _ _ w, of DFU_STATUS_ERR_ADDRESS] polled(3) [OF q _ _ _ w, of DFU_STATUS_ERR_ADDRESS "reply ?P"] Q u(2) refused show ?thesis
          by (simp add: d Program dfu_fail_def) (simp add: programmer_of_def)
      next
        case stored
        have "chip_idle (chip_of view (plat q))" "unat (flash_end q) \<le> 2 ^ 27" using u(2) lim Q by simp_all
        from program_handled [OF D this(1) cok stored this(2) Q(6) b, of "dfu_rx_addr u"] h
        obtain m tail where d: "d = q\<lparr>plat := m, status := DFU_STATUS_OK\<rparr>" and m: "chip_idle (chip_of view m)"
          and t: "length (bs @ tail) = 256 * ((length bs + 255) div 256)"
            "cells (chip_of view m) = put (block_at (dfu_address q) N) (bs @ tail) (cells (chip_of view (plat q)))"
          by auto
        have "programmer_of view (cls w) = replied DFU_STATUS_OK
            (?P\<lparr>memory := put (block_at (pointer ?P) N) (bs @ tail) (memory ?P)\<rparr>)"
          using polled(3) [OF q _ _ _ w, of DFU_STATUS_OK "reply ?P"] Q t(2) by (simp add: d) (simp add: programmer_of_def)
        moreover have "chip_idle (chip_of view (plat (cls w)))"
          using polled(2) [OF q _ _ _ w, of DFU_STATUS_OK] Q m by (simp add: d)
        ultimately show ?thesis using t(1) stored Q by (auto simp: Program)
      qed
    qed (use ok in \<open>simp_all add: Program\<close>)
  next
    case (Chat evs)
    with chatter_turns [of view "fmc_ops io" evs u w] run ok u(2) show ?thesis
      by (simp add: programmer_of_def)
  qed
qed

section \<open>A session\<close>

lemma session_turns:
  fixes io :: "'h bus"
  assumes D: "fmc_device io view over f"
  shows "turns (plat_drift view) (dfu_class (fmc_ops io)) (session_events cs) u w \<Longrightarrow>
    usb_ok (dfu_ready io f) u \<Longrightarrow> chip_idle (chip_of view (plat (cls u))) \<Longrightarrow>
    cmds_ok (dfu_address (cls u)) cs \<Longrightarrow> unat (flash_end (cls u)) = lim \<Longrightarrow> lim \<le> 2 ^ 27 \<Longrightarrow>
    chip_idle (chip_of view (plat (cls w))) \<and>
    spec_run lim cs (programmer_of view (cls u)) (programmer_of view (cls w))"
proof (induction cs arbitrary: u)
  case Nil
  then show ?case by simp
next
  case (Cons c cs)
  from Cons.prems(1) obtain v where v: "turns (plat_drift view) (dfu_class (fmc_ops io)) (cmd_events c) u v"
    and rest: "turns (plat_drift view) (dfu_class (fmc_ops io)) (session_events cs) v w"
    by (auto simp: turns_append)
  from Cons.prems(4) have c: "cmd_ok (dfu_address (cls u)) c" by simp
  from dfu_drift.turns_ok [OF v Cons.prems(2) cmd_events_sized [OF c]] have ok: "usb_ok (dfu_ready io f) v" .
  have V: "chip_idle (chip_of view (plat (cls v)))"
    "spec_cmd lim c (programmer_of view (cls u)) (programmer_of view (cls v))"
    using cmd_turns [OF D v Cons.prems(2,3) c] Cons.prems(5,6) by simp_all
  have "chip_idle (chip_of view (plat (cls w))) \<and>
    spec_run lim cs (programmer_of view (cls v)) (programmer_of view (cls w))"
    using Cons.prems(4-6) V spec_cmd_pointer [OF V(2)] turns_flash_end [OF v]
    by (intro Cons.IH [OF rest ok]) simp_all
  with V(2) show ?case by (auto intro: run_cmd)
qed

section \<open>An image\<close>

text \<open>The host cuts the image into blocks of the transfer size.\<close>

function chunks :: "u8 list \<Rightarrow> u8 list list" where
  "chunks bs = (if bs = [] then [] else take DFU_TRANSFER_SIZE bs # chunks (drop DFU_TRANSFER_SIZE bs))"
  by pat_completeness auto
termination by (relation "measure length") (auto simp: DFU_TRANSFER_SIZE_def)

declare chunks.simps [simp del]

lemma chunks_Nil [simp]: "chunks [] = []"
  by (simp add: chunks.simps)

lemma length_chunks: "length (chunks bs) = (length bs + 4095) div 4096"
proof (induction bs rule: chunks.induct)
  case (1 bs)
  show ?case
  proof (cases "length bs \<le> 4096")
    case True
    then have "drop DFU_TRANSFER_SIZE bs = []" by (simp add: DFU_TRANSFER_SIZE_def)
    moreover have "0 < length bs \<Longrightarrow> (length bs + 4095) div 4096 = 1"
      using True by (intro div_nat_eqI) (simp_all add: Suc_le_eq)
    ultimately show ?thesis by (cases "bs = []") (simp_all add: chunks.simps [of bs] Suc_le_eq)
  next
    case False
    then have "length bs + 4095 = (length bs - 4096 + 4095) + 4096" by simp
    then have "(length bs + 4095) div 4096 = Suc ((length bs - 4096 + 4095) div 4096)"
      by (metis div_add_self2 Suc_eq_plus1 zero_neq_numeral)
    moreover have "bs \<noteq> []" using False by auto
    ultimately show ?thesis
      using 1 by (simp add: chunks.simps [of bs] DFU_TRANSFER_SIZE_def)
  qed
qed

definition blocks_ok :: "u8 list list \<Rightarrow> bool" where
  "blocks_ok bss \<longleftrightarrow> list_all (\<lambda>bs. bs \<noteq> [] \<and> length bs \<le> DFU_TRANSFER_SIZE) bss"

lemma chunks_ok: "blocks_ok (chunks bs)"
proof (induction bs rule: chunks.induct)
  case (1 bs)
  then show ?case
    by (subst chunks.simps) (simp add: blocks_ok_def DFU_TRANSFER_SIZE_def)
qed

lemma chunks_nth:
  "j < length (chunks bs) \<Longrightarrow> chunks bs ! j = take 4096 (drop (4096 * j) bs)"
proof (induction bs arbitrary: j rule: chunks.induct)
  case (1 bs)
  then have ne: "bs \<noteq> []" by auto
  show ?case
  proof (cases j)
    case 0
    with ne show ?thesis by (simp add: chunks.simps [of bs] DFU_TRANSFER_SIZE_def)
  next
    case (Suc i)
    with "1.IH" [OF ne, of i] "1.prems" ne show ?thesis
      by (simp add: chunks.simps [of bs] DFU_TRANSFER_SIZE_def add.commute)
  qed
qed

text \<open>
  A host that goes through the image from the bottom: for every block it may erase the block's
  sector, moves the address pointer there and programs the data as block 2. In the end it moves the
  pointer back to the beginning, from where the device is to start.
\<close>

fun download_cmds :: "bool \<Rightarrow> u32 \<Rightarrow> u8 list list \<Rightarrow> host_cmd list" where
  "download_cmds er a [] = []"
| "download_cmds er a (bs # bss) =
     (if er then [Erase a] else []) @ Point a # Program 2 bs # download_cmds er (a + 4096) bss"

definition image_session :: "bool \<Rightarrow> u32 \<Rightarrow> u8 list \<Rightarrow> host_cmd list" where
  "image_session er a img = download_cmds er a (chunks img) @ [Point a]"

lemma download_cmds_ok:
  assumes "blocks_ok bss" and "unat a mod 4096 = 0" and "unat a + 4096 * length bss \<le> 2 ^ 27"
  shows "cmds_ok p (download_cmds er a bss @ [Point b])"
  using assms
proof (induction bss arbitrary: a p)
  case (Cons bs bss)
  have next_a: "unat (a + 4096) = unat a + 4096" "(unat a + 4096) mod 4096 = 0"
    using unat_plus_nat [of a 4096] Cons.prems(2,3) by simp_all
  have "cmds_ok a (download_cmds er (a + 4096) bss @ [Point b])"
    using Cons.prems next_a by (intro Cons.IH) (simp_all add: blocks_ok_def)
  moreover have "unat a mod 256 = 0" using mod_mod_cancel [of 256 4096 "unat a"] Cons.prems(2) by simp
  ultimately show ?case
    using Cons.prems by (cases er) (simp_all add: blocks_ok_def block_at_def DFU_TRANSFER_SIZE_def)
qed simp

lemma image_session_ok:
  assumes "unat a mod 4096 = 0" and "unat a + 4096 * ((length img + 4095) div 4096) \<le> 2 ^ 27"
  shows "cmds_ok p (image_session er a img)"
  unfolding image_session_def using assms by (intro download_cmds_ok chunks_ok) (simp_all add: length_chunks)

lemma spec_run_append:
  "spec_run lim (cs @ cs') s s' \<longleftrightarrow> (\<exists>t. spec_run lim cs s t \<and> spec_run lim cs' t s')"
proof (induction cs arbitrary: s)
  case (Cons c cs)
  show ?case unfolding append_Cons spec_run_Cons Cons.IH by blast
qed simp

text \<open>An erase never reaches below the sector of its address, a block never beyond its own 4 KB.\<close>

lemma erase_effect_below: "unat a mod 4096 = 0 \<Longrightarrow> i < unat a \<Longrightarrow> erase_effect a A i = A i"
  by (simp add: erase_effect_def Let_def erase_span_def)

lemma download_run:
  "spec_run lim (download_cmds er a bss) s s' \<Longrightarrow> blocks_ok bss \<Longrightarrow> unat a mod 4096 = 0 \<Longrightarrow>
   unat a + 4096 * length bss \<le> lim \<Longrightarrow> lim \<le> 2 ^ 27 \<Longrightarrow>
   (\<forall>j < length bss. \<forall>k < length (bss ! j). memory s' (unat a + 4096 * j + k) = bss ! j ! k) \<and>
   (\<forall>i. i < unat a \<or> \<not> er \<and> unat a + 4096 * length bss \<le> i \<longrightarrow> memory s' i = memory s i)"
proof (induction bss arbitrary: a s)
  case (Cons bs bss)
  have bs: "length bs \<le> 4096" and ok: "blocks_ok bss"
    using Cons.prems(2) by (simp_all add: blocks_ok_def DFU_TRANSFER_SIZE_def)
  let ?A = "if er then erase_effect a (memory s) else memory s"
  have fit: "\<not> lim < block_at a 2 + length bs" using Cons.prems(4) bs by (simp add: block_at_def)
  obtain tail where t: "length (bs @ tail) = 256 * ((length bs + 255) div 256)"
    and rest: "spec_run lim (download_cmds er (a + 4096) bss) (s\<lparr>pointer := a,
      memory := put (unat a) (bs @ tail) ?A, reply := (DFU_STATUS_OK, STATE_DFU_DNLOAD_IDLE)\<rparr>) s'"
    using Cons.prems(1) fit
    by (auto simp: spec_run_Cons replied_def block_at_def split: if_split_asm)
  have next_a: "unat (a + 4096) = unat a + 4096" "(unat a + 4096) mod 4096 = 0"
    using unat_plus_nat [of a 4096] Cons.prems(3-5) by simp_all
  have n: "length (bs @ tail) \<le> 4096" using t bs by simp
  let ?B = "put (unat a) (bs @ tail) ?A"
  have IH: "\<forall>j < length bss. \<forall>k < length (bss ! j). memory s' (unat a + 4096 + 4096 * j + k) = bss ! j ! k"
    "\<And>i. i < unat a + 4096 \<or> \<not> er \<and> unat a + 4096 + 4096 * length bss \<le> i \<Longrightarrow> memory s' i = ?B i"
    using Cons.IH [OF rest ok] next_a Cons.prems(4,5) by auto
  have "memory s' (unat a + 4096 * j + k) = (bs # bss) ! j ! k"
    if "j < length (bs # bss)" "k < length ((bs # bss) ! j)" for j k
  proof (cases j)
    case 0
    with that have k: "k < length bs" by simp
    then have "memory s' (unat a + k) = ?B (unat a + k)" using bs by (intro IH(2)) simp
    also have "\<dots> = bs ! k" using k by (simp add: put_def nth_append)
    finally show ?thesis using 0 by simp
  next
    case (Suc i)
    with that IH(1) have "memory s' (unat a + 4096 + 4096 * i + k) = bss ! i ! k" by simp
    then show ?thesis using Suc by (simp add: algebra_simps)
  qed
  moreover have "memory s' i = memory s i" if "i < unat a \<or> \<not> er \<and> unat a + 4096 * length (bs # bss) \<le> i" for i
  proof -
    have "memory s' i = ?B i" using that by (intro IH(2)) auto
    also have "\<dots> = ?A i" using that n by (intro put_outside) auto
    also have "\<dots> = memory s i" using that erase_effect_below [OF Cons.prems(3)] by auto
    finally show ?thesis .
  qed
  ultimately show ?case by blast
qed simp

text \<open>The image is in the array, and nothing below it has changed, nor behind its last sector
  unless the host erases; the last command is reported OK.\<close>

lemma image_session_run:
  assumes run: "spec_run lim (image_session er a img) s s'" and a: "unat a mod 4096 = 0"
    and top: "unat a + 4096 * ((length img + 4095) div 4096) \<le> lim" and lim: "lim \<le> 2 ^ 27"
  shows "\<forall>i < length img. memory s' (unat a + i) = img ! i"
    and "\<forall>i. i < unat a \<or> \<not> er \<and> unat a + 4096 * ((length img + 4095) div 4096) \<le> i \<longrightarrow>
      memory s' i = memory s i"
    and "reply s' = (DFU_STATUS_OK, STATE_DFU_DNLOAD_IDLE)"
proof -
  obtain t where t: "spec_run lim (download_cmds er a (chunks img)) s t" "memory s' = memory t"
    and r: "reply s' = (DFU_STATUS_OK, STATE_DFU_DNLOAD_IDLE)"
    using run by (auto simp: image_session_def spec_run_append spec_run_Cons replied_def)
  show "reply s' = (DFU_STATUS_OK, STATE_DFU_DNLOAD_IDLE)" by (rule r)
  note R = download_run [OF t(1) chunks_ok a, unfolded length_chunks, OF top lim]
  show "\<forall>i < length img. memory s' (unat a + i) = img ! i"
  proof (intro allI impI)
    fix i assume i: "i < length img"
    let ?j = "i div 4096" and ?k = "i mod 4096"
    have j: "?j < length (chunks img)" using i by (simp add: length_chunks)
    have e: "4096 * ?j + ?k = i" by simp
    then have "?k < length img - 4096 * ?j" using i by linarith
    with chunks_nth [OF j] have c: "?k < length (chunks img ! ?j)"
      "chunks img ! ?j ! ?k = img ! (4096 * ?j + ?k)" by simp_all
    have "memory t (unat a + 4096 * ?j + ?k) = chunks img ! ?j ! ?k"
      using R j c(1) unfolding length_chunks by blast
    then show "memory s' (unat a + i) = img ! i" unfolding c(2) add.assoc e t(2) .
  qed
  from R show "\<forall>i. i < unat a \<or> \<not> er \<and> unat a + 4096 * ((length img + 4095) div 4096) \<le> i \<longrightarrow>
      memory s' i = memory s i"
    unfolding t(2) by blast
qed

end
