(* ===== verification/Stage2_Props.thy ===== *)
theory Stage2_Props
  imports Stage2 Devices Timer_Props Usb_Flash
begin

text \<open>
  The second stage from its entry on: initialisation ends and sets the end of flash, the polling loop
  handles every sequence of events, and it resets the chip exactly when the host asked for it.
\<close>

section \<open>The invariant of the loop\<close>

text \<open>The states the loop leaves behind after a turn that goes on.\<close>

fun loop_state :: "dfu_state \<Rightarrow> bool" where
  "loop_state STATE_DFU_IDLE = True"
| "loop_state STATE_DFU_DNLOAD_SYNC = True"
| "loop_state STATE_DFU_DNBUSY = True"
| "loop_state STATE_DFU_DNLOAD_IDLE = True"
| "loop_state STATE_DFU_UPLOAD_IDLE = True"
| "loop_state STATE_DFU_ERROR = True"
| "loop_state _ = False"

definition dfu_inv :: "'h mach dfu \<Rightarrow> bool" where
  "dfu_inv d \<longleftrightarrow> flash_end d = 0x40000 \<and> dfu_coherent d \<and> loop_state (state d)"

definition loop_inv :: "'h bus \<Rightarrow> ('h \<Rightarrow> nat) \<Rightarrow> 'h stage2 \<Rightarrow> bool" where
  "loop_inv io f s \<longleftrightarrow> usb_ok (dfu_ready io f) (s2_usb s) \<and> dfu_inv (cls (s2_usb s))"

lemma set_simps [simp]:
  "s2_timer (set_mach m s) = s2_timer s" "s2_led (set_mach m s) = s2_led s"
  "s2_rdv (set_mach m s) = s2_rdv s" "s2_mach (set_mach m s) = m"
  "cls (s2_usb (set_mach m s)) = (cls (s2_usb s))\<lparr>plat := m\<rparr>"
  "s2_timer (on_mach g s) = s2_timer s" "s2_led (on_mach g s) = s2_led s"
  "s2_rdv (on_mach g s) = s2_rdv s" "s2_mach (on_mach g s) = g (s2_mach s)"
  "cls (s2_usb (on_mach g s)) = (cls (s2_usb s))\<lparr>plat := g (s2_mach s)\<rparr>"
  "s2_timer (set_dfu d s) = s2_timer s" "s2_mach (set_dfu d s) = plat d"
  "s2_usb (set_dfu d s) = (s2_usb s)\<lparr>cls := d\<rparr>" "s2_rdv (set_dfu d s) = s2_rdv s"
  by (simp_all add: set_mach_def set_dfu_def on_mach_def s2_mach_def)

lemma s2_usb_set_mach: "s2_usb (set_mach m s) = (s2_usb s)\<lparr>cls := (cls (s2_usb s))\<lparr>plat := m\<rparr>\<rparr>"
  by (simp add: set_mach_def set_dfu_def)

lemma s2_usb_on_mach:
  "s2_usb (on_mach g s) = (s2_usb s)\<lparr>cls := (cls (s2_usb s))\<lparr>plat := g (s2_mach s)\<rparr>\<rparr>"
  by (simp add: on_mach_def s2_usb_set_mach)

lemma dfu_inv_plat [simp]: "dfu_inv (d\<lparr>plat := m\<rparr>) = dfu_inv d"
  by (simp add: dfu_inv_def dfu_coherent_def)

lemma loop_inv_plat:
  assumes "loop_inv io f s" shows "loop_inv io f (set_mach m s)" "loop_inv io f (on_mach g s)"
  using assms usb_ok_cls [of "dfu_ready io f" "s2_usb s"] usb_okD(5) [of "dfu_ready io f" "s2_usb s"]
  by (simp_all add: loop_inv_def s2_usb_set_mach s2_usb_on_mach)

lemma loop_inv_fields [simp]:
  "loop_inv io f (s\<lparr>s2_led := b\<rparr>) = loop_inv io f s" "loop_inv io f (s\<lparr>s2_rdv := r\<rparr>) = loop_inv io f s"
  "loop_inv io f (s\<lparr>s2_timer := t\<rparr>) = loop_inv io f s"
  by (simp_all add: loop_inv_def)

lemma blink_inv: "loop_inv io f s \<Longrightarrow> loop_inv io f (blink io s)"
  by (simp add: blink_def stage2_toggle_led_def Let_def loop_inv_plat)

lemma blink_dfu: "\<exists>m. s2_usb (blink io s) = (s2_usb s)\<lparr>cls := (cls (s2_usb s))\<lparr>plat := m\<rparr>\<rparr>"
proof (cases "getTickCount (s2_timer s) > s2_rdv s")
  case True
  then show ?thesis
    by (auto simp: blink_def stage2_toggle_led_def Let_def s2_usb_on_mach)
next
  case False
  then show ?thesis by (intro exI [of _ "plat (cls (s2_usb s))"]) (simp add: blink_def)
qed

section \<open>What one event does to the DFU state\<close>

lemma getstatus_next_loop: "loop_state s \<Longrightarrow> loop_state (dfu_getstatus_next s)"
  by (cases s) (simp_all add: dfu_getstatus_next_def)

lemma request_inv:
  assumes "dfu_inv d" and "dfu_handle_request r d = (c, a, d')"
  shows "flash_end d' = 0x40000 \<and> dfu_coherent d' \<and>
    (if bRequest r = DFU_DETACH then state d' = STATE_APP_DETACH
     else if bRequest r = DFU_DNLOAD \<and> wLength r = 0 then state d' = STATE_DFU_MANIFEST_SYNC
     else loop_state (state d'))"
proof -
  have "flash_end d' = 0x40000" "dfu_coherent d'"
    using assms dfu_handle_request_frame [OF assms(2)] dfu_handle_request_coherent [OF _ assms(2)]
    by (simp_all add: dfu_inv_def)
  moreover have "(if bRequest r = DFU_DETACH then state d' = STATE_APP_DETACH
     else if bRequest r = DFU_DNLOAD \<and> wLength r = 0 then state d' = STATE_DFU_MANIFEST_SYNC
     else loop_state (state d'))"
    using assms getstatus_next_loop [of "state d"]
    by (auto simp: dfu_handle_request_simps dfu_inv_def Let_def split: if_split_asm)
  ultimately show ?thesis by blast
qed

lemma data_inv:
  assumes "dfu_inv d" and "dfu_handle_data fl c len d = Some d'"
  shows "dfu_inv d'"
  using assms dfu_handle_data_result [OF assms(2)] dfu_handle_data_frame [OF assms(2)]
    dfu_handle_data_coherent [OF _ assms(2)]
  by (auto simp: dfu_inv_def)

lemma host_step_inv:
  assumes "dfu_inv (cls u)" and "host_step (dfu_class fl) ev u = Some u'"
  shows "flash_end (cls u') = 0x40000 \<and> dfu_coherent (cls u') \<and>
    (loop_state (state (cls u')) \<or>
     asks_reset ev \<and> state (cls u') \<in> {STATE_APP_DETACH, STATE_DFU_MANIFEST_SYNC})"
  using host_step_cls [OF assms(2)]
proof (elim disjE exE conjE)
  assume "cls u' = cls u"
  with assms(1) show ?thesis by (simp add: dfu_inv_def)
next
  fix r a assume ev: "ev = Ev_setup r" "bmRequestType r AND 0x60 = 0x20"
    and req: "cls_request (dfu_class fl) r (cls u) = (a, cls u')"
  then obtain c where "dfu_handle_request r (cls u) = (c, a, cls u')"
    by (auto split: prod.split_asm)
  from request_inv [OF assms(1) this] ev show ?thesis
    by (auto simp: asks_reset_def split: if_split_asm)
next
  fix c len assume "cls_data (dfu_class fl) c len (cls u) = Some (cls u')"
  with data_inv [OF assms(1)] show ?thesis by (auto simp: dfu_inv_def)
qed

section \<open>A turn of the loop\<close>

lemma deliver_set_cls: "deliver ev (u\<lparr>cls := d\<rparr>) = (deliver ev u)\<lparr>cls := d\<rparr>"
  by (cases ev) simp_all

text \<open>In a turn the driver polls a state that differs from the one before in the machine and in the
  event the peripheral shows.\<close>

lemma world_blink_usb:
  "\<exists>m. s2_usb (blink io (world_step io fires n ev s)) =
     deliver ev ((s2_usb s)\<lparr>cls := (cls (s2_usb s))\<lparr>plat := m\<rparr>\<rparr>)"
proof -
  obtain t m where "ticks io fires n (s2_timer s, s2_mach s) = (t, m)" by force
  then have "s2_usb (world_step io fires n ev s) =
      deliver ev ((s2_usb s)\<lparr>cls := (cls (s2_usb s))\<lparr>plat := m\<rparr>\<rparr>)"
    by (simp add: world_step_def Let_def s2_usb_set_mach)
  with blink_dfu [of io "world_step io fires n ev s"] show ?thesis
    by (auto simp: deliver_set_cls)
qed

definition turn_result :: "'h bus \<Rightarrow> ('h \<Rightarrow> nat) \<Rightarrow> usb_event \<Rightarrow> 'h outcome \<Rightarrow> bool" where
  "turn_result io f ev out = (case out of
     Running s' \<Rightarrow> loop_inv io f s' \<and> \<not> asks_reset ev
   | Reset s' \<Rightarrow> asks_reset ev \<and>
       state (cls (s2_usb s')) \<in> {STATE_APP_DETACH, STATE_DFU_MANIFEST_WAIT_RESET})"

lemma asks_reset_step:
  assumes "host_step (dfu_class fl) ev u = Some u'" "asks_reset ev"
  shows "state (cls u') \<in> {STATE_APP_DETACH, STATE_DFU_MANIFEST_SYNC}"
proof -
  from assms(2) obtain r where ev: "ev = Ev_setup r" and type: "bmRequestType r AND 0x60 = 0x20"
    and req: "bRequest r = DFU_DETACH \<or> bRequest r = DFU_DNLOAD \<and> wLength r = 0"
    by (auto simp: asks_reset_def)
  obtain c a d where h: "dfu_handle_request r (cls u) = (c, a, d)" by (cases "dfu_handle_request r (cls u)")
  have st: "state d \<in> {STATE_APP_DETACH, STATE_DFU_MANIFEST_SYNC}"
    using h req by (auto simp: dfu_handle_request_simps Let_def split: if_split_asm)
  from assms(1) ev obtain x l u1 where
    "route_request (dfu_class fl) r (setup_state r u) = Some ((x, l), u1)" "cls u' = cls u1"
    by (auto simp: host_step_setup_eq ep0_recv_def elim!: bind_SomeE
      dest!: ep0_send_addr(4) start_data_in_addr(4) split: prod.split_asm if_split_asm)
  with st h show ?thesis by (auto simp: route_class [OF type])
qed

lemma turn:
  assumes inv: "loop_inv io f s" and ev: "packet_sized ev"
  shows "\<exists>out. main_step io (world_step io fires n ev s) = Some out \<and> turn_result io f ev out"
proof -
  obtain m where usb: "s2_usb (blink io (world_step io fires n ev s)) =
      deliver ev ((s2_usb s)\<lparr>cls := (cls (s2_usb s))\<lparr>plat := m\<rparr>\<rparr>)"
    using world_blink_usb by blast
  let ?u = "(s2_usb s)\<lparr>cls := (cls (s2_usb s))\<lparr>plat := m\<rparr>\<rparr>"
  let ?k = "dfu_class (fmc_ops io)"
  have ok: "usb_ok (dfu_ready io f) ?u" and d: "dfu_inv (cls ?u)"
    using inv loop_inv_plat(1) [OF inv, of m] by (simp_all add: loop_inv_def s2_usb_set_mach)
  from dfu_usb.host_step_ok [OF ok ev] obtain u' where
    u': "host_step ?k ev ?u = Some u'" "usb_ok (dfu_ready io f) u'" by blast
  note inv' = host_step_inv [OF d u'(1)]
  have run: "main_step io (world_step io fires n ev s) = Some
    (let s = (blink io (world_step io fires n ev s))\<lparr>s2_usb := u'\<rparr>;
         s = (if state (cls u') = STATE_DFU_MANIFEST_SYNC
              then set_dfu ((cls u')\<lparr>state := STATE_DFU_MANIFEST_WAIT_RESET\<rparr>) s else s)
     in if state (cls (s2_usb s)) = STATE_DFU_MANIFEST_WAIT_RESET then Reset (on_mach (system_reset io) s)
        else if state (cls (s2_usb s)) = STATE_APP_DETACH then Reset (on_mach (system_reset io) s)
        else Running s)"
    using u'(1) by (simp add: main_step_def usb host_step_def Let_def)
  show ?thesis
  proof (cases "asks_reset ev")
    case True
    with asks_reset_step [OF u'(1) this] show ?thesis
      by (auto simp: run Let_def turn_result_def)
  next
    case False
    with inv' have "loop_state (state (cls u'))" by blast
    then have "state (cls u') \<noteq> STATE_DFU_MANIFEST_SYNC"
      "state (cls u') \<noteq> STATE_DFU_MANIFEST_WAIT_RESET" "state (cls u') \<noteq> STATE_APP_DETACH"
      by (cases "state (cls u')"; simp)+
    with False inv' u'(2) show ?thesis
      by (simp add: run Let_def turn_result_def loop_inv_def dfu_inv_def)
  qed
qed

definition loop_result ::
  "'h bus \<Rightarrow> ('h \<Rightarrow> nat) \<Rightarrow> (nat \<times> usb_event) list \<Rightarrow> 'h outcome \<Rightarrow> bool" where
  "loop_result io f evs out = (case out of
     Running s' \<Rightarrow> loop_inv io f s' \<and> \<not> list_ex (\<lambda>e. asks_reset (snd e)) evs
   | Reset s' \<Rightarrow> list_ex (\<lambda>e. asks_reset (snd e)) evs \<and>
       state (cls (s2_usb s')) \<in> {STATE_APP_DETACH, STATE_DFU_MANIFEST_WAIT_RESET})"

lemma loop_result_Cons:
  "\<not> asks_reset ev \<Longrightarrow> loop_result io f ((n, ev) # evs) out = loop_result io f evs out"
  by (cases out) (simp_all add: loop_result_def)

lemma main_loop_runs:
  assumes "loop_inv io f s" and "list_all (\<lambda>e. packet_sized (snd e)) evs"
  shows "\<exists>out. main_loop io fires evs s = Some out \<and> loop_result io f evs out"
  using assms
proof (induction evs arbitrary: s)
  case Nil
  then show ?case by (simp add: loop_result_def)
next
  case (Cons e evs)
  obtain n ev where e: "e = (n, ev)" by force
  with Cons.prems turn [of io f s ev fires n] obtain out where
    out: "main_step io (world_step io fires n ev s) = Some out" "turn_result io f ev out" by auto
  show ?case
  proof (cases out)
    case (Running s')
    with out(2) have s': "loop_inv io f s'" "\<not> asks_reset ev" by (simp_all add: turn_result_def)
    with Cons.IH [of s'] Cons.prems(2) out(1) Running show ?thesis
      by (simp add: e loop_result_Cons)
  next
    case (Reset s')
    with out e show ?thesis by (simp add: turn_result_def loop_result_def)
  qed
qed

section \<open>Initialisation\<close>

lemma stage2_delay_runs:
  assumes "irq_fires fires f'" "irq_enabled (plat d)" "unat (sys_tick_count t) + n < 2 ^ 32"
  shows "\<exists>t' m'. stage2_delay io fires n (t, d) = Some (t', d\<lparr>plat := m'\<rparr>) \<and>
    t' = t\<lparr>sys_tick_count := sys_tick_count t + of_nat n\<rparr> \<and> csr m' = csr (plat d)"
proof -
  have "unat (of_nat n :: u32) = n" using assms(3) by (simp add: unsigned_of_nat take_bit_nat_eq_self)
  with assms(3) have "unat (sys_tick_count t + of_nat n) = unat (sys_tick_count t) + n"
    using unat_add_small [of "sys_tick_count t" "of_nat n"] by simp
  then have "sys_tick_count t \<le> sys_tick_count t + of_nat n" by (simp add: word_le_nat_alt)
  from delay_loop_returns [OF assms(1,2) this, of io] obtain s' where
    "lnDelay io fires (of_nat n) (t, plat d) = Some s'"
    "ticked (sys_tick_count t + of_nat n) (t, plat d) s'" by (auto simp: lnDelay_def)
  then show ?thesis by (cases s') (auto simp: stage2_delay_def ticked_def)
qed

lemma irq_enabled_csr: "csr m' = csr m \<Longrightarrow> irq_enabled m' = irq_enabled m"
  by (simp add: irq_enabled_def)

lemma irq_enabled_lnInterrupts: "irq_enabled (lnInterrupts m)"
  by (simp add: lnInterrupts_def)

lemma stage2_hw_init_state:
  "\<exists>m'. s2_usb (stage2_hw_init io g (stage2_reset_state l m)) =
      usb_reset_state (lk_ep0_buffer l) (lk_rx_buffer l) ((dfu_init m')\<lparr>flash_end := 0x40000\<rparr>) \<and>
    irq_enabled m' \<and>
    s2_timer (stage2_hw_init io g (stage2_reset_state l m)) = lnSystemTimerInit g timer_reset"
proof -
  obtain t m1 where 1: "init_timer_irq io g (timer_reset, m) = (t, m1)" by force
  then have t: "t = lnSystemTimerInit g timer_reset" using init_timer_irq_timer [OF 1] by simp
  let ?s = "stage2_hw_init io g (stage2_reset_state l m)"
  have "s2_mach (stage2_reset_state l m) = m"
    by (simp add: s2_mach_def stage2_reset_state_def usb_reset_state_def dfu_init_def)
  then have "s2_usb ?s = usb_reset_state (lk_ep0_buffer l) (lk_rx_buffer l)
      ((dfu_init (s2_mach ?s))\<lparr>flash_end := 0x40000\<rparr>) \<and> s2_timer ?s = t \<and> irq_enabled (s2_mach ?s)"
    using 1
    by (simp add: stage2_hw_init_def Let_def FLASH_START_ADDR_def
      flash_config_defs stage2_toggle_led_def s2_usb_on_mach
      s2_usb_set_mach irq_enabled_lnInterrupts stage2_reset_state_def usb_reset_state_def dfu_init_def)
  with t show ?thesis by blast
qed

lemma stage2_init_runs:
  assumes "fmc_drains io f" and "irq_fires fires f'"
  shows "\<exists>s'. stage2_init io fires g (stage2_reset_state l m) = Some s' \<and> loop_inv io f s' \<and>
    sys_tick_count (s2_timer s') = 30 \<and> s2_rdv s' = 0 \<and> irq_enabled (s2_mach s') \<and>
    cls (s2_usb s') = (dfu_init (s2_mach s'))\<lparr>flash_end := 0x40000\<rparr>"
proof -
  let ?s = "stage2_hw_init io g (stage2_reset_state l m)"
  obtain m' where usb: "s2_usb ?s = usb_reset_state (lk_ep0_buffer l) (lk_rx_buffer l)
      ((dfu_init m')\<lparr>flash_end := 0x40000\<rparr>)" and irq: "irq_enabled m'"
    and tm: "s2_timer ?s = lnSystemTimerInit g timer_reset"
    using stage2_hw_init_state [of io g l m] by blast
  let ?d = "(dfu_init m')\<lparr>flash_end := 0x40000\<rparr>"
  have cls: "cls (s2_usb ?s) = ?d" by (simp add: usb usb_reset_state_def)
  have ready: "dfu_ready io f ?d" using assms(1) by (simp add: dfu_ready_def)
  have "sys_tick_count (s2_timer ?s) = 0" by (simp add: tm lnSystemTimerInit_def timer_reset_def)
  moreover have "irq_enabled (plat ?d)" using irq by (simp add: dfu_init_def)
  ultimately obtain t'' m'' where delay:
    "stage2_delay io fires 30 (s2_timer ?s, ?d) = Some (t'', ?d\<lparr>plat := m''\<rparr>)"
    "t'' = (s2_timer ?s)\<lparr>sys_tick_count := 30\<rparr>" "csr m'' = csr (plat ?d)"
    using stage2_delay_runs [OF assms(2), of ?d "s2_timer ?s" 30 io] by auto
  have ok: "usb_ok (dfu_ready io f) (s2_usb ?s)"
    unfolding usb by (rule usb_ok_reset) (rule ready)
  have "dfu_ready io f (?d\<lparr>plat := m''\<rparr>)" using ready by simp
  from usb_init_ok [OF ok _ this, of "stage2_delay io fires" "s2_timer ?s" t''] delay(1) cls
  obtain u' where u': "usb_init (stage2_delay io fires) (s2_timer ?s, s2_usb ?s) = Some (t'', u')"
    "usb_ok (dfu_ready io f) u'" "cls u' = ?d\<lparr>plat := m''\<rparr>" by auto
  have "dfu_inv (?d\<lparr>plat := m''\<rparr>)"
    by (simp add: dfu_inv_def dfu_coherent_def dfu_init_def)
  moreover have "irq_enabled m''" using irq irq_enabled_csr [OF delay(3)] by (simp add: dfu_init_def)
  ultimately show ?thesis
    using u' delay(2) by (simp add: stage2_init_def Let_def loop_inv_def s2_mach_def dfu_init_def)
qed

section \<open>Properties\<close>

definition demo_linked :: linked where
  "demo_linked = \<lparr>lk_sections = demo_sections\<lparr>data_end := 0x20000010, bss_end := 0x20000018\<rparr>,
     lk_vectors = \<lparr>vec_table_addr = 0x20008000, default_vector = 0x20005000, systick_vector = 0x20005100\<rparr>,
     lk_ep0_buffer = 0x20008400, lk_rx_buffer = 0x20008440\<rparr>"

lemma demo_linked_sizes: "section_sizes (lk_sections demo_linked) (4 * 0) (4 * 0)"
  by (simp add: demo_linked_def section_sizes_def demo_sections_def apart_def)

lemma blank_fires: "irq_fires (\<lambda>d :: unit. (True, d)) (\<lambda>_. 0)"
  by (simp add: irq_fires_def)



text \<open>Initialisation of stage 2 ends after thirty timer interrupts with interrupts enabled and the
  loop's invariant established.\<close>

lemma stage2_init_establishes:
  assumes "fmc_drains io f" and "irq_fires fires f'"
  shows "\<exists>s'. stage2_init io fires g (stage2_reset_state l m) = Some s' \<and> loop_inv io f s' \<and>
    sys_tick_count (s2_timer s') = 30 \<and> s2_rdv s' = 0 \<and> irq_enabled (s2_mach s')"
  using stage2_init_runs [OF assms] by blast

text \<open>C39: a turn of the loop resets the chip exactly if the event is a class request DETACH, or DNLOAD
  with length zero; in particular the state MANIFEST and GETSTATUS's way into it are never reached.\<close>

theorem reset_only_on_request:
  assumes "loop_inv io f s" and "packet_sized ev"
  shows "\<exists>out. main_step io (world_step io fires n ev s) = Some out \<and>
    is_Running out = (\<not> asks_reset ev) \<and>
    state (cls (s2_usb (outcome_state out))) \<noteq> STATE_DFU_MANIFEST"
proof -
  obtain out where out: "main_step io (world_step io fires n ev s) = Some out" "turn_result io f ev out"
    using turn [OF assms] by blast
  then show ?thesis
    by (cases out) (auto simp: turn_result_def loop_inv_def dfu_inv_def)
qed

definition fresh_stage2 :: "unit stage2" where
  "fresh_stage2 = (stage2_reset_state demo_linked blank_mach)\<lparr>s2_usb :=
     usb_reset_state 0x20008400 0x20008440 ((dfu_init blank_mach)\<lparr>flash_end := 0x40000\<rparr>)\<rparr>"

lemma fresh_inv: "loop_inv blank_bus (\<lambda>_. 0) fresh_stage2"
proof -
  have "usb_ok (dfu_ready blank_bus (\<lambda>_. 0))
      (usb_reset_state 0x20008400 0x20008440 ((dfu_init blank_mach)\<lparr>flash_end := 0x40000\<rparr>))"
    by (rule usb_ok_reset) (simp add: dfu_ready_def blank_drains)
  then show ?thesis
    by (simp add: loop_inv_def fresh_stage2_def dfu_inv_def dfu_coherent_def dfu_init_def
      usb_reset_state_def)
qed

theorem reset_only_on_request_witness:
  "\<exists>out. main_step blank_bus (world_step blank_bus (\<lambda>d. (True, d)) 2 Ev_suspend fresh_stage2) = Some out \<and>
     is_Running out"
proof -
  have "\<not> asks_reset Ev_suspend" by (simp add: asks_reset_def)
  with reset_only_on_request [OF fresh_inv, of Ev_suspend "\<lambda>d. (True, d)" 2] show ?thesis by auto
qed

text \<open>C40: the zero-length DNLOAD that ends a download resets the chip in the turn that receives it: the
  empty status packet is armed, but the host has not fetched it.\<close>

theorem manifest_resets_before_status:
  assumes "loop_inv io f s"
    and "bmRequestType r = 0x21" and "bRequest r = DFU_DNLOAD" and "wLength r = 0"
  shows "\<exists>s'. main_step io (world_step io fires n (Ev_setup r) s) = Some (Reset s') \<and>
    state (cls (s2_usb s')) = STATE_DFU_MANIFEST_WAIT_RESET \<and>
    armed_packet (s2_usb s') = [] \<and> phase (s2_usb s') = CTRL_STATUS"
proof -
  obtain m where usb: "s2_usb (blink io (world_step io fires n (Ev_setup r) s)) =
      deliver (Ev_setup r) ((s2_usb s)\<lparr>cls := (cls (s2_usb s))\<lparr>plat := m\<rparr>\<rparr>)"
    using world_blink_usb by blast
  let ?u = "(s2_usb s)\<lparr>cls := (cls (s2_usb s))\<lparr>plat := m\<rparr>\<rparr>"
  have type: "bmRequestType r AND 0x60 = 0x20" using assms(2) by simp
  obtain u' where u': "host_step (dfu_class (fmc_ops io)) (Ev_setup r) ?u = Some u'"
    "state (cls u') = STATE_DFU_MANIFEST_SYNC" "armed_packet u' = []" "phase u' = CTRL_STATUS"
    using assms(3,4)
    by (simp add: host_step_setup_eq route_class [OF type] dfu_handle_request_simps ep0_send_None
      armed_packet_def last_write_def)
  then show ?thesis
    by (simp add: main_step_def usb host_step_def Let_def armed_packet_def s2_usb_on_mach)
qed

theorem manifest_resets_before_status_witness:
  "\<exists>s'. main_step blank_bus (world_step blank_bus (\<lambda>d. (True, d)) 0
     (Ev_setup \<lparr>bmRequestType = 0x21, bRequest = 1, wValue = 0, wIndex = 0, wLength = 0\<rparr>) fresh_stage2) =
     Some (Reset s')"
  using manifest_resets_before_status [OF fresh_inv, of "\<lparr>bmRequestType = 0x21, bRequest = 1, wValue = 0,
    wIndex = 0, wLength = 0\<rparr>"] by (auto simp: DFU_DNLOAD_def)

end
