(* ===== verification/Stage2_Session.thy ===== *)
theory Stage2_Session
  imports Stage2_Props
begin

text \<open>
  A download session through the polling loop of stage 2: timer interrupts between the polls, the
  blinking LED and the initialisation leave the flash controller alone, so the loop is a run of the
  USB driver with drift, and the facts about sessions hold for it.
\<close>

section \<open>Accesses the flash controller does not see\<close>

definition fmc_quiet :: "u32 \<Rightarrow> bool" where
  "fmc_quiet a \<longleftrightarrow> 0x10000000 \<le> a \<and> a \<notin> {FMC_CTL, FMC_ADDR, FMC_STAT, FMC_KEY, FMC_CHF9}"

lemmas fmc_quiet_defs = fmc_quiet_def FMC_STAT_def FMC_CTL_def FMC_ADDR_def FMC_KEY_def FMC_CHF9_def
  FMC_BASE_def

lemma quiet_wr32:
  assumes "fmc_device io view over f" and "fmc_quiet a"
  shows "chip_of view (wr32 io a w m) = chip_of view m"
proof -
  have "\<not> a < 0x10000000" "a \<noteq> FMC_CTL" "a \<noteq> FMC_ADDR" "a \<noteq> FMC_STAT" "a \<noteq> FMC_KEY" "a \<noteq> FMC_CHF9"
    using assms(2) by (simp_all add: fmc_quiet_def not_less)
  then show ?thesis by (simp add: device_wr32 [OF assms(1)] chip_wr_def)
qed

lemma chip_view: "fmc_device io view over f \<Longrightarrow> bus_view io (chip_of view) fmc_quiet"
  by unfold_locales (erule device_rd32(1), assumption, rule quiet_wr32)

lemmas quiet_rd32 = bus_view.rd32_view [OF chip_view]
lemmas quiet_or32 = bus_view.or32_view [OF chip_view]

lemma quiet_addresses:
  "fmc_quiet STK_SR" "fmc_quiet STK_CMP_HI" "fmc_quiet STK_CMP_LO" "fmc_quiet STK_CTLR"
  "fmc_quiet RCU_AHBEN" "fmc_quiet RCU_APB2EN" "fmc_quiet PFIC_CFGR"
  "fmc_quiet (gpioPort 1 + GPIO_CFGHR)" "fmc_quiet PFIC_IENR"
  by (simp_all add: fmc_quiet_defs STK_SR_def STK_CMP_HI_def STK_CMP_LO_def STK_CTLR_def LN_STK_ADR_def
    RCU_AHBEN_def RCU_APB2EN_def LN_RCU_ADR_def PFIC_CFGR_def LN_PFIC_ADR_def gpioPort_def
    LN_GPIOA_ADR_def GPIO_CFGHR_def PFIC_IENR_def)

text \<open>The interrupt source moves the device on without touching the flash controller.\<close>

definition irq_quiet :: "('h \<Rightarrow> chip) \<Rightarrow> ('h \<Rightarrow> bool \<times> 'h) \<Rightarrow> bool" where
  "irq_quiet view fires \<longleftrightarrow> (\<forall>d. view (snd (fires d)) = view d)"

lemma take_irq_chip:
  assumes "fmc_device io view over f" and "irq_quiet view fires"
  shows "chip_of view (snd (take_irq io fires s)) = chip_of view (snd s)"
  using assms(2)
  by (simp add: take_irq_def systick_isr_def quiet_wr32 [OF assms(1)] quiet_addresses irq_quiet_def
    split: prod.split) (metis snd_conv)

lemma ticks_chip:
  assumes "fmc_device io view over f" and "irq_quiet view fires"
  shows "chip_of view (snd (ticks io fires n s)) = chip_of view (snd s)"
  by (induction n arbitrary: s) (simp_all add: take_irq_chip [OF assms])

lemma delay_chip:
  assumes "fmc_device io view over f" and "irq_quiet view fires" and "lnDelay io fires w s = Some s'"
  shows "chip_of view (snd s') = chip_of view (snd s)"
proof -
  have "io' = io \<longrightarrow> fires' = fires \<longrightarrow> chip_of view (snd s') = chip_of view (snd s)"
    if "delay_loop io' fires' u s = Some s'" for io' fires' u s s'
  proof (rule delay_loop.raw_induct [OF _ that, where
      P = "\<lambda>io' fires' u s s'. io' = io \<longrightarrow> fires' = fires \<longrightarrow> chip_of view (snd s') = chip_of view (snd s)"],
      intro impI)
    fix g io' fires' u and s s' :: "timer \<times> 'a mach"
    assume IH: "\<And>io' fires' u s s'. g io' fires' u s = Some s' \<Longrightarrow>
        io' = io \<longrightarrow> fires' = fires \<longrightarrow> chip_of view (snd s') = chip_of view (snd s)"
      and run: "(if sys_tick_count (fst s) < u then g io' fires' u (take_irq io' fires' s) else Some s) = Some s'"
      and e: "io' = io" "fires' = fires"
    show "chip_of view (snd s') = chip_of view (snd s)"
      using run IH [of io fires u "take_irq io fires s" s'] take_irq_chip [OF assms(1,2), of s] e
      by (auto split: if_split_asm)
  qed
  with assms(3) show ?thesis by (simp add: lnDelay_def)
qed

section \<open>Initialisation\<close>

lemma high_quiet: "0xE0000000 \<le> a \<Longrightarrow> fmc_quiet a"
  by (auto simp: fmc_quiet_defs word_le_nat_alt)

lemma priorities_chip:
  assumes D: "fmc_device io view over f" and "n \<le> PFIC_IPRIOIR_COUNT"
  shows "chip_of view (set_priorities io p n m) = chip_of view m"
  using assms(2)
proof (induction n arbitrary: m)
  case (Suc n)
  let ?k = "4 * (PFIC_IPRIOIR_COUNT - Suc n)"
  have "?k \<le> 256" by (simp add: PFIC_IPRIOIR_COUNT_def)
  then have "unat (PFIC_IPRIOIR + of_nat ?k) = unat PFIC_IPRIOIR + ?k"
    by (intro unat_plus_nat) (simp add: PFIC_IPRIOIR_def LN_PFIC_ADR_def)
  then have "0xE0000000 \<le> PFIC_IPRIOIR + of_nat ?k"
    by (simp add: word_le_nat_alt PFIC_IPRIOIR_def LN_PFIC_ADR_def)
  from quiet_wr32 [OF D high_quiet [OF this]] Suc show ?case by simp
qed simp

lemma irq_init_chip:
  assumes D: "fmc_device io view over f" and "stage2_irq_init io l m = (tab, m')"
  shows "chip_of view m' = chip_of view m"
  using assms(2) priorities_chip [OF D le_refl]
  by (auto simp: stage2_irq_init_def Let_def quiet_or32 [OF D] quiet_addresses)

lemma init_timer_chip:
  assumes D: "fmc_device io view over f" and "init_timer_irq io g s = (t, m)"
  shows "chip_of view m = chip_of view (snd s)"
  using assms(2)
  by (auto simp: init_timer_irq_def Let_def quiet_wr32 [OF D] quiet_addresses dest!: quiet_rd32 [OF D]
    split: prod.split_asm)

lemma pin_mode_chip:
  assumes D: "fmc_device io view over f"
  shows "chip_of view (lnPinMode io LED_PIN lnOUTPUT m) = chip_of view m"
  by (auto simp: lnPinMode_def Let_def decode_pins quiet_wr32 [OF D] quiet_addresses dest: quiet_rd32 [OF D]
    split: prod.split)

lemma s2_mach_fields [simp]:
  "s2_mach (s\<lparr>s2_led := b\<rparr>) = s2_mach s" "s2_mach (s\<lparr>s2_timer := t\<rparr>) = s2_mach s"
  "s2_mach (s\<lparr>s2_rdv := r\<rparr>) = s2_mach s"
  by (simp_all add: s2_mach_def)

lemma hw_init_chip:
  assumes D: "fmc_device io view over f"
  shows "chip_of view (s2_mach (stage2_hw_init io g s)) = chip_of view (s2_mach s)"
proof -
  obtain t m where 1: "init_timer_irq io g (s2_timer s, s2_mach s) = (t, m)" by force
  from init_timer_chip [OF D this] show ?thesis
    by (simp add: stage2_hw_init_def Let_def 1 stage2_toggle_led_def lnInterrupts_def lnEnableInterrupt_def
      enable_periph_def quiet_wr32 [OF D] quiet_or32 [OF D] quiet_addresses pin_mode_chip [OF D]
      device_LED [OF D])
qed

lemma stage2_init_chip:
  assumes D: "fmc_device io view over f" and Q: "irq_quiet view fires"
    and run: "stage2_init io fires g s = Some s'"
  shows "chip_of view (s2_mach s') = chip_of view (s2_mach s)"
proof -
  let ?h = "stage2_hw_init io g s"
  from run obtain t u where u: "usb_init (stage2_delay io fires) (s2_timer ?h, s2_usb ?h) = Some (t, u)"
    and s': "s' = ?h\<lparr>s2_timer := t, s2_usb := u, s2_rdv := 0\<rparr>"
    by (auto simp: stage2_init_def Let_def elim!: bind_SomeE)
  from u obtain x where x: "lnDelay io fires 30 (s2_timer ?h, s2_mach ?h) = Some x"
    and c: "plat (cls u) = snd x"
    by (auto simp: usb_init_def stage2_delay_def Let_def init_endpoints_cls s2_mach_def
      elim!: bind_SomeE)
  from delay_chip [OF D Q x] c hw_init_chip [OF D, of g s] show ?thesis
    by (simp add: s' s2_mach_def)
qed

section \<open>Turns of the loop as turns of the driver\<close>

lemma world_blink_drift:
  assumes D: "fmc_device io view over f" and Q: "irq_quiet view fires"
  shows "\<exists>p. plat_drift view (cls (s2_usb s)) p \<and>
    s2_usb (blink io (world_step io fires n ev s)) = deliver ev ((s2_usb s)\<lparr>cls := p\<rparr>)"
proof -
  obtain t m where tm: "ticks io fires n (s2_timer s, s2_mach s) = (t, m)" by force
  let ?w = "world_step io fires n ev s"
  have m: "chip_of view m = chip_of view (plat (cls (s2_usb s)))"
    using ticks_chip [OF D Q, of n "(s2_timer s, s2_mach s)"] tm by (simp add: s2_mach_def)
  have w: "s2_usb ?w = deliver ev ((s2_usb s)\<lparr>cls := (cls (s2_usb s))\<lparr>plat := m\<rparr>\<rparr>)"
    by (simp add: world_step_def Let_def tm s2_usb_set_mach)
  then have "s2_mach ?w = m" by (simp add: s2_mach_def deliver_set_cls)
  then have "\<exists>m'. s2_usb (blink io ?w) = (s2_usb ?w)\<lparr>cls := (cls (s2_usb ?w))\<lparr>plat := m'\<rparr>\<rparr> \<and>
      chip_of view m' = chip_of view m"
  proof (cases "getTickCount (s2_timer ?w) > s2_rdv ?w")
    case True
    with \<open>s2_mach ?w = m\<close> device_LED [OF D, of "\<not> s2_led ?w" m] show ?thesis
      by (intro exI [of _ "lnDigitalWrite io LED_PIN (\<not> s2_led ?w) m"])
        (simp add: blink_def stage2_toggle_led_def Let_def s2_usb_on_mach)
  next
    case False
    with \<open>s2_mach ?w = m\<close> show ?thesis
      by (intro exI [of _ m]) (simp add: blink_def s2_mach_def)
  qed
  then obtain m' where m': "s2_usb (blink io ?w) = (s2_usb ?w)\<lparr>cls := (cls (s2_usb ?w))\<lparr>plat := m'\<rparr>\<rparr>"
    "chip_of view m' = chip_of view m" by blast
  with m w show ?thesis
    by (intro exI [of _ "(cls (s2_usb s))\<lparr>plat := m'\<rparr>"])
      (auto simp: plat_drift_def deliver_set_cls)
qed

lemma main_step_Running:
  "main_step io s = Some (Running s') \<Longrightarrow> do_usb_poll (dfu_class (fmc_ops io)) (s2_usb (blink io s)) = Some (s2_usb s')"
  by (auto simp: main_step_def Let_def elim!: bind_SomeE split: if_split_asm)

lemma main_step_Reset:
  "main_step io s = Some (Reset s') \<Longrightarrow> \<exists>u. do_usb_poll (dfu_class (fmc_ops io)) (s2_usb (blink io s)) = Some u \<and>
     s2_mach s' = system_reset io (plat (cls u))"
  by (auto simp: main_step_def Let_def s2_mach_def s2_usb_on_mach elim!: bind_SomeE split: if_split_asm)

lemma running_turn:
  assumes D: "fmc_device io view over f" and Q: "irq_quiet view fires"
    and inv: "loop_inv io f s" and ev: "packet_sized ev" "\<not> asks_reset ev"
  shows "\<exists>s' p. main_step io (world_step io fires n ev s) = Some (Running s') \<and> loop_inv io f s' \<and>
    plat_drift view (cls (s2_usb s)) p \<and>
    host_step (dfu_class (fmc_ops io)) ev ((s2_usb s)\<lparr>cls := p\<rparr>) = Some (s2_usb s')"
proof -
  from turn [OF inv ev(1), of fires n] obtain out where
    out: "main_step io (world_step io fires n ev s) = Some out" "turn_result io f ev out" by blast
  with ev(2) obtain s' where s': "out = Running s'" "loop_inv io f s'"
    by (cases out) (auto simp: turn_result_def)
  obtain p where "plat_drift view (cls (s2_usb s)) p"
    "s2_usb (blink io (world_step io fires n ev s)) = deliver ev ((s2_usb s)\<lparr>cls := p\<rparr>)"
    using world_blink_drift [OF D Q] by blast
  with main_step_Running [OF out(1) [unfolded s'(1)]] out(1) s' show ?thesis
    by (auto simp: host_step_def)
qed

text \<open>As long as no reset is asked for, the loop is a run of the driver with drift.\<close>

lemma main_loop_turns:
  assumes D: "fmc_device io view over f" and Q: "irq_quiet view fires"
  shows "loop_inv io f s \<Longrightarrow> list_all packet_sized (map snd evs) \<Longrightarrow> \<not> list_ex asks_reset (map snd evs) \<Longrightarrow>
    \<exists>s'. main_loop io fires evs s = Some (Running s') \<and> loop_inv io f s' \<and>
      turns (plat_drift view) (dfu_class (fmc_ops io)) (map snd evs) (s2_usb s) (s2_usb s')"
proof (induction evs arbitrary: s)
  case (Cons e evs)
  obtain n ev where e: "e = (n, ev)" by force
  with Cons.prems running_turn [OF D Q Cons.prems(1), of ev n] obtain s1 p where
    s1: "main_step io (world_step io fires n ev s) = Some (Running s1)" "loop_inv io f s1"
      "plat_drift view (cls (s2_usb s)) p"
      "host_step (dfu_class (fmc_ops io)) ev ((s2_usb s)\<lparr>cls := p\<rparr>) = Some (s2_usb s1)"
    by auto
  with Cons.IH [of s1] Cons.prems e obtain s' where
    "main_loop io fires evs s1 = Some (Running s')" "loop_inv io f s'"
    "turns (plat_drift view) (dfu_class (fmc_ops io)) (map snd evs) (s2_usb s1) (s2_usb s')" by auto
  with s1 e show ?case by (auto intro: turns_step)
qed simp

lemma main_loop_append:
  "main_loop io fires evs s = Some (Running s') \<Longrightarrow>
   main_loop io fires (evs @ evs') s = main_loop io fires evs' s'"
proof (induction evs arbitrary: s)
  case (Cons e evs)
  then show ?case by (cases e) (auto split: option.split_asm outcome.split_asm)
qed simp

section \<open>The turn that resets the chip\<close>

text \<open>It leaves the flash as it is.\<close>

lemma reset_turn:
  assumes D: "fmc_device io view over f" and Q: "irq_quiet view fires"
    and inv: "loop_inv io f s" and ev: "asks_reset ev"
  shows "\<exists>s'. main_step io (world_step io fires n ev s) = Some (Reset s') \<and>
    chip_of view (s2_mach s') = chip_of view (s2_mach s)"
proof -
  from ev obtain r where r: "ev = Ev_setup r" by (auto simp: asks_reset_def)
  then have "packet_sized ev" by simp
  from turn [OF inv this, of fires n] obtain out where
    "main_step io (world_step io fires n ev s) = Some out" "turn_result io f ev out" by blast
  with ev obtain s' where s': "main_step io (world_step io fires n ev s) = Some (Reset s')"
    by (cases out) (auto simp: turn_result_def)
  obtain p where p: "plat_drift view (cls (s2_usb s)) p"
    "s2_usb (blink io (world_step io fires n ev s)) = deliver ev ((s2_usb s)\<lparr>cls := p\<rparr>)"
    using world_blink_drift [OF D Q] by blast
  with main_step_Reset [OF s'] obtain u where
    u: "host_step (dfu_class (fmc_ops io)) ev ((s2_usb s)\<lparr>cls := p\<rparr>) = Some u"
      "s2_mach s' = system_reset io (plat (cls u))"
    by (auto simp: host_step_def)
  from no_data_frame [OF u(1)] r u(2) plat_driftD(1) [OF p(1)] s' show ?thesis
    by (simp add: system_reset_def quiet_wr32 [OF D] quiet_addresses s2_mach_def)
qed

section \<open>A session through the loop\<close>

lemma block_no_reset:
  assumes "bs \<noteq> []" and "length bs \<le> DFU_TRANSFER_SIZE" shows "\<not> list_ex asks_reset (block_events N bs)"
  using block_word [OF assms(2)] assms(1)
  by (auto simp: block_events_def asks_reset_def dnload_req_def getstatus_req_def dfu_req_defs list_ex_iff)

lemma session_no_reset: "cmds_ok p cs \<Longrightarrow> \<not> list_ex asks_reset (session_events cs)"
proof (induction cs arbitrary: p)
  case (Cons c cs)
  have "\<not> list_ex asks_reset (cmd_events c)"
  proof (cases c)
    case (Chat evs)
    with Cons.prems show ?thesis by (auto simp: list_ex_iff list_all_iff dest: chatterD)
  qed (use Cons.prems in \<open>simp_all add: block_no_reset DFU_TRANSFER_SIZE_def\<close>)
  with Cons.IH [of "pointer_after c p"] Cons.prems show ?case by (simp add: list_ex_append)
qed simp

text \<open>The loop over a session does what its commands promise.\<close>

lemma session_loop:
  assumes D: "fmc_device io view over f" and Q: "irq_quiet view fires"
    and s: "loop_inv io f s" "chip_idle (chip_of view (s2_mach s))"
    and ok: "cmds_ok (dfu_address (cls (s2_usb s))) cs" and evs: "map snd evs = session_events cs"
  shows "\<exists>s'. main_loop io fires evs s = Some (Running s') \<and> loop_inv io f s' \<and>
    chip_idle (chip_of view (s2_mach s')) \<and>
    spec_run 0x40000 cs (programmer_of view (cls (s2_usb s))) (programmer_of view (cls (s2_usb s')))"
proof -
  have sized: "list_all packet_sized (map snd evs)" and quiet: "\<not> list_ex asks_reset (map snd evs)"
    unfolding evs by (rule session_events_sized [OF ok], rule session_no_reset [OF ok])
  obtain s' where s': "main_loop io fires evs s = Some (Running s')" "loop_inv io f s'"
    and run: "turns (plat_drift view) (dfu_class (fmc_ops io)) (session_events cs) (s2_usb s) (s2_usb s')"
    using main_loop_turns [OF D Q s(1) sized quiet] unfolding evs by blast
  have "usb_ok (dfu_ready io f) (s2_usb s)" "flash_end (cls (s2_usb s)) = 0x40000"
    using s(1) by (simp_all add: loop_inv_def dfu_inv_def)
  with session_turns [OF D run _ _ ok, of "0x40000"] s(2) s' show ?thesis by (simp add: s2_mach_def)
qed

section \<open>From the entry on\<close>

text \<open>When the loop is entered the address pointer is zero and the flash is as it was.\<close>

definition programmer_start :: "(nat \<Rightarrow> u8) \<Rightarrow> programmer" where
  "programmer_start A = \<lparr>pointer = 0, memory = A, reply = (DFU_STATUS_OK, STATE_DFU_IDLE)\<rparr>"

lemma programmer_start_simps [simp]: "pointer (programmer_start A) = 0" "memory (programmer_start A) = A"
  by (simp_all add: programmer_start_def)

lemma entry_runs:
  assumes D: "fmc_device io view over f" and F: "irq_fires fires f'" and Q: "irq_quiet view fires"
    and ctors: "\<And>m. \<exists>m'. ctors m = Some m' \<and> chip_of view m' = chip_of view m"
    and sec: "section_sizes (lk_sections l) (4 * n) (4 * k)"
  shows "\<exists>s. loop_inv io f s \<and> chip_of view (s2_mach s) = chip_of view m \<and>
    programmer_of view (cls (s2_usb s)) = programmer_start (cells (chip_of view m)) \<and>
    (\<forall>evs. stage2_cpp_entry io fires ctors l evs m = main_loop io fires evs s)"
proof -
  obtain m1 where ct: "ctors (loaded io (lk_sections l) (4 * n) (4 * k) m) = Some m1"
    and c1: "chip_of view m1 = chip_of view m"
    using ctors [of "loaded io (lk_sections l) (4 * n) (4 * k) m"] by (auto simp: loaded_def)
  let ?g = "lnInitSystemClock_limited \<lparr>SystemCoreClock = 0, rcuClockApb1 = 0, rcuClockApb2 = 0\<rparr>"
  obtain tab m2 where irq: "stage2_irq_init io (lk_vectors l) m1 = (tab, m2)" by force
  from stage2_init_runs [OF device_drains [OF D] F, of ?g l m2] obtain s where
    s: "stage2_init io fires ?g (stage2_reset_state l m2) = Some s" "loop_inv io f s"
      "cls (s2_usb s) = (dfu_init (s2_mach s))\<lparr>flash_end := 0x40000\<rparr>" by blast
  have "s2_mach (stage2_reset_state l m2) = m2"
    by (simp add: s2_mach_def stage2_reset_state_def usb_reset_state_def dfu_init_def)
  with stage2_init_chip [OF D Q s(1)] irq_init_chip [OF D irq] c1
  have "chip_of view (s2_mach s) = chip_of view m" by simp
  moreover from this have "programmer_of view (cls (s2_usb s)) = programmer_start (cells (chip_of view m))"
    by (simp add: programmer_of_def programmer_start_def s(3) dfu_init_def)
  moreover have "stage2_cpp_entry io fires ctors l evs m = main_loop io fires evs s" for evs
    using s(1) ct irq
    by (simp add: stage2_cpp_entry_def stage2_sections_loaded [OF sec] stage2_main_def Let_def)
  ultimately show ?thesis using s(2) by blast
qed

text \<open>The session, and then the request that resets the chip.\<close>

lemma session_then_reset:
  assumes D: "fmc_device io view over f" and Q: "irq_quiet view fires"
    and s: "loop_inv io f s" "chip_idle (chip_of view (s2_mach s))"
    and ok: "cmds_ok (dfu_address (cls (s2_usb s))) cs"
    and evs: "map snd evs = session_events cs @ [ev]" and ev: "asks_reset ev"
  shows "\<exists>s' t. main_loop io fires evs s = Some (Reset s') \<and>
    spec_run 0x40000 cs (programmer_of view (cls (s2_usb s))) t \<and> memory t = cells (chip_of view (s2_mach s'))"
proof -
  have "map snd evs = map snd (butlast evs) @ [snd (last evs)]" and ne: "evs \<noteq> []"
    using evs by (cases evs rule: rev_cases; simp)+
  with evs have b: "map snd (butlast evs) = session_events cs" "snd (last evs) = ev" by simp_all
  obtain s1 where s1: "main_loop io fires (butlast evs) s = Some (Running s1)" "loop_inv io f s1"
    "spec_run 0x40000 cs (programmer_of view (cls (s2_usb s))) (programmer_of view (cls (s2_usb s1)))"
    using session_loop [OF D Q s ok b(1)] by blast
  obtain s' where s': "main_step io (world_step io fires (fst (last evs)) ev s1) = Some (Reset s')"
    "chip_of view (s2_mach s') = chip_of view (s2_mach s1)"
    using reset_turn [OF D Q s1(2) ev] by blast
  have "main_loop io fires (butlast evs @ [last evs]) s = Some (Reset s')"
    using b(2) s'(1) by (simp add: main_loop_append [OF s1(1)]) (cases "last evs"; simp)
  then show ?thesis using s1(3) s'(2) ne
    by (intro exI [of _ s'] exI [of _ "programmer_of view (cls (s2_usb s1))"]) (simp add: s2_mach_def)
qed

end
