(* ===== verification/Session_Cut.thy ===== *)
theory Session_Cut
  imports Stage2_Session
begin

text \<open>
  Sessions that are cut off: the host is unplugged or the power fails after any packet. Each command
  has then been carried out as a whole or not at all, and flash that no command of the session
  aims at is as it was.
\<close>

section \<open>A block that is cut off\<close>

lemma prefix_list_all: "prefix xs ys \<Longrightarrow> list_all P ys \<Longrightarrow> list_all P xs"
  by (auto elim!: prefixE)

lemma block_end_chatter: "list_all chatter [Ev_in, Ev_setup getstatus_req, Ev_in, Ev_setup getstatus_req, Ev_in]"
  by (simp add: chatter_def asks_reset_def getstatus_req_def dfu_req_defs)

text \<open>Either nothing has reached the controller, or only status requests are missing.\<close>

lemma block_cut:
  fixes io :: "'h bus"
  assumes u: "usb_ok (dfu_ready io f) u" and bs: "bs \<noteq> []" "length bs \<le> DFU_TRANSFER_SIZE"
    and run: "turns (plat_drift view) (dfu_class (fmc_ops io)) evs u w"
    and cut: "prefix evs (block_events N bs)"
  shows "chip_of view (plat (cls w)) = chip_of view (plat (cls u)) \<or>
    (\<exists>rest. block_events N bs = evs @ rest \<and> list_all chatter rest)"
proof -
  let ?r = "dnload_req N (of_nat (length bs))"
  let ?out = "Ev_setup ?r # map Ev_out (packets bs)"
    and ?close = "[Ev_in, Ev_setup getstatus_req, Ev_in, Ev_setup getstatus_req, Ev_in]"
  have split: "block_events N bs = ?out @ ?close" by (simp add: block_events_def)
  consider (start) "evs = []" | (out) ps where "evs = Ev_setup ?r # map Ev_out ps" "prefix ps (packets bs)"
    | (ending) us where "evs = ?out @ us" "prefix us ?close"
    using cut unfolding split prefix_append
    by (cases evs) (auto dest!: prefix_map_rightE)
  then show ?thesis
  proof cases
    case start
    with run show ?thesis by simp
  next
    case ending
    then obtain rest where "?close = us @ rest" by (auto elim: prefixE)
    with block_end_chatter have "list_all chatter rest" by (metis list_all_append)
    with ending(1) \<open>?close = us @ rest\<close> show ?thesis unfolding split by simp
  next
    case out
    show ?thesis
    proof (cases "ps = packets bs")
      case True
      with out block_end_chatter show ?thesis unfolding split by blast
    next
      case False
      with out(2) have ps: "strict_prefix ps (packets bs)" by (simp add: strict_prefix_def)
      have n: "unat (wLength ?r) = length bs" using block_word [OF bs(2)] by (simp add: dnload_req_def)
      then have "wLength ?r \<noteq> 0" using bs(1) by auto
      then have req: "cls_request (dfu_class (fmc_ops io)) ?r (cls u) = ((None, 0), requested N (cls u))"
        by (simp add: dnload_req_def requested_def dfu_handle_request_simps)
      have "plat_drift view (requested N (cls u)) (cls w)"
        by (rule dfu_drift.turns_write_cut [OF u _ _ _ n bs req run [unfolded out(1)] ps])
          (simp_all add: dnload_req_def USB_DIR_IN_def)
      from plat_driftD(1) [OF this] show ?thesis by simp
    qed
  qed
qed

section \<open>A command that is cut off\<close>

lemma cmd_blocks:
  assumes "cmd_ok p c" and "\<And>evs. c \<noteq> Chat evs"
  shows "\<exists>N bs. cmd_events c = block_events N bs \<and> bs \<noteq> [] \<and> length bs \<le> DFU_TRANSFER_SIZE"
  using assms
proof (cases c)
  case (Program N bs)
  with assms(1) show ?thesis by auto
qed (auto simp: DFU_TRANSFER_SIZE_def intro!: exI [of _ 0] exI [of _ "_ # _"])

lemma cmd_cut:
  fixes io :: "'h bus"
  assumes D: "fmc_device io view over f"
    and u: "usb_ok (dfu_ready io f) u" "chip_idle (chip_of view (plat (cls u)))"
    and ok: "cmd_ok (dfu_address (cls u)) c" and lim: "unat (flash_end (cls u)) \<le> 2 ^ 27"
    and run: "turns (plat_drift view) (dfu_class (fmc_ops io)) evs u w" and cut: "prefix evs (cmd_events c)"
  shows "cells (chip_of view (plat (cls w))) = cells (chip_of view (plat (cls u))) \<or>
    (\<exists>t. spec_cmd (unat (flash_end (cls u))) c (programmer_of view (cls u)) t \<and>
      memory t = cells (chip_of view (plat (cls w))))"
proof (cases "\<exists>es. c = Chat es")
  case True
  with ok cut prefix_list_all [of evs "cmd_events c" chatter] have "list_all chatter evs" by auto
  with chatter_turns [OF run] show ?thesis by simp
next
  case False
  with cmd_blocks [OF ok] obtain N bs where
    b: "cmd_events c = block_events N bs" "bs \<noteq> []" "length bs \<le> DFU_TRANSFER_SIZE" by blast
  from block_cut [OF u(1) b(2,3) run cut [unfolded b(1)]] show ?thesis
  proof (elim disjE exE conjE)
    assume "chip_of view (plat (cls w)) = chip_of view (plat (cls u))"
    then show ?thesis by simp
  next
    fix rest assume rest: "block_events N bs = evs @ rest" "list_all chatter rest"
    with block_events_sized [of N bs] have "list_all packet_sized evs" "list_all packet_sized rest"
      by simp_all
    with dfu_drift.turns_ok [OF run u(1)] dfu_drift.turns_continue obtain v where
      v: "turns (plat_drift view) (dfu_class (fmc_ops io)) rest w v" by blast
    with run have "turns (plat_drift view) (dfu_class (fmc_ops io)) (cmd_events c) u v"
      unfolding b(1) rest(1) turns_append by blast
    from cmd_turns [OF D this u ok lim] chatter_turns [OF v rest(2)] show ?thesis
      by (intro disjI2 exI [of _ "programmer_of view (cls v)"]) (simp add: programmer_of_def)
  qed
qed

section \<open>A session that is cut off\<close>

lemma session_cut:
  fixes io :: "'h bus"
  assumes D: "fmc_device io view over f"
  shows "turns (plat_drift view) (dfu_class (fmc_ops io)) evs u w \<Longrightarrow> prefix evs (session_events cs) \<Longrightarrow>
    usb_ok (dfu_ready io f) u \<Longrightarrow> chip_idle (chip_of view (plat (cls u))) \<Longrightarrow>
    cmds_ok (dfu_address (cls u)) cs \<Longrightarrow> unat (flash_end (cls u)) = lim \<Longrightarrow> lim \<le> 2 ^ 27 \<Longrightarrow>
    \<exists>cs' t. prefix cs' cs \<and> spec_run lim cs' (programmer_of view (cls u)) t \<and>
      memory t = cells (chip_of view (plat (cls w)))"
proof (induction cs arbitrary: u evs)
  case Nil
  then show ?case by (auto simp: programmer_of_def)
next
  case (Cons c cs)
  from Cons.prems(5) have c: "cmd_ok (dfu_address (cls u)) c" by simp
  from Cons.prems(2) consider (within) "prefix evs (cmd_events c)"
    | (behind) es where "evs = cmd_events c @ es" "prefix es (session_events cs)"
    by (auto simp: prefix_append)
  then show ?case
  proof cases
    case within
    have lim: "unat (flash_end (cls u)) \<le> 2 ^ 27" using Cons.prems(6,7) by simp
    from cmd_cut [OF D Cons.prems(3,4) c lim Cons.prems(1) within] show ?thesis
    proof (elim disjE exE conjE)
      assume "cells (chip_of view (plat (cls w))) = cells (chip_of view (plat (cls u)))"
      then show ?thesis by (intro exI [of _ "[]"] exI [of _ "programmer_of view (cls u)"]) (simp add: programmer_of_def)
    next
      fix t assume "spec_cmd (unat (flash_end (cls u))) c (programmer_of view (cls u)) t"
        "memory t = cells (chip_of view (plat (cls w)))"
      with Cons.prems(6) show ?thesis
        by (intro exI [of _ "[c]"] exI [of _ t]) (simp add: spec_run_Cons)
    qed
  next
    case behind
    with Cons.prems(1) obtain v where v: "turns (plat_drift view) (dfu_class (fmc_ops io)) (cmd_events c) u v"
      and rest: "turns (plat_drift view) (dfu_class (fmc_ops io)) es v w"
      by (auto simp: turns_append)
    from dfu_drift.turns_ok [OF v Cons.prems(3) cmd_events_sized [OF c]] have ok: "usb_ok (dfu_ready io f) v" .
    have V: "chip_idle (chip_of view (plat (cls v)))"
      "spec_cmd lim c (programmer_of view (cls u)) (programmer_of view (cls v))"
      using cmd_turns [OF D v Cons.prems(3,4) c] Cons.prems(6,7) by simp_all
    have "\<exists>cs' t. prefix cs' cs \<and> spec_run lim cs' (programmer_of view (cls v)) t \<and>
        memory t = cells (chip_of view (plat (cls w)))"
      using Cons.prems(5-7) V spec_cmd_pointer [OF V(2)] turns_flash_end [OF v]
      by (intro Cons.IH [OF rest behind(2) ok]) simp_all
    then obtain cs' t where "prefix (c # cs') (c # cs)" "spec_run lim (c # cs') (programmer_of view (cls u)) t"
      "memory t = cells (chip_of view (plat (cls w)))"
      using V(2) by (auto intro: run_cmd)
    then show ?thesis by blast
  qed
qed

section \<open>Commands that keep to one side\<close>

text \<open>No command aims below \<open>lo\<close>.\<close>

fun cmd_from :: "nat \<Rightarrow> u32 \<Rightarrow> host_cmd \<Rightarrow> bool" where
  "cmd_from lo p (Erase a) \<longleftrightarrow> lo \<le> unat a - unat a mod 4096"
| "cmd_from lo p (Program N bs) \<longleftrightarrow> lo \<le> block_at p N"
| "cmd_from lo p _ \<longleftrightarrow> True"

fun cmds_from :: "nat \<Rightarrow> u32 \<Rightarrow> host_cmd list \<Rightarrow> bool" where
  "cmds_from lo p [] \<longleftrightarrow> True"
| "cmds_from lo p (c # cs) \<longleftrightarrow> cmd_from lo p c \<and> cmds_from lo (pointer_after c p) cs"

lemma cmds_from_prefix: "prefix cs' cs \<Longrightarrow> cmds_from lo p cs \<Longrightarrow> cmds_from lo p cs'"
proof (induction cs' arbitrary: cs p)
  case (Cons c cs')
  then show ?case by (cases cs) auto
qed simp

lemma spec_cmd_below:
  "spec_cmd lim c s s' \<Longrightarrow> cmd_from lo (pointer s) c \<Longrightarrow> i < lo \<Longrightarrow> memory s' i = memory s i"
  by (cases c) (auto simp: replied_def erase_effect_def Let_def erase_span_def put_def split: if_split_asm)

lemma spec_run_below:
  "spec_run lim cs s s' \<Longrightarrow> cmds_from lo (pointer s) cs \<Longrightarrow> i < lo \<Longrightarrow> memory s' i = memory s i"
  by (induction rule: spec_run.induct) (auto simp: spec_cmd_pointer spec_cmd_below)

lemma download_from:
  assumes "lo \<le> unat a" and "unat a mod 4096 = 0" and "unat a + 4096 * length bss \<le> 2 ^ 27"
  shows "cmds_from lo p (download_cmds er a bss @ [Point b])"
  using assms
proof (induction bss arbitrary: a p)
  case (Cons bs bss)
  have next_a: "unat (a + 4096) = unat a + 4096" "(unat a + 4096) mod 4096 = 0"
    using unat_plus_nat [of a 4096] Cons.prems(2,3) by simp_all
  have "cmds_from lo a (download_cmds er (a + 4096) bss @ [Point b])"
    using Cons.prems next_a by (intro Cons.IH) simp_all
  with Cons.prems show ?case by (cases er) (simp_all add: block_at_def)
qed simp

lemma image_session_from:
  assumes "unat a mod 4096 = 0" and "unat a + 4096 * ((length img + 4095) div 4096) \<le> 2 ^ 27"
  shows "cmds_from (unat a) p (image_session er a img)"
  unfolding image_session_def using assms by (intro download_from) (simp_all add: length_chunks)

section \<open>From the entry of stage 2\<close>

lemma entry_cut:
  assumes D: "fmc_device io view over f" and F: "irq_fires fires f'" and Q: "irq_quiet view fires"
    and ctors: "\<And>m. \<exists>m'. ctors m = Some m' \<and> chip_of view m' = chip_of view m"
    and sec: "section_sizes (lk_sections l) (4 * n) (4 * k)"
    and idle: "chip_idle (chip_of view m)" and ok: "cmds_ok 0 cs"
    and cut: "prefix (map snd evs) (session_events cs)"
  shows "\<exists>s' cs' t. stage2_cpp_entry io fires ctors l evs m = Some (Running s') \<and> prefix cs' cs \<and>
    spec_run 0x40000 cs' (programmer_start (cells (chip_of view m))) t \<and>
    memory t = cells (chip_of view (s2_mach s'))"
proof -
  obtain s where s: "loop_inv io f s" "chip_of view (s2_mach s) = chip_of view m"
    and start: "programmer_of view (cls (s2_usb s)) = programmer_start (cells (chip_of view m))"
    and entry: "stage2_cpp_entry io fires ctors l evs m = main_loop io fires evs s"
    using entry_runs [OF D F Q ctors sec, of m] by blast
  have sized: "list_all packet_sized (map snd evs)"
    by (rule prefix_list_all [OF cut session_events_sized [OF ok]])
  have "\<forall>ev \<in> set (map snd evs). \<not> asks_reset ev"
    using set_mono_prefix [OF cut] session_no_reset [OF ok] by (auto simp: list_ex_iff)
  then have quiet: "\<not> list_ex asks_reset (map snd evs)" by (simp add: list_ex_iff)
  obtain s' where s': "main_loop io fires evs s = Some (Running s')"
    and run: "turns (plat_drift view) (dfu_class (fmc_ops io)) (map snd evs) (s2_usb s) (s2_usb s')"
    using main_loop_turns [OF D Q s(1) sized quiet] by blast
  have inv: "usb_ok (dfu_ready io f) (s2_usb s)" "unat (flash_end (cls (s2_usb s))) = 0x40000"
    using s(1) by (simp_all add: loop_inv_def dfu_inv_def)
  have "dfu_address (cls (s2_usb s)) = 0" using arg_cong [OF start, of pointer] by simp
  with session_cut [OF D run cut inv(1) _ _ inv(2)] ok idle s(2) obtain cs' t where "prefix cs' cs"
    "spec_run 0x40000 cs' (programmer_of view (cls (s2_usb s))) t"
    "memory t = cells (chip_of view (s2_mach s'))"
    by (auto simp: s2_mach_def)
  with s' entry start show ?thesis by auto
qed

end
