(* ===== verification/Stage1.thy ===== *)
theory Stage1
  imports Startup Clock Gpio Memory_Config
begin

text \<open>
  The first stage (\<^verbatim>\<open>src_stage1/main.cpp\<close>, \<^verbatim>\<open>src_stage1/ch32_crc.c\<close>): the decision between the
  application and the DFU stage, and the hand-over. \<open>stage1_main\<close> returns the address it jumps to
  together with the machine at that moment. The embedded image of stage 2
  (\<^verbatim>\<open>stage2_payload.h\<close>, generated by the build) is the parameter \<open>payload\<close>. The loop of 1000
  \<open>nop\<close>s has no effect on the state.
\<close>

section \<open>The checksum unit\<close>

definition CH32_CRC32_ADDR :: u32 where "CH32_CRC32_ADDR = 0x40023000"
definition CRC_DATA :: u32 where "CRC_DATA = CH32_CRC32_ADDR + 0"
definition CRC_CONTROL :: u32 where "CRC_CONTROL = CH32_CRC32_ADDR + 8"
definition CH32_CRC32_CONTROL_RESET :: u32 where "CH32_CRC32_CONTROL_RESET = 1"
definition AHBPCENR :: u32 where "AHBPCENR = 0x40021014"

text \<open>The loop runs while the pointer is below its limit.\<close>

partial_function (option) crc_loop :: "'h bus \<Rightarrow> u32 \<Rightarrow> u32 \<Rightarrow> 'h mach \<Rightarrow> 'h mach option" where
  "crc_loop io p lim m =
     (if p < lim then crc_loop io (p + 4) lim (wr32 io CRC_DATA (ld32 io m p) m) else Some m)"

definition ch32_crc :: "'h bus \<Rightarrow> u32 \<Rightarrow> u32 \<Rightarrow> 'h mach \<Rightarrow> (u32 \<times> 'h mach) option" where
  "ch32_crc io addr len_in_u32 m = do {
     let m = or32 io AHBPCENR (push_bit 6 1) m;
     let m = wr32 io CRC_CONTROL CH32_CRC32_CONTROL_RESET m;
     let lim = addr + 4 * len_in_u32;
     m \<leftarrow> crc_loop io addr lim m;
     Some (rd32 io CRC_DATA m) }"

section \<open>The reboot marker\<close>

definition BOOT_TO_DFU_MARKER :: u64 where "BOOT_TO_DFU_MARKER = 0xDEADBEEFCC00FFEE"

definition ld64 :: "'h bus \<Rightarrow> 'h mach \<Rightarrow> u32 \<Rightarrow> u64" where
  "ld64 io m a = ucast (ld32 io m a) OR push_bit 32 (ucast (ld32 io m (a + 4)))"

definition st64 :: "u32 \<Rightarrow> u64 \<Rightarrow> 'h mach \<Rightarrow> 'h mach" where
  "st64 a w m = st32 (a + 4) (ucast (drop_bit 32 w)) (st32 a (ucast w) m)"

definition reboot_into_bootloader :: "'h mach \<Rightarrow> 'h mach" where
  "reboot_into_bootloader = st64 RAM_START_ADDR BOOT_TO_DFU_MARKER"

definition clear_reboot_flags :: "'h mach \<Rightarrow> 'h mach" where
  "clear_reboot_flags = st64 RAM_START_ADDR 0"

definition rebooted_into_dfu :: "'h bus \<Rightarrow> 'h mach \<Rightarrow> bool" where
  "rebooted_into_dfu io m \<longleftrightarrow> ld64 io m RAM_START_ADDR = BOOT_TO_DFU_MARKER"

section \<open>Helpers of main\<close>

text \<open>The static variable of \<open>toggle_led\<close> is passed along.\<close>

definition toggle_led :: "'h bus \<Rightarrow> bool \<times> 'h mach \<Rightarrow> bool \<times> 'h mach" where
  "toggle_led io s = (let state = \<not> fst s in (state, lnDigitalWrite io LED_PIN state (snd s)))"

definition RCC_CTLR :: u32 where "RCC_CTLR = 0x40021000"
definition RCC_CFGR0 :: u32 where "RCC_CFGR0 = 0x40021004"
definition RCC_INTR :: u32 where "RCC_INTR = 0x40021008"

definition revert_clock_to_hsi :: "'h bus \<Rightarrow> 'h mach \<Rightarrow> 'h mach option" where
  "revert_clock_to_hsi io m = do {
     let m = or32 io RCC_CTLR 0x00000001 m;
     m \<leftarrow> wait_until io RCC_CTLR (\<lambda>v. v AND 0x00000002 \<noteq> 0) m;
     let m = wr32 io RCC_CFGR0 0x00000000 m;
     m \<leftarrow> wait_until io RCC_CFGR0 (\<lambda>v. v AND 0x0000000C = 0x00000000) m;
     let m = and32 io RCC_CTLR 0xFEF6FFFF m;
     let m = and32 io RCC_CTLR 0xFFFBFFFF m;
     Some (wr32 io RCC_INTR 0x009F0000 m) }"

text \<open>\<open>memcpy\<close> into RAM.\<close>

primrec memcpy_ram :: "u32 \<Rightarrow> u8 list \<Rightarrow> 'h mach \<Rightarrow> 'h mach" where
  "memcpy_ram a [] m = m"
| "memcpy_ram a (b # bs) m = memcpy_ram (a + 1) bs (st8 a b m)"

definition STAGE2_RAM_ADDR :: u32 where "STAGE2_RAM_ADDR = 0x20004000"

text \<open>\<open>chain_to\<close>: control goes to the address, with the stack pointer at the end of RAM.\<close>

record entry =
  entry_pc :: u32
  entry_sp :: u32

definition chain_to :: "u32 \<Rightarrow> entry" where
  "chain_to addr = \<lparr>entry_pc = addr, entry_sp = 0x20010000\<rparr>"

section \<open>The decision\<close>

text \<open>The checks set bits of \<open>go_dfu\<close>: 1 the marker, 2 the pin, 8 the checksum, 16 the size.\<close>

definition check_requests :: "'h bus \<Rightarrow> u32 \<Rightarrow> 'h mach \<Rightarrow> u32 \<times> 'h mach" where
  "check_requests io go_dfu m =
     (let go_dfu = (if rebooted_into_dfu io m then go_dfu OR 1 else go_dfu);
          (pin, m) = lnDigitalRead io DFU_PIN m
      in (if \<not> pin then go_dfu OR 2 else go_dfu, m))"

definition check_image :: "'h bus \<Rightarrow> u32 \<Rightarrow> 'h mach \<Rightarrow> (u32 \<times> 'h mach) option" where
  "check_image io go_dfu m =
     (let app_start = APP_ADDRESS;
          imageSize = ld32 io m (app_start + 4);
          checksum = ld32 io m (app_start + 8)
      in if go_dfu = 0 \<and> imageSize > 0 \<and> imageSize < 256 * 1024 then
           if imageSize \<noteq> 0x1234 \<or> checksum \<noteq> 0x5678 then do {
             (computed, m) \<leftarrow> ch32_crc io (app_start + 12) (drop_bit 2 imageSize) m;
             Some (if computed \<noteq> checksum then go_dfu OR 8 else go_dfu, m) }
           else Some (go_dfu, m)
         else if go_dfu = 0 then Some (go_dfu OR 16, m)
         else Some (go_dfu, m))"

definition stage1_main ::
  "'h bus \<Rightarrow> u8 list \<Rightarrow> clocks \<Rightarrow> 'h mach \<Rightarrow> (entry \<times> 'h mach) option" where
  "stage1_main io payload g m = do {
     (g, m) \<leftarrow> lnInitSystemClock io g m;
     let m = enable_periph io pGPIOA m;
     let m = enable_periph io pGPIOB m;
     let m = enable_periph io pGPIOC m;
     let m = lnPinMode io LED_PIN lnOUTPUT m;
     let m = lnDigitalWrite io LED_PIN False m;
     let m = lnPinMode io DFU_PIN lnINPUT_PULLUP m;
     let (led, m) = toggle_led io (False, m);
     let (go_dfu, m) = check_requests io 0 m;
     (go_dfu, m) \<leftarrow> check_image io go_dfu m;
     let m = clear_reboot_flags m;
     let (led, m) = toggle_led io (led, m);
     if go_dfu = 0 then do {
       m \<leftarrow> revert_clock_to_hsi io m;
       Some (chain_to APP_ADDRESS, m) }
     else
       let m = memcpy_ram STAGE2_RAM_ADDR payload m;
           (led, m) = toggle_led io (led, m)
       in Some (chain_to STAGE2_RAM_ADDR, m) }"

text \<open>From the reset vector on.\<close>

definition stage1_boot ::
  "'h bus \<Rightarrow> sections \<Rightarrow> u8 list \<Rightarrow> clocks \<Rightarrow> 'h mach \<Rightarrow> (entry \<times> 'h mach) option" where
  "stage1_boot io l payload g m = do {
     m \<leftarrow> start_c io l (handle_reset m);
     stage1_main io payload g m }"

end
