(* ===== verification/Bus_View.thy ===== *)
theory Bus_View
  imports Stage1
begin

text \<open>
  What the routines of stage 1 leave alone, for any view of the machine that the registers they write
  are quiet for (\<open>bus_view\<close> of the prelude): clock set-up, pins, the checksum unit, the checks.
\<close>

section \<open>Waiting and streaming\<close>

context bus_view
begin

lemma wait_until_view: "wait_until io a test m = Some m' \<Longrightarrow> V m' = V m"
proof (rule wait_until.raw_induct [where
    P = "\<lambda>io' a test m m'. io' = io \<longrightarrow> V m' = V m", THEN mp])
  show "\<And>f io' a test m m'.
       (\<And>io' a test m m'. f io' a test m = Some m' \<Longrightarrow> io' = io \<longrightarrow> V m' = V m) \<Longrightarrow>
       (case rd32 io' a m of (v, m) \<Rightarrow> if test v then Some m else f io' a test m) = Some m' \<Longrightarrow>
       io' = io \<longrightarrow> V m' = V m"
    by (fastforce split: prod.split_asm if_split_asm dest: rd32_view)
qed simp_all

lemma crc_loop_view: "quiet CRC_DATA \<Longrightarrow> crc_loop io p lim m = Some m' \<Longrightarrow> V m' = V m"
proof (rule crc_loop.raw_induct [where
    P = "\<lambda>io' p lim m m'. io' = io \<longrightarrow> V m' = V m", THEN mp])
  show "\<And>g io' p lim m m'. quiet CRC_DATA \<Longrightarrow>
       (\<And>io' p lim m m'. g io' p lim m = Some m' \<Longrightarrow> io' = io \<longrightarrow> V m' = V m) \<Longrightarrow>
       (if p < lim then g io' (p + 4) lim (wr32 io' CRC_DATA (ld32 io' m p) m) else Some m) = Some m' \<Longrightarrow>
       io' = io \<longrightarrow> V m' = V m"
    by (fastforce split: if_split_asm simp: wr32_view)
qed simp_all

end

section \<open>Stage 1\<close>

text \<open>The registers stage 1 writes.\<close>

definition stage1_registers :: "u32 list" where
  "stage1_registers = [RCU_CTL, RCU_CFG0, RCU_CFG1, RCU_AHBEN, RCU_APB2EN, LN_FMC_ADR, AHBPCENR,
     CRC_CONTROL, CRC_DATA, RCC_CTLR, RCC_CFGR0, RCC_INTR, gpioPort 1 + GPIO_CFGLR,
     gpioPort 1 + GPIO_CFGHR, gpioPort 1 + GPIO_BSHR, gpioPort 1 + GPIO_BCR]"

locale stage1_view = bus_view +
  assumes stage1_quiet: "list_all quiet stage1_registers"
begin

lemma quiet_regs [simp]:
  "quiet RCU_CTL" "quiet RCU_CFG0" "quiet RCU_CFG1" "quiet RCU_AHBEN" "quiet RCU_APB2EN"
  "quiet LN_FMC_ADR" "quiet AHBPCENR" "quiet CRC_CONTROL" "quiet CRC_DATA" "quiet RCC_CTLR"
  "quiet RCC_CFGR0" "quiet RCC_INTR" "quiet (gpioPort 1 + GPIO_CFGLR)"
  "quiet (gpioPort 1 + GPIO_CFGHR)" "quiet (gpioPort 1 + GPIO_BSHR)" "quiet (gpioPort 1 + GPIO_BCR)"
  using stage1_quiet by (simp_all add: stage1_registers_def)

lemma clock_view: "lnInitSystemClock io g m = Some (g', m') \<Longrightarrow> V m' = V m"
  by (auto simp: lnInitSystemClock_def setPll_def waitControlBit_def Let_def access_view
    elim!: bind_SomeE split: prod.split_asm dest!: wait_until_view rd32_view)

lemma revert_view: "revert_clock_to_hsi io m = Some m' \<Longrightarrow> V m' = V m"
  by (auto simp: revert_clock_to_hsi_def Let_def access_view elim!: bind_SomeE dest!: wait_until_view)

lemma periph_view: "p \<in> {pGPIOA, pGPIOB, pGPIOC} \<Longrightarrow> V (enable_periph io p m) = V m"
  by (auto simp: enable_periph_def access_view)

lemma LED_view: "V (lnDigitalWrite io LED_PIN v m) = V m"
  by (simp add: lnDigitalWrite_def decode_pins access_view Let_def)

lemma pinMode_view: "pin = LED_PIN \<or> pin = DFU_PIN \<Longrightarrow> V (lnPinMode io pin mode m) = V m"
  by (auto simp: lnPinMode_def decode_pins access_view Let_def dest: rd32_view split: prod.split)

lemma requests_view: "check_requests io go m = (go', m') \<Longrightarrow> V m' = V m"
  by (auto simp: check_requests_def lnDigitalRead_def Let_def decode_pins dest: rd32_view split: prod.split_asm)

lemma image_view: "check_image io go m = Some (go', m') \<Longrightarrow> V m' = V m"
  by (auto simp: check_image_def ch32_crc_def Let_def access_view elim!: bind_SomeE
    split: if_split_asm prod.split_asm dest!: crc_loop_view [OF quiet_regs(9)] rd32_view)

end

interpretation stage1_frame: stage1_view io "\<lambda>m. (csr m, ram m)" "\<lambda>_. True" for io
  by unfold_locales (simp add: stage1_registers_def)

end
