(* ===== verification/Clock_Props.thy ===== *)
theory Clock_Props
  imports Clock Trace
begin

text \<open>
  What the clock set-up of \<^verbatim>\<open>esprit_mini/rcu.cpp\<close> leaves in the clock configuration register, and the
  order in which it gets there.
\<close>

section \<open>The configuration register\<close>

text \<open>
  \<open>clock_regs io cfg\<close>: the bits of \<open>RCU_CFG0\<close> that are not the read-only status bits (\<open>SWS\<close>, bits 2
  and 3) are a plain register, the content of which is \<open>cfg\<close>.
\<close>

definition SWS_BITS :: u32 where "SWS_BITS = 0xC"

definition clock_regs :: "'h bus \<Rightarrow> ('h \<Rightarrow> u32) \<Rightarrow> bool" where
  "clock_regs io cfg \<longleftrightarrow>
     (\<forall>a d. cfg (snd (bus_rd32 io a d)) = cfg d) \<and>
     (\<forall>d. fst (bus_rd32 io RCU_CFG0 d) AND NOT SWS_BITS = cfg d) \<and>
     (\<forall>a w d. cfg (bus_wr32 io a w d) = (if a = RCU_CFG0 then w AND NOT SWS_BITS else cfg d))"

lemma clock_regs_rd:
  assumes "clock_regs io cfg" "rd32 io a m = (v, m')"
  shows "cfg (dev m') = cfg (dev m)"
  using assms by (auto simp: clock_regs_def rd32_def split: prod.splits dest: spec [of _ a])
    (metis snd_conv)

lemma clock_regs_val:
  assumes "clock_regs io cfg" "rd32 io RCU_CFG0 m = (v, m')"
  shows "v AND NOT SWS_BITS = cfg (dev m)"
  using assms by (auto simp: clock_regs_def rd32_def split: prod.splits) (metis fst_conv)

lemma clock_regs_wr:
  assumes "clock_regs io cfg"
  shows "cfg (dev (wr32 io a v m)) = (if a = RCU_CFG0 then v AND NOT SWS_BITS else cfg (dev m))"
  using assms by (simp add: clock_regs_def wr32_def)

lemma clock_regs_or32:
  assumes "clock_regs io cfg" "a \<noteq> RCU_CFG0"
  shows "cfg (dev (or32 io a v m)) = cfg (dev m)"
  using assms by (auto simp: or32_def clock_regs_wr clock_regs_rd split: prod.split)

lemma clock_regs_and32:
  assumes "clock_regs io cfg" "a \<noteq> RCU_CFG0"
  shows "cfg (dev (and32 io a v m)) = cfg (dev m)"
  using assms by (auto simp: and32_def clock_regs_wr clock_regs_rd split: prod.split)

lemma clock_regs_wait:
  assumes "clock_regs io cfg"
  shows "wait_until io a test m = Some m' \<Longrightarrow> cfg (dev m') = cfg (dev m)"
proof (rule wait_until.raw_induct [where
    P = "\<lambda>io a test m m'. clock_regs io cfg \<longrightarrow> cfg (dev m') = cfg (dev m)", THEN mp])
  show "\<And>f io a test m m'.
       (\<And>io a test m m'. f io a test m = Some m' \<Longrightarrow>
          clock_regs io cfg \<longrightarrow> cfg (dev m') = cfg (dev m)) \<Longrightarrow>
       (case rd32 io a m of (v, m) \<Rightarrow> if test v then Some m else f io a test m) = Some m' \<Longrightarrow>
       clock_regs io cfg \<longrightarrow> cfg (dev m') = cfg (dev m)"
    by (fastforce split: prod.split_asm if_split_asm dest: clock_regs_rd)
qed (use assms in auto)

lemma CTL_not_CFG0 [simp]: "RCU_CTL \<noteq> RCU_CFG0" "RCU_CFG1 \<noteq> RCU_CFG0" "LN_FMC_ADR \<noteq> RCU_CFG0"
  by (simp_all add: rcu_addr_defs LN_FMC_ADR_def)

lemmas clock_regs_simps = clock_regs_wr clock_regs_or32 clock_regs_and32

section \<open>Fields that survive the status bits\<close>

lemma sw_field: "cfg_field 0 2 v = v AND LN_RCU_CFG0_SYSCLOCK_MASK"
  by (simp add: cfg_field_def LN_RCU_CFG0_SYSCLOCK_MASK_def mask_eq_exp_minus_1)

lemma cfg_field_status:
  "cfg_field 18 4 (v AND NOT SWS_BITS) = cfg_field 18 4 v"
  "cfg_field 16 2 (v AND NOT SWS_BITS) = cfg_field 16 2 v"
  "cfg_field 4 4 (v AND NOT SWS_BITS) = cfg_field 4 4 v"
  "cfg_field 8 6 (v AND NOT SWS_BITS) = cfg_field 8 6 v"
  "cfg_field 22 2 (v AND NOT SWS_BITS) = cfg_field 22 2 v"
  "cfg_field 0 2 (v AND NOT SWS_BITS) = cfg_field 0 2 v"
  by (simp_all add: cfg_field_def SWS_BITS_def and.assoc mask_eq_exp_minus_1)

lemma pll_fields:
  "cfg_field 18 4 (pll_cfg 18 True c) = push_bit 18 15"
  "cfg_field 16 2 (pll_cfg 18 True c) = push_bit 16 1"
  "cfg_field 0 2 (pll_cfg 18 True c) = cfg_field 0 2 c"
  by (simp_all add: cfg_field_def pll_cfg_def cfg0_defs Multipliers_def Let_def mask_eq_exp_minus_1
    bit.conj_disj_distrib2 and.assoc)

lemma bus_fields:
  "cfg_field 18 4 (bus_cfg c) = cfg_field 18 4 c"
  "cfg_field 16 2 (bus_cfg c) = cfg_field 16 2 c"
  "cfg_field 4 4 (bus_cfg c) = 0"
  "cfg_field 8 6 (bus_cfg c) = 0"
  "cfg_field 22 2 (bus_cfg c) = push_bit 22 2"
  "cfg_field 0 2 (bus_cfg c) = cfg_field 0 2 c"
  by (simp_all add: cfg_field_def bus_cfg_def cfg0_defs Let_def mask_eq_exp_minus_1
    bit.conj_disj_distrib2 and.assoc)

lemma switch_fields:
  "cfg_field 18 4 (pll_switch c) = cfg_field 18 4 c"
  "cfg_field 16 2 (pll_switch c) = cfg_field 16 2 c"
  "cfg_field 4 4 (pll_switch c) = cfg_field 4 4 c"
  "cfg_field 8 6 (pll_switch c) = cfg_field 8 6 c"
  "cfg_field 22 2 (pll_switch c) = cfg_field 22 2 c"
  "cfg_field 0 2 (pll_switch c) = 2"
  by (simp_all add: cfg_field_def pll_switch_def cfg0_defs mask_eq_exp_minus_1
    bit.conj_disj_distrib2 and.assoc)

lemma sw_cleared: "cfg_field 0 2 (v AND NOT LN_RCU_CFG0_SYSCLOCK_MASK) = 0"
  by (simp add: cfg_field_def LN_RCU_CFG0_SYSCLOCK_MASK_def and.assoc mask_eq_exp_minus_1)

lemmas field_simps_cfg = cfg_field_status pll_fields bus_fields switch_fields sw_cleared

text \<open>The waits for the system clock look at the field that was just written: the first read ends
  them.\<close>

lemma clock_wait_sw:
  assumes "clock_regs io cfg" "cfg_field 0 2 (cfg (dev m)) = k"
  shows "\<exists>m'. wait_until io RCU_CFG0 (\<lambda>v. v AND LN_RCU_CFG0_SYSCLOCK_MASK = k) m = Some m' \<and>
              rd32 io RCU_CFG0 m = (fst (rd32 io RCU_CFG0 m), m')"
proof -
  obtain v m' where rd: "rd32 io RCU_CFG0 m = (v, m')" by force
  have "cfg_field 0 2 v = k"
    using clock_regs_val [OF assms(1) rd] assms(2) cfg_field_status(6) by metis
  with rd show ?thesis by (subst wait_until.simps) (simp add: sw_field)
qed

section \<open>The clock set-up\<close>

lemma waitControlBit_cfg:
  "clock_regs io cfg \<Longrightarrow> waitControlBit io b m = Some m' \<Longrightarrow> cfg (dev m') = cfg (dev m)"
  unfolding waitControlBit_def by (rule clock_regs_wait)

text \<open>The source and the factor of the PLL, and the bus clocks.\<close>

definition pll_config :: "u32 \<Rightarrow> bool" where
  "pll_config c \<longleftrightarrow> cfg_field 18 4 c = push_bit 18 15 \<and> cfg_field 16 2 c = push_bit 16 1"

definition bus_config :: "u32 \<Rightarrow> bool" where
  "bus_config c \<longleftrightarrow> cfg_field 4 4 c = 0 \<and> cfg_field 8 6 c = 0 \<and> cfg_field 22 2 c = push_bit 22 2"

lemma setPll_cfg:
  assumes regs: "clock_regs io cfg" and run: "setPll io 18 True m = Some m'"
  shows "pll_config (cfg (dev m'))"
    and "cfg_field 0 2 (cfg (dev m')) = cfg_field 0 2 (cfg (dev m))"
proof -
  obtain c m1 where rd: "rd32 io RCU_CFG0 (wr32 io RCU_CFG1 0 m) = (c, m1)" by force
  have "cfg (dev m') = pll_cfg 18 True c AND NOT SWS_BITS"
    using run rd by (auto simp: setPll_def Let_def clock_regs_simps [OF regs]
      dest!: waitControlBit_cfg [OF regs])
  moreover have "c AND NOT SWS_BITS = cfg (dev m)"
    using clock_regs_val [OF regs rd] by (simp add: clock_regs_simps [OF regs])
  ultimately show "pll_config (cfg (dev m'))"
    "cfg_field 0 2 (cfg (dev m')) = cfg_field 0 2 (cfg (dev m))"
    by (metis pll_config_def field_simps_cfg(1,2) pll_fields(1,2),
        metis field_simps_cfg(6) pll_fields(3))
qed

lemma pll_bus_switch:
  assumes "pll_config (c AND NOT SWS_BITS)"
  shows "pll_config (bus_cfg c AND NOT SWS_BITS)" "bus_config (bus_cfg c)"
    "pll_config (pll_switch (bus_cfg c) AND NOT SWS_BITS)"
    "bus_config (pll_switch (bus_cfg c) AND NOT SWS_BITS)"
    "cfg_field 0 2 (pll_switch (bus_cfg c) AND NOT SWS_BITS) = 2"
  using assms by (simp_all add: pll_config_def bus_config_def field_simps_cfg)

lemma lnInitSystemClock_cfg:
  assumes regs: "clock_regs io cfg" and run: "lnInitSystemClock io g m = Some (g', m')"
  shows "pll_config (cfg (dev m'))" "bus_config (cfg (dev m'))" "cfg_field 0 2 (cfg (dev m')) = 2"
proof -
  from run obtain m3 m4 c m5 where
    pll: "setPll io 18 True m3 = Some m4" and rd: "rd32 io RCU_CFG0 m4 = (c, m5)" and
    wait: "wait_until io RCU_CFG0
        (\<lambda>v. v AND LN_RCU_CFG0_SYSCLOCK_MASK = LN_RCU_CFG0_SYSCLOCK_PLL)
        (wr32 io RCU_CFG0 (pll_switch (bus_cfg c))
          (wr32 io LN_FMC_ADR LN_FMC_WS_LATENCY_2 (wr32 io RCU_CFG0 (bus_cfg c) m5))) = Some m'"
    by (auto simp: lnInitSystemClock_def Let_def elim!: bind_SomeE split: prod.split_asm)
  have "pll_config (c AND NOT SWS_BITS)"
    using setPll_cfg(1) [OF regs pll] clock_regs_val [OF regs rd] by simp
  note final = pll_bus_switch [OF this]
  have "cfg (dev m') = pll_switch (bus_cfg c) AND NOT SWS_BITS"
    using clock_regs_wait [OF regs wait] by (simp add: clock_regs_simps [OF regs])
  with final show "pll_config (cfg (dev m'))" "bus_config (cfg (dev m'))"
    "cfg_field 0 2 (cfg (dev m')) = 2" by simp_all
qed

lemma setPll_returns:
  assumes "becomes_ready io RCU_CTL (\<lambda>v. flag_set v LN_RCU_CTL_PLLSTB) f"
  shows "\<exists>m'. setPll io k e m = Some m'"
  using wait_until_returns [OF assms]
  by (auto simp: setPll_def Let_def waitControlBit_def split: prod.split)

lemma lnInitSystemClock_returns:
  assumes regs: "clock_regs io cfg"
    and irc: "becomes_ready io RCU_CTL (\<lambda>v. flag_set v LN_RCU_CTL_IRC8MSTB) f"
    and hx: "becomes_ready io RCU_CTL (\<lambda>v. flag_set v LN_RCU_CTL_HXTASTB) f'"
    and pll: "becomes_ready io RCU_CTL (\<lambda>v. flag_set v LN_RCU_CTL_PLLSTB) f''"
  shows "\<exists>g' m'. lnInitSystemClock io g m = Some (g', m')"
proof -
  obtain m1 where 1: "waitControlBit io LN_RCU_CTL_IRC8MSTB (or32 io RCU_CTL LN_RCU_CTL_IRC8MEN m)
      = Some m1" using wait_until_returns [OF irc] unfolding waitControlBit_def by blast
  obtain s m2 where 2: "rd32 io RCU_CFG0 m1 = (s, m2)" by force
  have "cfg_field 0 2 (cfg (dev (wr32 io RCU_CFG0 (s AND NOT LN_RCU_CFG0_SYSCLOCK_MASK) m2))) =
      LN_RCU_CFG0_SYSCLOCK_IRC8"
    by (simp add: clock_regs_simps [OF regs] field_simps_cfg LN_RCU_CFG0_SYSCLOCK_IRC8_def)
  from clock_wait_sw [OF regs this] obtain m3 where 3: "wait_until io RCU_CFG0
      (\<lambda>v. v AND LN_RCU_CFG0_SYSCLOCK_MASK = LN_RCU_CFG0_SYSCLOCK_IRC8)
      (wr32 io RCU_CFG0 (s AND NOT LN_RCU_CFG0_SYSCLOCK_MASK) m2) = Some m3" by blast
  obtain m4 where 4: "waitControlBit io LN_RCU_CTL_HXTASTB (or32 io RCU_CTL LN_RCU_CTL_HXTALEN
      (and32 io RCU_CTL (NOT LN_RCU_CTL_PLLEN) (and32 io RCU_CTL (NOT LN_RCU_CTL_HXTALEN) m3)))
      = Some m4" using wait_until_returns [OF hx] unfolding waitControlBit_def by blast
  obtain m5 where 5: "setPll io 18 True m4 = Some m5" using setPll_returns [OF pll] by blast
  obtain c m6 where 6: "rd32 io RCU_CFG0 m5 = (c, m6)" by force
  have "cfg_field 0 2 (cfg (dev (wr32 io RCU_CFG0 (pll_switch (bus_cfg c)) (wr32 io LN_FMC_ADR
      LN_FMC_WS_LATENCY_2 (wr32 io RCU_CFG0 (bus_cfg c) m6))))) = LN_RCU_CFG0_SYSCLOCK_PLL"
    by (simp add: clock_regs_simps [OF regs] field_simps_cfg LN_RCU_CFG0_SYSCLOCK_PLL_def)
  from clock_wait_sw [OF regs this] show ?thesis
    by (auto simp: lnInitSystemClock_def Let_def 1 2 3 4 5 6)
qed

section \<open>The order of the writes\<close>

lemma clock_regs_traced: "clock_regs io cfg \<Longrightarrow> clock_regs (traced io) (cfg \<circ> fst)"
  by (auto simp: clock_regs_def traced_def split: prod.split)
    (metis snd_conv, metis fst_conv)

lemma trace_wait_until:
  "wait_until (traced io) a test m = Some m' \<Longrightarrow> trace m' = trace m"
proof (rule wait_until.raw_induct [where
    P = "\<lambda>io' a test m m'. io' = traced io \<longrightarrow> trace m' = trace m", THEN mp])
  show "\<And>f io' a test m m'.
       (\<And>io' a test m m'. f io' a test m = Some m' \<Longrightarrow> io' = traced io \<longrightarrow> trace m' = trace m) \<Longrightarrow>
       (case rd32 io' a m of (v, m) \<Rightarrow> if test v then Some m else f io' a test m) = Some m' \<Longrightarrow>
       io' = traced io \<longrightarrow> trace m' = trace m"
    by (fastforce split: prod.split_asm if_split_asm dest: trace_rd32)
qed auto

lemma trace_waitControlBit: "waitControlBit (traced io) b m = Some m' \<Longrightarrow> trace m' = trace m"
  unfolding waitControlBit_def by (rule trace_wait_until)

definition sw_off :: "u32 \<times> u32 \<Rightarrow> bool" where
  "sw_off e \<longleftrightarrow> fst e = RCU_CFG0 \<longrightarrow> cfg_field 0 2 (snd e) = 0"

definition pll_off_order :: "u32 list" where
  "pll_off_order = [RCU_CTL, RCU_CFG0, RCU_CTL, RCU_CTL, RCU_CTL, RCU_CFG1, RCU_CFG0, RCU_CTL, RCU_CFG0]"

lemma sw_off_simps [simp]:
  "sw_off (RCU_CTL, v)" "sw_off (RCU_CFG1, v)" "sw_off (RCU_CFG0, v) \<longleftrightarrow> cfg_field 0 2 v = 0"
  by (simp_all add: sw_off_def)

lemma trace_setPll:
  assumes regs: "clock_regs (traced io) cfg" and run: "setPll (traced io) 18 True m = Some m'"
    and sw: "cfg_field 0 2 (cfg (dev m)) = 0"
  shows "\<exists>es. trace m' = trace m @ es \<and> map fst es = [RCU_CFG1, RCU_CFG0, RCU_CTL] \<and>
              list_all sw_off es"
proof -
  obtain c m1 where rd: "rd32 (traced io) RCU_CFG0 (wr32 (traced io) RCU_CFG1 0 m) = (c, m1)" by force
  have "c AND NOT SWS_BITS = cfg (dev m)"
    using clock_regs_val [OF regs rd] by (simp add: clock_regs_simps [OF regs])
  then have sw': "cfg_field 0 2 (pll_cfg 18 True c) = 0"
    using sw by (metis field_simps_cfg(6) pll_fields(3))
  obtain w where w: "trace (or32 (traced io) RCU_CTL LN_RCU_CTL_PLLEN
      (wr32 (traced io) RCU_CFG0 (pll_cfg 18 True c) m1)) =
      trace (wr32 (traced io) RCU_CFG0 (pll_cfg 18 True c) m1) @ [(RCU_CTL, w OR LN_RCU_CTL_PLLEN)]"
    by (rule trace_or32)
  have "trace m' = trace m @
      [(RCU_CFG1, 0), (RCU_CFG0, pll_cfg 18 True c), (RCU_CTL, w OR LN_RCU_CTL_PLLEN)]"
    using run w trace_rd32 [OF rd]
    by (auto simp: setPll_def Let_def rd dest!: trace_waitControlBit)
  with sw' show ?thesis by simp
qed

lemma lnInitSystemClock_order:
  assumes regs: "clock_regs (traced io) cfg"
    and run: "lnInitSystemClock (traced io) g m = Some (g', m')"
  shows "\<exists>es v. trace m' = trace m @ es @ [(LN_FMC_ADR, LN_FMC_WS_LATENCY_2), (RCU_CFG0, v)] \<and>
     map fst es = pll_off_order \<and> list_all sw_off es \<and> cfg_field 0 2 v = 2"
proof -
  let ?io = "traced io"
  let ?c1 = "or32 ?io RCU_CTL LN_RCU_CTL_IRC8MEN m"
  from run obtain m1 s m2 m3 m4 m5 c m6 where
    1: "waitControlBit ?io LN_RCU_CTL_IRC8MSTB ?c1 = Some m1" and
    2: "rd32 ?io RCU_CFG0 m1 = (s, m2)" and
    3: "wait_until ?io RCU_CFG0 (\<lambda>v. v AND LN_RCU_CFG0_SYSCLOCK_MASK = LN_RCU_CFG0_SYSCLOCK_IRC8)
         (wr32 ?io RCU_CFG0 (s AND NOT LN_RCU_CFG0_SYSCLOCK_MASK) m2) = Some m3" and
    4: "waitControlBit ?io LN_RCU_CTL_HXTASTB (or32 ?io RCU_CTL LN_RCU_CTL_HXTALEN
         (and32 ?io RCU_CTL (NOT LN_RCU_CTL_PLLEN) (and32 ?io RCU_CTL (NOT LN_RCU_CTL_HXTALEN) m3)))
         = Some m4" and
    5: "setPll ?io 18 True m4 = Some m5" and
    6: "rd32 ?io RCU_CFG0 m5 = (c, m6)" and
    7: "wait_until ?io RCU_CFG0 (\<lambda>v. v AND LN_RCU_CFG0_SYSCLOCK_MASK = LN_RCU_CFG0_SYSCLOCK_PLL)
         (wr32 ?io RCU_CFG0 (pll_switch (bus_cfg c))
           (wr32 ?io LN_FMC_ADR LN_FMC_WS_LATENCY_2 (wr32 ?io RCU_CFG0 (bus_cfg c) m6))) = Some m'"
    by (auto simp: lnInitSystemClock_def Let_def elim!: bind_SomeE split: prod.split_asm)
  obtain a where a: "trace ?c1 = trace m @ [(RCU_CTL, a OR LN_RCU_CTL_IRC8MEN)]"
    by (rule trace_or32)
  obtain b where b: "trace (and32 ?io RCU_CTL (NOT LN_RCU_CTL_HXTALEN) m3) =
      trace m3 @ [(RCU_CTL, b AND NOT LN_RCU_CTL_HXTALEN)]" by (rule trace_and32)
  let ?m3' = "and32 ?io RCU_CTL (NOT LN_RCU_CTL_HXTALEN) m3"
  obtain d where d: "trace (and32 ?io RCU_CTL (NOT LN_RCU_CTL_PLLEN) ?m3') =
      trace ?m3' @ [(RCU_CTL, d AND NOT LN_RCU_CTL_PLLEN)]" by (rule trace_and32)
  let ?m3'' = "and32 ?io RCU_CTL (NOT LN_RCU_CTL_PLLEN) ?m3'"
  obtain e where e: "trace (or32 ?io RCU_CTL LN_RCU_CTL_HXTALEN ?m3'') =
      trace ?m3'' @ [(RCU_CTL, e OR LN_RCU_CTL_HXTALEN)]" by (rule trace_or32)
  have "cfg_field 0 2 (cfg (dev m3)) = 0"
    using clock_regs_wait [OF regs 3] by (simp add: clock_regs_simps [OF regs] field_simps_cfg)
  then have sw4: "cfg_field 0 2 (cfg (dev m4)) = 0"
    using waitControlBit_cfg [OF regs 4] by (simp add: clock_regs_simps [OF regs])
  from trace_setPll [OF regs 5 sw4] obtain es where es: "trace m5 = trace m4 @ es"
      "map fst es = [RCU_CFG1, RCU_CFG0, RCU_CTL]" "list_all sw_off es" by (elim exE conjE)
  have "cfg_field 0 2 (cfg (dev m5)) = 0" using setPll_cfg(2) [OF regs 5] sw4 by simp
  then have swc: "cfg_field 0 2 (bus_cfg c) = 0"
    using clock_regs_val [OF regs 6] by (metis field_simps_cfg(6) bus_fields(6))
  have t4: "trace m4 = trace m3 @ [(RCU_CTL, b AND NOT LN_RCU_CTL_HXTALEN),
      (RCU_CTL, d AND NOT LN_RCU_CTL_PLLEN), (RCU_CTL, e OR LN_RCU_CTL_HXTALEN)]"
    unfolding trace_waitControlBit [OF 4] e d b by (simp only: append.simps append_assoc)
  have t3: "trace m3 = trace m @
      [(RCU_CTL, a OR LN_RCU_CTL_IRC8MEN), (RCU_CFG0, s AND NOT LN_RCU_CFG0_SYSCLOCK_MASK)]"
    unfolding trace_wait_until [OF 3] trace_wr32 trace_rd32 [OF 2] trace_waitControlBit [OF 1] a
    by (simp only: append.simps append_assoc)
  let ?es = "[(RCU_CTL, a OR LN_RCU_CTL_IRC8MEN),
      (RCU_CFG0, s AND NOT LN_RCU_CFG0_SYSCLOCK_MASK), (RCU_CTL, b AND NOT LN_RCU_CTL_HXTALEN),
      (RCU_CTL, d AND NOT LN_RCU_CTL_PLLEN), (RCU_CTL, e OR LN_RCU_CTL_HXTALEN)] @ es @
      [(RCU_CFG0, bus_cfg c)]"
  let ?v = "pll_switch (bus_cfg c)"
  have "trace m' = trace m6 @ [(RCU_CFG0, bus_cfg c), (LN_FMC_ADR, LN_FMC_WS_LATENCY_2),
      (RCU_CFG0, ?v)]" using trace_wait_until [OF 7] by (simp only: trace_wr32 append.simps append_assoc)
  then have "trace m' = trace m @ ?es @ [(LN_FMC_ADR, LN_FMC_WS_LATENCY_2), (RCU_CFG0, ?v)]"
    unfolding trace_rd32 [OF 6] es(1) t4 t3 by (simp only: append.simps append_assoc)
  moreover have "map fst ?es = pll_off_order" using es(2) by (simp add: pll_off_order_def)
  moreover have "list_all sw_off ?es" using es(3) swc by (simp add: field_simps_cfg)
  moreover have "cfg_field 0 2 ?v = 2" by (rule switch_fields)
  ultimately show ?thesis by blast
qed

section \<open>The set-up as a whole\<close>

text \<open>A controller that is always ready, with the configuration register as its state.\<close>

definition ready_bus :: "u32 bus" where
  "ready_bus = \<lparr>bus_rd32 = \<lambda>a c. (if a = RCU_CFG0 then c else NOT 0, c),
     bus_wr32 = \<lambda>a v c. (if a = RCU_CFG0 then v AND NOT SWS_BITS else c), bus_mem8 = \<lambda>c a. 0\<rparr>"

definition ready_mach :: "(u32 \<times> (u32 \<times> u32) list) mach" where
  "ready_mach = \<lparr>csr = \<lambda>_. 0, ram = \<lambda>_. 0, dev = (0, [])\<rparr>"

lemma ready_regs: "clock_regs ready_bus (\<lambda>c. c AND NOT SWS_BITS)"
  by (simp add: clock_regs_def ready_bus_def and.assoc)

lemma ready_bits:
  assumes "b \<noteq> 0" shows "becomes_ready (traced ready_bus) RCU_CTL (\<lambda>v. flag_set v b) (\<lambda>_. 0)"
  using assms by (auto simp: becomes_ready_def traced_def ready_bus_def)





end
