(* ===== verification/Stage1_Props.thy ===== *)
theory Stage1_Props
  imports Bus_View Clock_Props Flash
begin

text \<open>
  When stage 1 starts the application and when it hands over to stage 2. What the decision depends on
  outside the code is stated as hypotheses on the bus: the checksum unit computes some step function
  word by word, plain register accesses do not change the flash array, the DFU pin is stable, and the
  clock flags come up.
\<close>

section \<open>Hypotheses on the board\<close>

definition crc_unit :: "'h bus \<Rightarrow> ('h \<Rightarrow> u32) \<Rightarrow> (u32 \<Rightarrow> u32 \<Rightarrow> u32) \<Rightarrow> bool" where
  "crc_unit io C step \<longleftrightarrow>
     (\<forall>a d. C (snd (bus_rd32 io a d)) = C d) \<and>
     (\<forall>d. fst (bus_rd32 io CRC_DATA d) = C d) \<and>
     (\<forall>d. C (bus_wr32 io CRC_CONTROL CH32_CRC32_CONTROL_RESET d) = 0xFFFFFFFF) \<and>
     (\<forall>w d. C (bus_wr32 io CRC_DATA w d) = step (C d) w)"

text \<open>The peripheral registers, without the one that starts flash operations.\<close>

definition plain_reg :: "u32 \<Rightarrow> bool" where
  "plain_reg a \<longleftrightarrow> 0x40000000 \<le> a \<and> a \<noteq> FMC_CTL"

definition flash_quiet :: "'h bus \<Rightarrow> bool" where
  "flash_quiet io \<longleftrightarrow>
     (\<forall>a d. bus_mem8 io (snd (bus_rd32 io a d)) = bus_mem8 io d) \<and>
     (\<forall>a v d. plain_reg a \<longrightarrow> bus_mem8 io (bus_wr32 io a v d) = bus_mem8 io d)"

definition dfu_pin_level :: "'h bus \<Rightarrow> bool \<Rightarrow> bool" where
  "dfu_pin_level io v \<longleftrightarrow> (\<forall>d. bit (fst (bus_rd32 io (gpioPort 1 + GPIO_INDR) d)) 7 = v)"

section \<open>What register accesses leave alone\<close>

definition mem :: "'h bus \<Rightarrow> 'h mach \<Rightarrow> (u32 \<Rightarrow> u8) \<times> (u32 \<Rightarrow> u8)" where
  "mem io m = (ram m, bus_mem8 io (dev m))"

lemma ld8_mem: "ld8 io m a = (if in_ram a then fst (mem io m) a else snd (mem io m) a)"
  by (simp add: ld8_def mem_def flash8_def)

lemma ld32_mem: "mem io m' = mem io m \<Longrightarrow> ld32 io m' = ld32 io m"
  by (simp add: fun_eq_iff ld32_def ld8_mem)

lemma ld64_mem: "mem io m' = mem io m \<Longrightarrow> ld64 io m' = ld64 io m"
  by (drule ld32_mem) (simp add: fun_eq_iff ld64_def)

lemma plain_regs: "list_all plain_reg stage1_registers"
  by (simp add: stage1_registers_def plain_reg_def rcu_addr_defs FMC_CTL_def FMC_BASE_def LN_FMC_ADR_def
    AHBPCENR_def CRC_CONTROL_def CRC_DATA_def CH32_CRC32_ADDR_def RCC_CTLR_def RCC_CFGR0_def RCC_INTR_def
    gpioPort_def LN_GPIOA_ADR_def GPIO_CFGLR_def GPIO_CFGHR_def GPIO_BSHR_def GPIO_BCR_def)

lemma mem_view: "flash_quiet io \<Longrightarrow> stage1_view io (mem io) plain_reg"
  by unfold_locales (auto simp: flash_quiet_def mem_def wr32_def plain_regs dest!: rd32_dev)

lemma mem_rd32: "flash_quiet io \<Longrightarrow> rd32 io a m = (v, m') \<Longrightarrow> mem io m' = mem io m"
  using bus_view.rd32_view [OF stage1_view.axioms(1) [OF mem_view]] .

lemmas mem_access = bus_view.access_view [OF stage1_view.axioms(1) [OF mem_view]]
  stage1_view.quiet_regs [OF mem_view]
lemmas mem_simps = mem_access stage1_view.periph_view [OF mem_view] stage1_view.LED_view [OF mem_view]
  stage1_view.pinMode_view [OF mem_view]

section \<open>The checksum\<close>

text \<open>The checksum of \<open>n\<close> words from \<open>a\<close> on, as memory is in \<open>m\<close>.\<close>

definition words_at :: "'h bus \<Rightarrow> 'h mach \<Rightarrow> u32 \<Rightarrow> nat \<Rightarrow> u32 list" where
  "words_at io m a n = map (\<lambda>i. ld32 io m (a + of_nat (4 * i))) [0 ..< n]"

definition checksum_of :: "(u32 \<Rightarrow> u32 \<Rightarrow> u32) \<Rightarrow> u32 list \<Rightarrow> u32" where
  "checksum_of step = foldl step 0xFFFFFFFF"

lemma words_at_mem: "mem io m' = mem io m \<Longrightarrow> words_at io m' = words_at io m"
  by (drule ld32_mem) (simp add: words_at_def fun_eq_iff)

lemma words_at_Suc: "words_at io m a (Suc n) = ld32 io m a # words_at io m (a + 4) n"
proof -
  have "[0 ..< Suc n] = 0 # map Suc [0 ..< n]" by (simp add: map_Suc_upt upt_conv_Cons del: upt_Suc)
  then show ?thesis by (simp add: words_at_def algebra_simps del: upt_Suc)
qed

lemma crc_loop_spec:
  assumes q: "flash_quiet io" and crc: "crc_unit io C step"
  shows "unat p + 4 * n < 2 ^ 32 \<Longrightarrow>
    \<exists>m'. crc_loop io p (p + of_nat (4 * n)) m = Some m' \<and> mem io m' = mem io m \<and> csr m' = csr m \<and>
      C (dev m') = foldl step (C (dev m)) (words_at io m p n)"
proof (induction n arbitrary: p m)
  case 0
  show ?case by (subst crc_loop.simps) (simp add: words_at_def)
next
  case (Suc n)
  have "unat (p + of_nat (4 * Suc n)) = unat p + 4 * Suc n"
    using Suc.prems by (intro unat_plus_nat) simp
  then have less: "p < p + of_nat (4 * Suc n)" by (simp add: word_less_nat_alt del: mult_Suc_right)
  have "unat (p + 4) = unat p + 4" using Suc.prems unat_plus4 [of p] by simp
  with Suc.prems have le: "unat (p + 4) + 4 * n < 2 ^ 32" by simp
  let ?m = "wr32 io CRC_DATA (ld32 io m p) m"
  have mem: "mem io ?m = mem io m" by (simp add: mem_access [OF q])
  have C: "C (dev ?m) = step (C (dev m)) (ld32 io m p)"
    using crc by (simp add: crc_unit_def wr32_def)
  from Suc.IH [OF le, of ?m] obtain m' where
    m': "crc_loop io (p + 4) (p + 4 + of_nat (4 * n)) ?m = Some m'" "mem io m' = mem io m"
      "csr m' = csr m" "C (dev m') = foldl step (C (dev m)) (words_at io m p (Suc n))"
    by (auto simp: mem C words_at_mem [OF mem] words_at_Suc)
  moreover have "p + 4 + of_nat (4 * n) = p + of_nat (4 * Suc n)" by (simp add: algebra_simps)
  ultimately show ?case using less
    by (subst crc_loop.simps) (simp only: if_True, blast)
qed

lemma ch32_crc_spec:
  assumes q: "flash_quiet io" and crc: "crc_unit io C step" and n: "unat a + 4 * unat n < 2 ^ 32"
  shows "\<exists>m'. ch32_crc io a n m = Some (checksum_of step (words_at io m a (unat n)), m') \<and>
    mem io m' = mem io m \<and> csr m' = csr m"
proof -
  let ?m = "wr32 io CRC_CONTROL CH32_CRC32_CONTROL_RESET (or32 io AHBPCENR (push_bit 6 1) m)"
  have mem: "mem io ?m = mem io m" by (simp add: mem_access [OF q])
  have C: "C (dev ?m) = 0xFFFFFFFF" using crc by (simp add: crc_unit_def wr32_def)
  have lim: "a + of_nat (4 * unat n) = a + 4 * n" by simp
  from crc_loop_spec [OF q crc n, of ?m, unfolded lim C mem words_at_mem [OF mem]] obtain m' where
    m': "crc_loop io a (a + 4 * n) ?m = Some m'" "mem io m' = mem io m" "csr m' = csr m"
      "C (dev m') = checksum_of step (words_at io m a (unat n))"
    by (auto simp: checksum_of_def)
  obtain v m'' where rd: "rd32 io CRC_DATA m' = (v, m'')" by force
  then have "v = C (dev m')" using crc by (auto simp: rd32_def crc_unit_def split: prod.split_asm)
    (metis fst_conv)
  moreover have "csr m'' = csr m" using rd m'(3) by (auto dest: rd32_frameD)
  ultimately show ?thesis using m' rd mem_rd32 [OF q rd] by (simp add: ch32_crc_def Let_def)
qed

section \<open>The checks\<close>

lemma lnDigitalRead_DFU:
  assumes "dfu_pin_level io v" "flash_quiet io"
  shows "\<exists>m'. lnDigitalRead io DFU_PIN m = (v, m') \<and> mem io m' = mem io m \<and> csr m' = csr m"
proof -
  obtain w m' where rd: "rd32 io (gpioPort 1 + GPIO_INDR) m = (w, m')" by force
  then have "w = fst (bus_rd32 io (gpioPort 1 + GPIO_INDR) (dev m))"
    by (auto simp: rd32_def split: prod.split_asm)
  with assms(1) have "odd (drop_bit 7 w) = v" by (simp add: dfu_pin_level_def bit_iff_odd_drop_bit)
  with rd mem_rd32 [OF assms(2) rd] rd32_frameD [OF rd] show ?thesis
    by (simp add: lnDigitalRead_def decode_pins and_one_eq odd_iff_mod_2_eq_one)
qed

lemma check_requests_spec:
  assumes "dfu_pin_level io v" "flash_quiet io"
  shows "\<exists>m'. check_requests io 0 m =
     ((if rebooted_into_dfu io m then 1 else 0) OR (if v then 0 else 2), m') \<and>
     mem io m' = mem io m \<and> csr m' = csr m"
  using lnDigitalRead_DFU [OF assms, of m] by (auto simp: check_requests_def Let_def)

text \<open>The image header: size at offset 4, checksum at 8, the image from 12 on.\<close>

definition app_ok :: "'h bus \<Rightarrow> (u32 \<Rightarrow> u32 \<Rightarrow> u32) \<Rightarrow> 'h mach \<Rightarrow> bool" where
  "app_ok io step m \<longleftrightarrow>
     (let size = ld32 io m (APP_ADDRESS + 4); sum = ld32 io m (APP_ADDRESS + 8)
      in 0 < size \<and> size < 256 * 1024 \<and>
         (size = 0x1234 \<and> sum = 0x5678 \<or>
          checksum_of step (words_at io m (APP_ADDRESS + 12) (unat size div 4)) = sum))"

lemma app_ok_mem: "mem io m' = mem io m \<Longrightarrow> app_ok io step m' = app_ok io step m"
  by (frule ld32_mem, drule words_at_mem) (simp add: app_ok_def)

lemma or_nonzero: "(a OR 8 :: u32) \<noteq> 0" "(a OR 16 :: u32) \<noteq> 0"
  by (simp_all add: or_eq_0_iff)

lemma check_image_spec:
  assumes q: "flash_quiet io" and crc: "crc_unit io C step"
  shows "\<exists>go' m'. check_image io go m = Some (go', m') \<and> mem io m' = mem io m \<and> csr m' = csr m \<and>
     (go' = 0 \<longleftrightarrow> go = 0 \<and> app_ok io step m)"
proof -
  let ?size = "ld32 io m (APP_ADDRESS + 4)" and ?sum = "ld32 io m (APP_ADDRESS + 8)"
  have n: "unat (drop_bit 2 ?size) = unat ?size div 4"
    by (simp add: drop_bit_eq_div unat_div_distrib)
  show ?thesis
  proof (cases "go = 0 \<and> ?size > 0 \<and> ?size < 256 * 1024 \<and> (?size \<noteq> 0x1234 \<or> ?sum \<noteq> 0x5678)")
    case True
    then have "unat ?size < 2 ^ 18" by (simp add: word_less_nat_alt)
    then have "unat (APP_ADDRESS + 12) + 4 * unat (drop_bit 2 ?size) < 2 ^ 32"
      unfolding n by (simp add: APP_ADDRESS_def FLASH_BOOTLDR_SIZE_KB_def)
    from ch32_crc_spec [OF q crc this, of m] obtain m' where
      "ch32_crc io (APP_ADDRESS + 12) (drop_bit 2 ?size) m =
        Some (checksum_of step (words_at io m (APP_ADDRESS + 12) (unat ?size div 4)), m')"
      "mem io m' = mem io m" "csr m' = csr m" by (auto simp: n)
    with True show ?thesis by (auto simp: check_image_def Let_def app_ok_def or_nonzero)
  next
    case False
    consider "go \<noteq> 0" | "go = 0" "\<not> (?size > 0 \<and> ?size < 256 * 1024)"
      | "go = 0" "?size > 0" "?size < 256 * 1024" "?size = 0x1234" "?sum = 0x5678"
      using False by blast
    then show ?thesis
    proof cases
      case 1
      then have "check_image io go m = Some (go, m)" by (simp add: check_image_def Let_def)
      with 1 show ?thesis by blast
    next
      case 2
      then have "check_image io go m = Some (go OR 16, m)"
        unfolding check_image_def Let_def by (simp only: if_False if_True simp_thms)
      moreover have "\<not> app_ok io step m" using 2 unfolding app_ok_def Let_def by blast
      ultimately show ?thesis using or_nonzero by blast
    next
      case 3
      then have "check_image io go m = Some (go, m)"
        unfolding check_image_def Let_def by (simp only: if_False if_True simp_thms)
      moreover have "app_ok io step m" using 3 unfolding app_ok_def Let_def by blast
      ultimately show ?thesis using 3(1) by blast
    qed
  qed
qed

section \<open>The hand-over\<close>

lemma memcpy_ram_spec:
  "unat a + length bs < 2 ^ 32 \<Longrightarrow>
     memcpy_ram a bs m = with_bytes a (length bs) (\<lambda>x. bs ! unat (x - a)) m"
proof (induction bs arbitrary: a m)
  case (Cons b bs)
  have a1: "unat (a + 1) = unat a + 1" using Cons.prems unat_add_small [of a 1] by simp
  have eq: "in_range a (Suc (length bs)) x \<longleftrightarrow> x = a \<or> in_range (a + 1) (length bs) x" for x
    by (auto simp: in_range_def a1 word_unat_eq_iff)
  have idx: "unat (x - a) = Suc (unat (x - (a + 1)))" if "in_range (a + 1) (length bs) x" for x
    using that a1 by (auto simp: in_range_def unat_sub word_le_nat_alt)
  have "\<not> in_range (a + 1) (length bs) a" by (simp add: in_range_def a1)
  with Cons a1 show ?case
    by (auto simp: with_bytes_def st8_def fun_eq_iff eq idx)
qed simp

lemma csr_memcpy [simp]: "csr (memcpy_ram a bs m) = csr m" "dev (memcpy_ram a bs m) = dev m"
  by (induction bs arbitrary: a m) (auto simp: st8_def)

text \<open>The flags come up, and the status of the system clock follows the selection.\<close>

definition comes_up :: "'h bus \<Rightarrow> u32 \<Rightarrow> (u32 \<Rightarrow> bool) \<Rightarrow> bool" where
  "comes_up io a test \<longleftrightarrow> (\<exists>f. becomes_ready io a test f)"

definition board_ok ::
  "'h bus \<Rightarrow> ('h \<Rightarrow> u32) \<Rightarrow> ('h \<Rightarrow> u32) \<Rightarrow> (u32 \<Rightarrow> u32 \<Rightarrow> u32) \<Rightarrow> bool \<Rightarrow> bool" where
  "board_ok io cfg C step pin \<longleftrightarrow>
     clock_regs io cfg \<and> flash_quiet io \<and> crc_unit io C step \<and> dfu_pin_level io pin \<and>
     comes_up io RCU_CTL (\<lambda>v. flag_set v LN_RCU_CTL_IRC8MSTB) \<and>
     comes_up io RCU_CTL (\<lambda>v. flag_set v LN_RCU_CTL_HXTASTB) \<and>
     comes_up io RCU_CTL (\<lambda>v. flag_set v LN_RCU_CTL_PLLSTB) \<and>
     comes_up io RCC_CFGR0 (\<lambda>v. v AND 0xC = 0)"

lemma revert_clock_returns:
  assumes "comes_up io RCU_CTL (\<lambda>v. flag_set v LN_RCU_CTL_IRC8MSTB)"
    "comes_up io RCC_CFGR0 (\<lambda>v. v AND 0xC = 0)"
  shows "\<exists>m'. revert_clock_to_hsi io m = Some m'"
proof -
  have "RCC_CTLR = RCU_CTL" by (simp add: RCC_CTLR_def rcu_addr_defs)
  moreover have "LN_RCU_CTL_IRC8MSTB = 2" by (simp add: LN_RCU_CTL_IRC8MSTB_def)
  ultimately obtain m1 where "wait_until io RCC_CTLR (\<lambda>v. v AND 2 \<noteq> 0) (or32 io RCC_CTLR 1 m) = Some m1"
    using assms(1) wait_until_returns unfolding comes_up_def by (metis (no_types) not_None_eq)
  moreover obtain m2 where "wait_until io RCC_CFGR0 (\<lambda>v. v AND 0xC = 0) (wr32 io RCC_CFGR0 0 m1) =
      Some m2" using assms(2) wait_until_returns unfolding comes_up_def by (metis (no_types) not_None_eq)
  ultimately show ?thesis by (simp add: revert_clock_to_hsi_def)
qed

lemma ready_flags:
  assumes "board_ok io cfg C step pin"
  shows "\<exists>g' m'. lnInitSystemClock io g m = Some (g', m')" "\<exists>m'. revert_clock_to_hsi io m = Some m'"
proof -
  show "\<exists>g' m'. lnInitSystemClock io g m = Some (g', m')"
    using assms unfolding board_ok_def comes_up_def by (elim conjE exE) (rule lnInitSystemClock_returns)
  show "\<exists>m'. revert_clock_to_hsi io m = Some m'"
    using assms unfolding board_ok_def by (elim conjE) (rule revert_clock_returns)
qed

lemma revert_frame: "revert_clock_to_hsi io m = Some m' \<Longrightarrow> csr m' = csr m \<and> ram m' = ram m"
  by (drule stage1_frame.revert_view) simp

text \<open>What stage 1 decides, and the memory it leaves.\<close>

definition boots_app :: "'h bus \<Rightarrow> (u32 \<Rightarrow> u32 \<Rightarrow> u32) \<Rightarrow> bool \<Rightarrow> 'h mach \<Rightarrow> bool" where
  "boots_app io step pin m \<longleftrightarrow> \<not> rebooted_into_dfu io m \<and> pin \<and> app_ok io step m"

definition handed_over :: "bool \<Rightarrow> u8 list \<Rightarrow> 'h mach \<Rightarrow> (u32 \<Rightarrow> u8)" where
  "handed_over app payload m =
     (if app then ram (clear_reboot_flags m)
      else ram (memcpy_ram STAGE2_RAM_ADDR payload (clear_reboot_flags m)))"

lemma ram_st64: "ram m = ram m' \<Longrightarrow> ram (st64 a w m) = ram (st64 a w m')"
  by (simp add: st64_def st32_def)

lemma ram_memcpy: "ram m = ram m' \<Longrightarrow> ram (memcpy_ram a bs m) = ram (memcpy_ram a bs m')"
  by (induction bs arbitrary: a m m') (simp_all add: st8_def)

lemma st64_frame [simp]: "csr (st64 a w m) = csr m" "dev (st64 a w m) = dev m"
  by (simp_all add: st64_def st32_def)

lemma flash_LED:
  "flash_quiet io \<Longrightarrow> bus_mem8 io (dev (lnDigitalWrite io LED_PIN v m)) = bus_mem8 io (dev m)"
  using stage1_view.LED_view [OF mem_view, of io v m] by (simp add: mem_def)

lemma stage1_main_spec:
  assumes ok: "board_ok io cfg C step pin"
  shows "\<exists>m'. stage1_main io payload g m = Some (chain_to
       (if boots_app io step pin m then APP_ADDRESS else STAGE2_RAM_ADDR), m') \<and>
     ram m' = handed_over (boots_app io step pin m) payload m \<and> csr m' = csr m \<and>
     bus_mem8 io (dev m') = bus_mem8 io (dev m)"
proof -
  from ok have q: "flash_quiet io" and crc: "crc_unit io C step" and lvl: "dfu_pin_level io pin"
    by (simp_all add: board_ok_def)
  obtain g1 m1 where 1: "lnInitSystemClock io g m = Some (g1, m1)" using ready_flags(1) [OF ok] by blast
  define m2 where "m2 = lnPinMode io DFU_PIN lnINPUT_PULLUP (lnDigitalWrite io LED_PIN False
    (lnPinMode io LED_PIN lnOUTPUT (enable_periph io pGPIOC (enable_periph io pGPIOB
    (enable_periph io pGPIOA m1)))))"
  define m3 where "m3 = lnDigitalWrite io LED_PIN True m2"
  have mem3: "mem io m3 = mem io m" and csr3: "csr m3 = csr m"
    using stage1_view.clock_view [OF mem_view [OF q] 1] lnInitSystemClock_frame(1) [OF 1]
    by (simp_all add: m2_def m3_def mem_simps [OF q])
  let ?go = "(if rebooted_into_dfu io m3 then 1 else 0) OR (if pin then 0 else 2) :: u32"
  obtain m4 where 4: "check_requests io 0 m3 = (?go, m4)" "mem io m4 = mem io m" "csr m4 = csr m"
    using check_requests_spec [OF lvl q, of m3] mem3 csr3 by auto
  obtain go m5 where 5: "check_image io ?go m4 = Some (go, m5)" "mem io m5 = mem io m"
      "csr m5 = csr m" "go = 0 \<longleftrightarrow> ?go = 0 \<and> app_ok io step m"
    using check_image_spec [OF q crc, of ?go m4] 4(2,3) app_ok_mem [OF 4(2)] by auto
  have "rebooted_into_dfu io m3 = rebooted_into_dfu io m"
    using ld64_mem [OF mem3] by (simp add: rebooted_into_dfu_def)
  then have go: "go = 0 \<longleftrightarrow> boots_app io step pin m" using 5(4) by (auto simp: boots_app_def)
  define m6 where "m6 = lnDigitalWrite io LED_PIN False (clear_reboot_flags m5)"
  have ram6: "ram m6 = ram (clear_reboot_flags m)" and csr6: "csr m6 = csr m"
    and fl6: "bus_mem8 io (dev m6) = bus_mem8 io (dev m)"
    using 5(2,3) ram_st64 [of m5 m] by (simp_all add: m6_def clear_reboot_flags_def mem_def flash_LED [OF q])
  have run: "stage1_main io payload g m =
      (if go = 0 then Option.bind (revert_clock_to_hsi io m6) (\<lambda>m. Some (chain_to APP_ADDRESS, m))
       else Some (chain_to STAGE2_RAM_ADDR,
         lnDigitalWrite io LED_PIN True (memcpy_ram STAGE2_RAM_ADDR payload m6)))"
    using 1 4(1) 5(1) by (simp add: stage1_main_def Let_def toggle_led_def m2_def m3_def m6_def)
  show ?thesis
  proof (cases "go = 0")
    case True
    obtain m7 where m7: "revert_clock_to_hsi io m6 = Some m7" using ready_flags(2) [OF ok] by blast
    with True run go ram6 csr6 fl6 stage1_view.revert_view [OF mem_view [OF q] m7] revert_frame [OF m7] show ?thesis
      by (simp add: handed_over_def mem_def)
  next
    case False
    with run go csr6 fl6 ram_memcpy [OF ram6] show ?thesis
      by (simp add: handed_over_def flash_LED [OF q])
  qed
qed

section \<open>A board\<close>

text \<open>
  The device of the witnesses: the clock configuration and the accumulator of a checksum unit that
  XORs its words; every other register reads as ones. The flash holds the header of an image
  without checksum.
\<close>

definition board_with :: "(u32 \<Rightarrow> u8) \<Rightarrow> (u32 \<times> u32) bus" where
  "board_with flash = \<lparr>
     bus_rd32 = \<lambda>a (c, acc).
       (if a = RCU_CFG0 then c AND NOT SWS_BITS else if a = CRC_DATA then acc else NOT 0, (c, acc)),
     bus_wr32 = \<lambda>a v (c, acc).
       (if a = RCU_CFG0 then v AND NOT SWS_BITS else c,
        if a = CRC_CONTROL then 0xFFFFFFFF else if a = CRC_DATA then acc XOR v else acc),
     bus_mem8 = \<lambda>d a. flash a\<rparr>"

definition board_bus :: "(u32 \<times> u32) bus" where
  "board_bus = board_with (\<lambda>a. if a = 0x4004 then 0x34 else if a = 0x4005 then 0x12
     else if a = 0x4008 then 0x78 else if a = 0x4009 then 0x56 else 0)"

definition board_mach :: "(u32 \<times> u32) mach" where
  "board_mach = \<lparr>csr = \<lambda>_. 0, ram = \<lambda>_. 0, dev = (0, 0)\<rparr>"

definition clocks_reset :: clocks where
  "clocks_reset = \<lparr>SystemCoreClock = 0, rcuClockApb1 = 0, rcuClockApb2 = 0\<rparr>"

lemma board_addr_neq [simp]:
  "CRC_DATA \<noteq> RCU_CFG0" "CRC_CONTROL \<noteq> RCU_CFG0" "CRC_CONTROL \<noteq> CRC_DATA" "CRC_DATA \<noteq> CRC_CONTROL"
  "RCU_CFG0 \<noteq> CRC_DATA" "RCU_CFG0 \<noteq> CRC_CONTROL" "RCU_CTL \<noteq> CRC_DATA" "RCC_CFGR0 = RCU_CFG0"
  "gpioPort 1 + GPIO_INDR \<noteq> RCU_CFG0" "gpioPort 1 + GPIO_INDR \<noteq> CRC_DATA"
  by (simp_all add: CRC_DATA_def CRC_CONTROL_def CH32_CRC32_ADDR_def rcu_addr_defs RCC_CFGR0_def
    gpioPort_def LN_GPIOA_ADR_def GPIO_INDR_def)

lemma board_with_ok: "board_ok (board_with g) (\<lambda>d. fst d AND NOT SWS_BITS) snd (\<lambda>a w. a XOR w) True"
proof -
  have regs: "clock_regs (board_with g) (\<lambda>d. fst d AND NOT SWS_BITS)"
    by (auto simp: clock_regs_def board_with_def and.assoc split: prod.split)
  have quiet: "flash_quiet (board_with g)"
    by (auto simp: flash_quiet_def board_with_def split: prod.split)
  have crc: "crc_unit (board_with g) snd (\<lambda>a w. a XOR w)"
    by (auto simp: crc_unit_def board_with_def split: prod.split)
  have pin: "dfu_pin_level (board_with g) True"
    by (auto simp: dfu_pin_level_def board_with_def bit_not_iff split: prod.split)
  have up: "comes_up (board_with g) RCU_CTL (\<lambda>v. flag_set v b)" if "b \<noteq> 0" for b
    using that by (auto simp: comes_up_def becomes_ready_def board_with_def split: prod.split_asm)
  have sws: "comes_up (board_with g) RCC_CFGR0 (\<lambda>v. v AND 0xC = 0)"
    by (auto simp: comes_up_def becomes_ready_def board_with_def SWS_BITS_def and.assoc
      split: prod.split_asm)
  show ?thesis using regs quiet crc pin sws by (simp add: board_ok_def up rcu_bit_defs)
qed

lemmas board_board_ok = board_with_ok [of "\<lambda>a. if a = 0x4004 then 0x34 else if a = 0x4005 then 0x12
     else if a = 0x4008 then 0x78 else if a = 0x4009 then 0x56 else 0", folded board_bus_def]

lemma board_boots: "boots_app board_bus step True board_mach"
  by (simp add: boots_app_def rebooted_into_dfu_def app_ok_def ld64_def ld32_def ld8_def le32_def
    flash8_def in_ram_def board_bus_def board_with_def board_mach_def RAM_START_ADDR_def BOOT_TO_DFU_MARKER_def
    APP_ADDRESS_def FLASH_BOOTLDR_SIZE_KB_def)

section \<open>Marker and payload in RAM\<close>

lemma marker_value:
  "ld64 io (st64 RAM_START_ADDR w m) RAM_START_ADDR = w"
proof -
  have "ld32 io (st64 RAM_START_ADDR w m) RAM_START_ADDR = ucast w"
    "ld32 io (st64 RAM_START_ADDR w m) (RAM_START_ADDR + 4) = ucast (drop_bit 32 w)"
    by (simp_all add: ld32_def ld8_def st64_def st32_def in_ram_def RAM_START_ADDR_def)
  then show ?thesis
    by (intro bit_word_eqI) (auto simp: ld64_def bit_or_iff bit_push_bit_iff bit_ucast_iff
      bit_drop_bit_eq)
qed

lemma rebooted_requested: "rebooted_into_dfu io (reboot_into_bootloader m)"
  by (simp add: rebooted_into_dfu_def reboot_into_bootloader_def marker_value)

lemma not_rebooted_cleared: "\<not> rebooted_into_dfu io (clear_reboot_flags m)"
  by (simp add: rebooted_into_dfu_def clear_reboot_flags_def marker_value BOOT_TO_DFU_MARKER_def)

lemma rebooted_words:
  assumes "ld32 io m' 0x20000000 = ld32 io m 0x20000000" "ld32 io m' 0x20000004 = ld32 io m 0x20000004"
  shows "rebooted_into_dfu io m' = rebooted_into_dfu io m"
  using assms by (simp add: rebooted_into_dfu_def ld64_def RAM_START_ADDR_def)

lemma rebooted_low:
  assumes "\<And>a. unat a < 0x20000008 \<Longrightarrow> 0x20000000 \<le> unat a \<Longrightarrow> ram m' a = ram m a"
  shows "rebooted_into_dfu io m' = rebooted_into_dfu io m"
proof (rule rebooted_words)
  have "ld8 io m' a = ld8 io m a" if "unat a < 0x20000008" "0x20000000 \<le> unat a" for a
    using that assms [OF that] by (simp add: ld8_def in_ram_def word_le_nat_alt word_less_nat_alt)
  then show "ld32 io m' 0x20000000 = ld32 io m 0x20000000" "ld32 io m' 0x20000004 = ld32 io m 0x20000004"
    by (simp_all add: ld32_def)
qed

lemma payload_nth:
  assumes "length payload \<le> 0xC000" "i < length payload"
  shows "ram (memcpy_ram STAGE2_RAM_ADDR payload m) (STAGE2_RAM_ADDR + of_nat i) = payload ! i"
proof -
  have fit: "unat STAGE2_RAM_ADDR + length payload < 2 ^ 32"
    using assms(1) by (simp add: STAGE2_RAM_ADDR_def)
  have addr: "unat (STAGE2_RAM_ADDR + of_nat i) = unat STAGE2_RAM_ADDR + i"
    using assms by (intro unat_plus_nat) (simp add: STAGE2_RAM_ADDR_def)
  have "unat (of_nat i :: u32) = i"
    using assms by (simp add: unsigned_of_nat take_bit_nat_eq_self)
  with addr assms(2) show ?thesis
    by (simp add: memcpy_ram_spec [OF fit] with_bytes_def in_range_def)
qed

lemma payload_map:
  assumes "length payload \<le> 0xC000"
  shows "map (\<lambda>i. ram (memcpy_ram STAGE2_RAM_ADDR payload m) (STAGE2_RAM_ADDR + of_nat i))
    [0 ..< length payload] = payload"
  by (rule nth_equalityI) (simp_all add: payload_nth [OF assms])

lemma payload_keeps_marker:
  assumes "length payload \<le> 0xC000"
  shows "rebooted_into_dfu io (memcpy_ram STAGE2_RAM_ADDR payload m) = rebooted_into_dfu io m"
proof (rule rebooted_low)
  fix a :: u32 assume "unat a < 0x20000008"
  moreover have fit: "unat STAGE2_RAM_ADDR + length payload < 2 ^ 32"
    using assms by (simp add: STAGE2_RAM_ADDR_def)
  ultimately show "ram (memcpy_ram STAGE2_RAM_ADDR payload m) a = ram m a"
    by (simp add: memcpy_ram_spec [OF fit] with_bytes_def in_range_def) (simp add: STAGE2_RAM_ADDR_def)
qed

lemma handed_over_marker:
  fixes m m' :: "'h mach"
  assumes "length payload \<le> 0xC000" "ram m' = handed_over app payload m"
  shows "\<not> rebooted_into_dfu io m'"
proof -
  let ?m = "if app then clear_reboot_flags m
    else memcpy_ram STAGE2_RAM_ADDR payload (clear_reboot_flags m)"
  have "rebooted_into_dfu io m' = rebooted_into_dfu io ?m"
    by (rule rebooted_low) (simp add: assms(2) handed_over_def)
  then show ?thesis using not_rebooted_cleared payload_keeps_marker [OF assms(1)] by (auto split: if_split_asm)
qed

section \<open>Properties\<close>



text \<open>When stage 1 hands over to stage 2, the embedded image is in RAM at 0x20004000, byte for byte,
  for every image that fits below the end of RAM, and the request that led there is gone, so that
  the next reset is not forced into DFU again.\<close>

theorem stage2_handed_over:
  assumes "board_ok io cfg C step pin" and "length payload \<le> 0xC000"
    and "rebooted_into_dfu io m \<or> \<not> pin \<or> \<not> app_ok io step m"
  shows "\<exists>m'. stage1_main io payload g m = Some (\<lparr>entry_pc = 0x20004000, entry_sp = 0x20010000\<rparr>, m') \<and>
     map (\<lambda>i. ram m' (0x20004000 + of_nat i)) [0 ..< length payload] = payload \<and>
     \<not> rebooted_into_dfu io m'"
proof -
  have "\<not> boots_app io step pin m" using assms(3) by (auto simp: boots_app_def)
  with stage1_main_spec [OF assms(1), of payload g m] obtain m' where m':
    "stage1_main io payload g m = Some (chain_to STAGE2_RAM_ADDR, m')"
    "ram m' = handed_over False payload m" by auto
  from m'(2) payload_map [OF assms(2), of "clear_reboot_flags m"]
  have "map (\<lambda>i. ram m' (STAGE2_RAM_ADDR + of_nat i)) [0 ..< length payload] = payload"
    by (simp add: handed_over_def)
  with m' handed_over_marker [OF assms(2) m'(2)] show ?thesis
    by (simp add: chain_to_def STAGE2_RAM_ADDR_def)
qed

theorem stage2_handed_over_witness:
  "\<exists>m'. stage1_main board_bus [1, 2, 3] clocks_reset (reboot_into_bootloader board_mach) =
     Some (\<lparr>entry_pc = 0x20004000, entry_sp = 0x20010000\<rparr>, m') \<and> ram m' 0x20004002 = 3"
  using stage2_handed_over [OF board_board_ok, of "[1, 2, 3]" "reboot_into_bootloader board_mach"
      clocks_reset] rebooted_requested [of board_bus board_mach]
  by (auto simp: upt_rec)



text \<open>The checksum is the fold of the unit's step function over the words of the region, whatever
  the register held before, for every region that does not wrap.\<close>

lemma crc_folds_words:
  assumes "flash_quiet io" and "crc_unit io C step" and "unat a + 4 * unat n < 2 ^ 32"
  shows "\<exists>m'. ch32_crc io a n m = Some (checksum_of step (words_at io m a (unat n)), m') \<and>
     ram m' = ram m \<and> csr m' = csr m"
  using ch32_crc_spec [OF assms, of m] by (auto simp: mem_def)

lemma crc_folds_words_example:
  "\<exists>m'. ch32_crc board_bus 0x4004 2 board_mach = Some (0xFFFFFFFF XOR 0x1234 XOR 0x5678, m')"
proof -
  have "\<exists>m'. ch32_crc board_bus 0x4004 2 board_mach =
      Some (checksum_of (\<lambda>a w. a XOR w) (words_at board_bus board_mach 0x4004 2), m')"
    using crc_folds_words [of board_bus snd "\<lambda>a w. a XOR w" "0x4004" 2 board_mach] board_board_ok
    by (auto simp: board_ok_def)
  moreover have "checksum_of (\<lambda>a w. a XOR w) (words_at board_bus board_mach 0x4004 2) =
      0xFFFFFFFF XOR 0x1234 XOR 0x5678"
    by (simp add: checksum_of_def words_at_def upt_rec ld32_def ld8_def in_ram_def board_bus_def board_with_def
      board_mach_def flash8_def le32_def)
  ultimately show ?thesis by simp
qed


text \<open>A flash with an image of five bytes; the device state is the last of them.\<close>

definition odd_bus :: "u8 bus" where
  "odd_bus = \<lparr>bus_rd32 = \<lambda>a d. (0, d), bus_wr32 = \<lambda>a v d. d,
     bus_mem8 = \<lambda>d a. if a = 0x4004 then 5 else if a = 0x4010 then d else 0\<rparr>"

definition odd_image :: "u8 \<Rightarrow> u8 mach" where
  "odd_image b = \<lparr>csr = \<lambda>_. 0, ram = \<lambda>_. 0, dev = b\<rparr>"


end
