(* ===== verification/Boot_Chain.thy ===== *)
theory Boot_Chain
  imports Session_Cut Stage1_Props
begin

text \<open>
  Stage 1 in front of stage 2: whatever stage 1 decides, from the reset vector on, it hands the flash
  controller over as it found it, so a download session can follow on the same machine.
\<close>

section \<open>Stage 1 and the flash controller\<close>

lemma fmc_quiet_regs: "list_all fmc_quiet stage1_registers"
  by (simp add: stage1_registers_def fmc_quiet_defs rcu_addr_defs LN_FMC_ADR_def AHBPCENR_def
    CRC_CONTROL_def CRC_DATA_def CH32_CRC32_ADDR_def RCC_CTLR_def RCC_CFGR0_def RCC_INTR_def gpioPort_def
    LN_GPIOA_ADR_def GPIO_CFGLR_def GPIO_CFGHR_def GPIO_BSHR_def GPIO_BCR_def)

lemma chip_stage1_view: "fmc_device io view over f \<Longrightarrow> stage1_view io (chip_of view) fmc_quiet"
  by (intro stage1_view.intro chip_view stage1_view_axioms.intro fmc_quiet_regs)

text \<open>All of stage 1.\<close>

lemma stage1_chip:
  assumes D: "fmc_device io view over f" and "stage1_main io payload g m = Some (e, m')"
  shows "chip_of view m' = chip_of view m"
proof -
  note view = chip_stage1_view [OF D]
  from assms(2) obtain g1 m1 where 1: "lnInitSystemClock io g m = Some (g1, m1)"
    by (auto simp: stage1_main_def elim!: bind_SomeE)
  define m3 where "m3 = lnDigitalWrite io LED_PIN True (lnPinMode io DFU_PIN lnINPUT_PULLUP
    (lnDigitalWrite io LED_PIN False (lnPinMode io LED_PIN lnOUTPUT (enable_periph io pGPIOC
    (enable_periph io pGPIOB (enable_periph io pGPIOA m1))))))"
  obtain go m4 where 4: "check_requests io 0 m3 = (go, m4)" by force
  from assms(2) 1 4 obtain go' m5 where 5: "check_image io go m4 = Some (go', m5)"
    by (auto simp: stage1_main_def Let_def toggle_led_def m3_def elim!: bind_SomeE)
  define m6 where "m6 = lnDigitalWrite io LED_PIN False (clear_reboot_flags m5)"
  have "chip_of view m3 = chip_of view m"
    by (simp add: m3_def stage1_view.LED_view [OF view] stage1_view.pinMode_view [OF view]
      stage1_view.periph_view [OF view] stage1_view.clock_view [OF view 1])
  with stage1_view.requests_view [OF view 4] stage1_view.image_view [OF view 5] have 6: "chip_of view m6 = chip_of view m"
    by (simp add: m6_def stage1_view.LED_view [OF view] clear_reboot_flags_def)
  have "stage1_main io payload g m = (if go' = 0 then Option.bind (revert_clock_to_hsi io m6) (\<lambda>m. Some (chain_to APP_ADDRESS, m))
       else Some (chain_to STAGE2_RAM_ADDR,
         lnDigitalWrite io LED_PIN True (memcpy_ram STAGE2_RAM_ADDR payload m6)))"
    using 1 4 5 by (simp add: stage1_main_def Let_def toggle_led_def m3_def m6_def)
  with 6 assms(2) show ?thesis
    by (auto simp: stage1_view.LED_view [OF view] split: if_split_asm elim!: bind_SomeE
      dest: stage1_view.revert_view [OF view])
qed

section \<open>From the reset vector\<close>

text \<open>The start-up code changes RAM only, and the check of the image looks at the flash only.\<close>

lemma ld32_flash:
  assumes "flash8 io m' = flash8 io m" and "unat a + 4 \<le> 0x20000000"
  shows "ld32 io m' a = ld32 io m a"
proof -
  have "unat (a + 1) = unat a + 1" "unat (a + 2) = unat a + 2" "unat (a + 3) = unat a + 3"
    using assms(2) unat_add_small [of a 1] unat_add_small [of a 2] unat_add_small [of a 3] by simp_all
  with assms(2) have "\<not> in_ram a" "\<not> in_ram (a + 1)" "\<not> in_ram (a + 2)" "\<not> in_ram (a + 3)"
    by (simp_all add: in_ram_def word_le_nat_alt)
  then show ?thesis by (simp add: ld32_def ld8_def assms(1))
qed

lemma app_ok_flash:
  assumes "flash8 io m' = flash8 io m" shows "app_ok io step m' = app_ok io step m"
proof -
  have app: "unat (APP_ADDRESS + 4) = 0x4004" "unat (APP_ADDRESS + 8) = 0x4008" "unat (APP_ADDRESS + 12) = 0x400C"
    by (simp_all add: APP_ADDRESS_def FLASH_BOOTLDR_SIZE_KB_def)
  have hdr: "ld32 io m' (APP_ADDRESS + 4) = ld32 io m (APP_ADDRESS + 4)"
    "ld32 io m' (APP_ADDRESS + 8) = ld32 io m (APP_ADDRESS + 8)"
    by (simp_all add: ld32_flash [OF assms] app)
  have "words_at io m' (APP_ADDRESS + 12) (unat size div 4) = words_at io m (APP_ADDRESS + 12) (unat size div 4)"
    if "size < 256 * 1024" for size :: u32
    unfolding words_at_def
  proof (rule map_cong [OF refl], rule ld32_flash [OF assms])
    fix i assume "i \<in> set [0 ..< unat size div 4]"
    moreover have "unat size < 2 ^ 18" using that by (simp add: word_less_nat_alt)
    ultimately have i: "4 * i < 2 ^ 18" by auto
    then have "unat (APP_ADDRESS + 12 + of_nat (4 * i)) = 0x400C + 4 * i"
      using unat_plus_nat [of "APP_ADDRESS + 12" "4 * i"] by (simp add: app)
    with i show "unat (APP_ADDRESS + 12 + of_nat (4 * i)) + 4 \<le> 0x20000000" by simp
  qed
  then show ?thesis unfolding app_ok_def hdr Let_def by (auto simp del: of_nat_mult)
qed

lemma boot_started:
  assumes "section_sizes l (4 * Suc n) (4 * Suc k)"
    and "0x20000008 \<le> unat (data_begin l)" and "0x20000008 \<le> unat (bss_begin l)"
  shows "\<exists>r. (\<forall>payload g. stage1_boot io l payload g m = stage1_main io payload g r) \<and>
    rebooted_into_dfu io r = rebooted_into_dfu io m \<and> app_ok io step r = app_ok io step m \<and>
    boots_app io step pin r = boots_app io step pin m \<and> dev r = dev m"
proof -
  let ?m = "handle_reset m"
  let ?r = "loaded io l (4 * Suc n) (4 * Suc k) ?m"
  have run: "start_c io l ?m = Some ?r" by (rule start_c_loaded [OF assms])
  have dev: "dev ?r = dev m" by (simp add: loaded_def handle_reset_def)
  then have app: "app_ok io step ?r = app_ok io step m"
    by (intro app_ok_flash) (simp add: flash8_def fun_eq_iff)
  have "rebooted_into_dfu io ?m = rebooted_into_dfu io m"
    by (rule rebooted_low) (simp add: handle_reset_def)
  with rebooted_words [OF start_c_marker [OF run]]
  have req: "rebooted_into_dfu io ?r = rebooted_into_dfu io m" by simp
  show ?thesis
    by (intro exI [of _ ?r]) (simp add: stage1_boot_def run req app dev boots_app_def del: mult_Suc_right)
qed

end
