(* ===== verification/Flash_Props.thy ===== *)
theory Flash_Props
  imports Dfu_Flash
begin

text \<open>
  What a download and an erase command leave in the flash, on every controller that behaves as
  documented (\<open>fmc_device\<close>), with witnesses on \<open>chip_bus\<close>.
\<close>

section \<open>Concrete chips\<close>

text \<open>A chip after reset: locked, and programmed with zeros.\<close>

definition reset_chip :: chip where
  "reset_chip = \<lparr>cells = (\<lambda>_. 0), ctl = 0x8080, addr_reg = 0, endf = False, page_buf = Map.empty,
                 key1 = False, fkey1 = False\<rparr>"

definition chip_mach :: "chip mach" where
  "chip_mach = \<lparr>csr = (\<lambda>_. 0), ram = (\<lambda>_. 0), dev = reset_chip\<rparr>"

definition chip_dfu :: "u32 \<Rightarrow> u32 \<Rightarrow> chip mach dfu" where
  "chip_dfu a N = (dfu_init chip_mach)\<lparr>dfu_address := a, dfu_block_num := N, flash_end := 0x40000\<rparr>"

lemma reset_chip_idle: "chip_idle reset_chip"
proof -
  have "(0x8080 :: u32) = FMC_CTL_LK OR FMC_CTL_FASTUNLOCK"
    by (simp add: FMC_CTL_LK_def FMC_CTL_FASTUNLOCK_def)
  then show ?thesis by (simp add: chip_idle_def reset_chip_def ctl_bits)
qed

lemma chip_dfu_simps [simp]:
  "dfu_address (chip_dfu a N) = a" "dfu_block_num (chip_dfu a N) = N"
  "flash_end (chip_dfu a N) = 0x40000" "plat (chip_dfu a N) = chip_mach"
  "chip_idle (dev chip_mach)" "cells (dev chip_mach) = (\<lambda>_. 0)"
  by (simp_all add: chip_dfu_def dfu_init_def chip_mach_def reset_chip_idle)
    (simp add: reset_chip_def)

definition full_buf :: cptr where
  "full_buf = \<lparr>cp_addr = 0x20009000, cp_bytes = replicate 4096 0x5A\<rparr>"

lemma full_buf_simps [simp]: "length (cp_bytes full_buf) = 4096"
  "k < 4096 \<Longrightarrow> cp_bytes full_buf ! k = 0x5A"
  by (simp_all add: full_buf_def)

section \<open>A data block\<close>

text \<open>C6: a data block refines the update of the array it stands for. If the controller behaves as
  documented and the block lies below the end of the flash, on a page boundary, the device reports
  OK, and the array holds the bytes of the receive buffer from the block's address on, in whole
  pages: the rest of the last page is filled with what the buffer holds past the received bytes.
  Every other byte is as it was, also if pages had to be erased first. Nothing protects the pages
  of the boot loader below 0x4000.\<close>

theorem data_block_stored:
  assumes "fmc_device io view over f" and "chip_idle (chip_of view (plat d))"
    and "dfu_block_num d \<ge> 2" and "0 < len" and "len \<le> 4096" and "length (cp_bytes data) = 4096"
    and "unat (write_address (dfu_address d) (dfu_block_num d)) mod 256 = 0"
    and "unat (write_address (dfu_address d) (dfu_block_num d)) + unat len \<le> unat (flash_end d)"
    and "unat (flash_end d) \<le> 2 ^ 27"
  shows "\<exists>m. dfu_handle_data (fmc_ops io) data len d = Some (d\<lparr>plat := m, status := DFU_STATUS_OK\<rparr>) \<and>
    chip_idle (chip_of view m) \<and>
    cells (chip_of view m) = put (unat (write_address (dfu_address d) (dfu_block_num d)))
      (take (256 * ((unat len + 255) div 256)) (cp_bytes data)) (cells (chip_of view (plat d)))"
proof -
  have "unat len \<le> 4096" using assms(5) by (simp add: word_le_nat_alt)
  then have "256 * ((unat len + 255) div 256) \<le> length (cp_bytes data)" using assms(6) by simp
  from flash_array.write_block_array [OF fmc_flash_array [OF assms(1)] assms(2) refl assms(7-9) refl this]
  have "\<exists>m. dfu_write_block (fmc_ops io) data len d = Some (d\<lparr>plat := m, status := DFU_STATUS_OK\<rparr>) \<and>
    chip_idle (chip_of view m) \<and>
    cells (chip_of view m) = put (unat (write_address (dfu_address d) (dfu_block_num d)))
      (take (256 * ((unat len + 255) div 256)) (cp_bytes data)) (cells (chip_of view (plat d)))" .
  moreover have "dfu_block_num d \<noteq> 0" using assms(3) by auto
  ultimately show ?thesis using assms(3,4) by (simp add: dfu_handle_data_def)
qed

theorem data_block_stored_witness:
  "\<exists>m. dfu_handle_data (fmc_ops chip_bus) full_buf 300 (chip_dfu 0 2) =
      Some ((chip_dfu 0 2)\<lparr>plat := m, status := DFU_STATUS_OK\<rparr>) \<and>
    cells (dev m) 299 = 0x5A \<and> cells (dev m) 511 = 0x5A \<and> cells (dev m) 512 = 0"
proof -
  have "(take (256 * ((unat (300 :: u16) + 255) div 256)) (cp_bytes full_buf)) = take 512 (cp_bytes full_buf)"
    by simp
  with data_block_stored [OF chip_device, of "chip_dfu 0 2" 300 full_buf]
  show ?thesis by (auto simp: write_address_def put_def)
qed

section \<open>An erase command\<close>

text \<open>C7: an erase command (block 0, command 0x41 and a little-endian address below the end of the
  array) erases the 4 KB sector of the address and nothing else, with one exception: if the sector
  is the first of a 32 KB block and not yet erased, the whole block is erased. It reports OK.\<close>

theorem erase_command_effect:
  assumes "fmc_device io view over f" and "chip_idle (chip_of view (plat d))"
    and "dfu_block_num d = 0" and "5 \<le> len"
    and "take 5 (cp_bytes data) = DFUSE_CMD_ERASE_PAGE # bytes32 addr" and "unat addr < 2 ^ 27"
  shows "\<exists>m. dfu_handle_data (fmc_ops io) data len d = Some (d\<lparr>plat := m, status := DFU_STATUS_OK\<rparr>) \<and>
    chip_idle (chip_of view m) \<and>
    (let A = cells (chip_of view (plat d)); b = unat addr - unat addr mod 4096
     in cells (chip_of view m) =
       erase_span b (if b mod 32768 = 0 \<and> erase_span b 4096 A \<noteq> A then 32768 else 4096) A)"
proof -
  have l: "5 \<le> length (cp_bytes data)" using arg_cong [OF assms(5), of length] by simp
  have n: "cp_bytes data ! i = (DFUSE_CMD_ERASE_PAGE # bytes32 addr) ! i" if "i < 5" for i
    using arg_cong [OF assms(5), of "\<lambda>x. x ! i"] that by simp
  have rd: "cp_rd8 data i = Some ((DFUSE_CMD_ERASE_PAGE # bytes32 addr) ! i)" if "i < 5" for i
    using n [OF that] l that by (simp add: cp_rd8_def)
  have "dfu_handle_data (fmc_ops io) data len d = dfu_erase_command (fmc_ops io) addr d"
    using assms(3,4) rd [of 0] rd [of 1] rd [of 2] rd [of 3] rd [of 4]
    by (simp add: dfu_handle_data_def bytes32_def DFUSE_CMD_ERASE_PAGE_def DFUSE_CMD_SET_ADDRESS_def
      numeral_eq_Suc [of "num.One"])
  then show ?thesis
    using flash_array.erase_command_array [OF fmc_flash_array [OF assms(1)] assms(2,6)]
    by (simp add: Let_def)
qed

text \<open>Erasing the sector at 0x8000 of a programmed chip takes the seven sectors behind it along.\<close>

theorem erase_command_effect_witness:
  "\<exists>m. dfu_handle_data (fmc_ops chip_bus) \<lparr>cp_addr = 0x20009000, cp_bytes = [0x41, 0, 0x80, 0, 0]\<rparr> 5
        (chip_dfu 0x4000 0) = Some ((chip_dfu 0x4000 0)\<lparr>plat := m, status := DFU_STATUS_OK\<rparr>) \<and>
    cells (dev m) 0x8000 = 0x39 \<and> cells (dev m) 0xFFFF = 0xE3 \<and> cells (dev m) 0x10000 = 0"
proof -
  have "erase_span 0x8000 4096 (\<lambda>_. 0) 0x8000 \<noteq> (0 :: u8)"
    by (simp add: erase_span_def pat_def byte32_def ERASED_def)
  then have ne: "erase_span 0x8000 4096 (\<lambda>_. 0) \<noteq> (\<lambda>_. 0)" by metis
  from erase_command_effect [OF chip_device, of "chip_dfu 0x4000 0" 5
      "\<lparr>cp_addr = 0x20009000, cp_bytes = [0x41, 0, 0x80, 0, 0]\<rparr>" "0x8000"]
  show ?thesis
    using ne by (auto simp: Let_def bytes32_def byte32_def DFUSE_CMD_ERASE_PAGE_def erase_span_def pat_def ERASED_def)
qed

end
