(* ===== verification/Session_Props.thy ===== *)
theory Session_Props
  imports Session_Cut Flash_Props
begin

text \<open>
  The properties of whole sessions of stage 2: what a host commands over USB happens in the flash while
  the polling loop runs, a download stores the image, and a session that is cut off has carried out
  its commands as a whole or not at all.
\<close>

section \<open>A download\<close>

lemma leave_resets: "asks_reset (Ev_setup (dnload_req N 0))"
  by (simp add: asks_reset_def dnload_req_def)

lemma session_image_stored:
  assumes D: "fmc_device io view over f" and F: "irq_fires fires f'" and Q: "irq_quiet view fires"
    and ctors: "\<And>m. \<exists>m'. ctors m = Some m' \<and> chip_of view m' = chip_of view m"
    and sec: "section_sizes (lk_sections l) (4 * n) (4 * k)"
    and idle: "chip_idle (chip_of view m)"
    and a: "unat a mod 4096 = 0" "unat a + 4096 * ((length img + 4095) div 4096) \<le> 0x40000"
    and evs: "map snd evs = session_events (Chat pre # image_session er a img) @ [Ev_setup (dnload_req N 0)]"
      "list_all chatter pre"
  shows "\<exists>s'. stage2_cpp_entry io fires ctors l evs m = Some (Reset s') \<and>
    (\<forall>i < length img. cells (chip_of view (s2_mach s')) (unat a + i) = img ! i) \<and>
    (\<forall>i. i < unat a \<or> \<not> er \<and> unat a + 4096 * ((length img + 4095) div 4096) \<le> i \<longrightarrow>
       cells (chip_of view (s2_mach s')) i = cells (chip_of view m) i)"
proof -
  obtain s where s: "loop_inv io f s" "chip_of view (s2_mach s) = chip_of view m"
    "stage2_cpp_entry io fires ctors l evs m = main_loop io fires evs s"
    using entry_runs [OF D F Q ctors sec, of m] by blast
  let ?cs = "Chat pre # image_session er a img"
  have "unat a + 4096 * ((length img + 4095) div 4096) \<le> 2 ^ 27" using a(2) by simp
  then have "cmds_ok (dfu_address (cls (s2_usb s))) ?cs"
    using image_session_ok [OF a(1)] evs(2) by simp
  moreover have "chip_idle (chip_of view (s2_mach s))" using idle s(2) by simp
  ultimately obtain s' t where s': "main_loop io fires evs s = Some (Reset s')"
    "spec_run 0x40000 ?cs (programmer_of view (cls (s2_usb s))) t" "memory t = cells (chip_of view (s2_mach s'))"
    using session_then_reset [OF D Q s(1) _ _ evs(1) leave_resets] by blast
  from s'(2) obtain r where
    "spec_run 0x40000 (image_session er a img) ((programmer_of view (cls (s2_usb s)))\<lparr>reply := r\<rparr>) t"
    by (auto simp: spec_run_Cons)
  from image_session_run [OF this a] s'(1,3) s(2,3) show ?thesis by (simp add: s2_mach_def)
qed

section \<open>A chip for the witnesses\<close>

lemma tick_quiet: "irq_quiet view (\<lambda>d. (True, d))"
  by (simp add: irq_quiet_def)

lemma tick_fires: "irq_fires (\<lambda>d. (True, d)) (\<lambda>_. 0)"
  by (simp add: irq_fires_def)

lemma no_ctors: "\<exists>m'. Some m = Some m' \<and> chip_of view m' = chip_of view m"
  by simp

text \<open>Stage 2 just before its loop, in front of a chip full of zeros.\<close>

definition chip_stage2 :: "chip stage2" where
  "chip_stage2 = (stage2_reset_state demo_linked chip_mach)\<lparr>s2_usb :=
     usb_reset_state 0x20008400 0x20008440 ((dfu_init chip_mach)\<lparr>flash_end := 0x40000\<rparr>)\<rparr>"

lemma chip_stage2_simps [simp]:
  "cls (s2_usb chip_stage2) = (dfu_init chip_mach)\<lparr>flash_end := 0x40000\<rparr>" "s2_mach chip_stage2 = chip_mach"
  by (simp_all add: chip_stage2_def usb_reset_state_def s2_mach_def dfu_init_def)

lemma chip_stage2_inv: "loop_inv chip_bus (\<lambda>_. 0) chip_stage2"
proof -
  have "usb_ok (dfu_ready chip_bus (\<lambda>_. 0)) (s2_usb chip_stage2)"
    unfolding chip_stage2_def
    by (simp add: usb_ok_reset dfu_ready_def device_drains [OF chip_device] dfu_init_def)
  then show ?thesis by (simp add: loop_inv_def dfu_inv_def dfu_coherent_def dfu_init_def)
qed

text \<open>The enumeration of the device; a timer interrupt before each turn.\<close>

definition enumerate_evs :: "usb_event list" where
  "enumerate_evs = [Ev_reset, Ev_setup \<lparr>bmRequestType = 0x80, bRequest = 6, wValue = 0x100, wIndex = 0, wLength = 18\<rparr>,
     Ev_in, Ev_setup \<lparr>bmRequestType = 0, bRequest = 5, wValue = 7, wIndex = 0, wLength = 0\<rparr>, Ev_in]"

lemma enumerate_evs_ok: "list_all chatter enumerate_evs"
  by (simp add: enumerate_evs_def chatter_def asks_reset_def)

abbreviation timed :: "usb_event list \<Rightarrow> (nat \<times> usb_event) list" where
  "timed evs \<equiv> map (Pair 1) evs"

lemma timed_events: "map snd (timed evs) = evs"
  by (simp add: o_def)

section \<open>Properties\<close>

text \<open>C1: the polling loop refines the device the host has in mind. From every state the loop can be
  in, on a controller that behaves as documented, a host may send any sequence of commands (move
  the address pointer, erase a sector, a block within the flash or beyond its end, an unknown
  command), each with its data packets, its status stage and two GETSTATUS requests, and any other
  traffic without a data stage in between, with any number of timer interrupts and LED blinks
  between two packets: the loop handles all of it, and address pointer, flash array and the status
  and state it reports after each command go through the steps of the abstract programmer
  \<open>spec_run\<close>, which says what is stored, what is refused and what nothing else touches.\<close>

theorem session_refines_programmer:
  assumes "fmc_device io view over f" and "irq_quiet view fires"
    and "loop_inv io f s" and "chip_idle (chip_of view (s2_mach s))"
    and "cmds_ok (dfu_address (cls (s2_usb s))) cs" and "map snd evs = session_events cs"
  shows "\<exists>s'. main_loop io fires evs s = Some (Running s') \<and>
    spec_run 0x40000 cs (programmer_of view (cls (s2_usb s))) (programmer_of view (cls (s2_usb s')))"
  using session_loop [OF assms] by blast

theorem session_refines_programmer_witness:
  "\<exists>s'. main_loop chip_bus (\<lambda>d. (True, d))
      (timed (session_events [Chat enumerate_evs, Erase 0x5000, Point 0x4000, Program 3 [1, 2, 3], Program 100 [4]]))
      chip_stage2 = Some (Running s') \<and> dfu_address (cls (s2_usb s')) = 0x4000 \<and>
    cells (dev (s2_mach s')) 0x5001 = 2 \<and> cells (dev (s2_mach s')) 0x5100 = 0x39 \<and>
    status (cls (s2_usb s')) = DFU_STATUS_ERR_ADDRESS"
proof -
  let ?cs = "[Chat enumerate_evs, Erase 0x5000, Point 0x4000, Program 3 [1, 2, 3], Program 100 [4]]"
  have ok: "cmds_ok (dfu_address (cls (s2_usb chip_stage2))) ?cs"
    by (simp add: DFU_TRANSFER_SIZE_def block_at_def enumerate_evs_ok)
  obtain s' where s': "main_loop chip_bus (\<lambda>d. (True, d)) (timed (session_events ?cs)) chip_stage2 = Some (Running s')"
    "spec_run 0x40000 ?cs (programmer_of (\<lambda>c. c) (cls (s2_usb chip_stage2))) (programmer_of (\<lambda>c. c) (cls (s2_usb s')))"
    using session_refines_programmer [OF chip_device tick_quiet chip_stage2_inv _ ok timed_events] by auto
  obtain tail where "length ([1, 2, 3] @ tail) = 256"
    and c: "dfu_address (cls (s2_usb s')) = 0x4000" "status (cls (s2_usb s')) = DFU_STATUS_ERR_ADDRESS"
      "cells (dev (s2_mach s')) = put 0x5000 ([1, 2, 3] @ tail) (erase_span 0x5000 4096 (\<lambda>_. 0))"
    using s'(2) by (auto simp: spec_run_Cons erase_effect_def Let_def block_at_def replied_def programmer_of_def
      s2_mach_def dfu_init_def simp del: append.simps)
  then have "cells (dev (s2_mach s')) 0x5001 = 2" "cells (dev (s2_mach s')) 0x5100 = 0x39"
    by (simp_all add: c(3) put_def erase_span_def pat_def byte32_def ERASED_def)
  with s'(1) c(1,2) show ?thesis by blast
qed

text \<open>C2: a download, from the entry of stage 2 to the reset that ends it. On a board with a documented
  flash controller, a timer that fires and global constructors that leave the flash alone, stage 2
  initialises itself, and a host may enumerate it, download an image to any sector below the end of
  the flash (with or without erasing each block's sector first), move the pointer back and leave with
  the zero-length DNLOAD: the chip is reset, the flash holds the image byte for byte, and nothing
  below the image has changed, so a boot loader below it survives; nor has anything behind its last
  sector, unless the host erased.\<close>

theorem image_programmed:
  assumes "fmc_device io view over f" and "irq_fires fires f'" and "irq_quiet view fires"
    and "\<And>m. \<exists>m'. ctors m = Some m' \<and> chip_of view m' = chip_of view m"
    and "section_sizes (lk_sections l) (4 * n) (4 * k)"
    and "chip_idle (chip_of view m)"
    and "unat a mod 4096 = 0" and "unat a + 4096 * ((length img + 4095) div 4096) \<le> 0x40000"
    and "map snd evs = session_events (Chat pre # image_session er a img) @ [Ev_setup (dnload_req N 0)]"
    and "list_all chatter pre"
  shows "\<exists>s'. stage2_cpp_entry io fires ctors l evs m = Some (Reset s') \<and>
    (\<forall>i < length img. cells (chip_of view (s2_mach s')) (unat a + i) = img ! i) \<and>
    (\<forall>i. i < unat a \<or> \<not> er \<and> unat a + 4096 * ((length img + 4095) div 4096) \<le> i \<longrightarrow>
       cells (chip_of view (s2_mach s')) i = cells (chip_of view m) i)"
  using session_image_stored [OF assms] .

theorem image_programmed_witness:
  "\<exists>s'. stage2_cpp_entry chip_bus (\<lambda>d. (True, d)) Some demo_linked
      (timed (session_events (Chat enumerate_evs # image_session True 0x4000 (replicate 5000 7)) @ [Ev_setup (dnload_req 2 0)]))
      chip_mach = Some (Reset s') \<and>
    cells (dev (s2_mach s')) (0x4000 + 4999) = 7 \<and> cells (dev (s2_mach s')) 0x3FFF = 0"
proof -
  have "\<exists>s'. stage2_cpp_entry chip_bus (\<lambda>d. (True, d)) Some demo_linked
      (timed (session_events (Chat enumerate_evs # image_session True 0x4000 (replicate 5000 7)) @ [Ev_setup (dnload_req 2 0)]))
      chip_mach = Some (Reset s') \<and>
    (\<forall>i < length (replicate 5000 (7 :: u8)). cells (dev (s2_mach s')) (unat (0x4000 :: u32) + i) = replicate 5000 7 ! i) \<and>
    (\<forall>i. i < unat (0x4000 :: u32) \<or> \<not> True \<and>
        unat (0x4000 :: u32) + 4096 * ((length (replicate 5000 (7 :: u8)) + 4095) div 4096) \<le> i \<longrightarrow>
       cells (dev (s2_mach s')) i = cells (dev chip_mach) i)"
    by (rule image_programmed [OF chip_device tick_fires tick_quiet no_ctors demo_linked_sizes _ _ _ timed_events
      enumerate_evs_ok]) simp_all
  then obtain s' where s': "stage2_cpp_entry chip_bus (\<lambda>d. (True, d)) Some demo_linked
      (timed (session_events (Chat enumerate_evs # image_session True 0x4000 (replicate 5000 7)) @ [Ev_setup (dnload_req 2 0)]))
      chip_mach = Some (Reset s')"
    "\<forall>i < 5000. cells (dev (s2_mach s')) (0x4000 + i) = 7" "\<forall>i < 0x4000. cells (dev (s2_mach s')) i = 0"
    by auto
  from spec [OF s'(2), of 4999] spec [OF s'(3), of "0x3FFF"] s'(1) show ?thesis by auto
qed

section \<open>Sessions that are cut off\<close>

text \<open>C4: commands are carried out as a whole or not at all. If the host, the cable or the power gives up
  after any packet of a session, from the entry of stage 2 on, then the flash holds what a number of
  the session's commands, from the first on, would have left: a command whose data has arrived only
  in part has changed nothing, and one whose status has not been fetched has been carried out.
  Whatever lies below every address the commands aim at is as it was.\<close>

theorem commands_all_or_nothing:
  assumes "fmc_device io view over f" and "irq_fires fires f'" and "irq_quiet view fires"
    and "\<And>m. \<exists>m'. ctors m = Some m' \<and> chip_of view m' = chip_of view m"
    and "section_sizes (lk_sections l) (4 * n) (4 * k)"
    and "chip_idle (chip_of view m)"
    and "cmds_ok 0 cs" and "prefix (map snd evs) (session_events cs)" and "cmds_from lo 0 cs"
  shows "\<exists>s' j t. stage2_cpp_entry io fires ctors l evs m = Some (Running s') \<and>
    spec_run 0x40000 (take j cs) (programmer_start (cells (chip_of view m))) t \<and>
    cells (chip_of view (s2_mach s')) = memory t \<and>
    (\<forall>i < lo. cells (chip_of view (s2_mach s')) i = cells (chip_of view m) i)"
proof -
  obtain s' cs' t where s': "stage2_cpp_entry io fires ctors l evs m = Some (Running s')" "prefix cs' cs"
    "spec_run 0x40000 cs' (programmer_start (cells (chip_of view m))) t"
    "memory t = cells (chip_of view (s2_mach s'))"
    using entry_cut [OF assms(1-8)] by blast
  have "\<forall>i < lo. memory t i = cells (chip_of view m) i"
    using spec_run_below [OF s'(3)] cmds_from_prefix [OF s'(2) assms(9)] by simp
  moreover have "take (length cs') cs = cs'" using s'(2) by (auto elim: prefixE)
  ultimately show ?thesis using s'(1,3,4) by metis
qed

theorem commands_all_or_nothing_witness:
  "\<exists>s'. stage2_cpp_entry chip_bus (\<lambda>d. (True, d)) Some demo_linked
      (timed (take 20 (session_events [Chat enumerate_evs, Point 0x4000, Program 2 (replicate 1000 7)]))) chip_mach =
      Some (Running s') \<and> cells (dev (s2_mach s')) 0x3FFF = 0"
proof -
  let ?cs = "[Chat enumerate_evs, Point 0x4000, Program 2 (replicate 1000 7)]"
  have ok: "cmds_ok 0 ?cs" by (simp add: enumerate_evs_ok DFU_TRANSFER_SIZE_def block_at_def)
  have from_4000: "cmds_from 0x4000 0 ?cs" by (simp add: block_at_def)
  have cut: "prefix (map snd (timed (take 20 (session_events ?cs)))) (session_events ?cs)"
    unfolding timed_events by (rule take_is_prefix)
  have idle: "chip_idle (dev chip_mach)" by simp
  from commands_all_or_nothing [OF chip_device tick_fires tick_quiet no_ctors demo_linked_sizes idle ok cut from_4000]
  obtain s' where "stage2_cpp_entry chip_bus (\<lambda>d. (True, d)) Some demo_linked (timed (take 20 (session_events ?cs)))
      chip_mach = Some (Running s')" "\<forall>i < 0x4000. cells (dev (s2_mach s')) i = cells (dev chip_mach) i"
    by blast
  from spec [OF this(2), of "0x3FFF"] this(1) show ?thesis by auto
qed

text \<open>C5: a download that is cut off can be repeated. Whatever packet of the download of an image is the
  last before the power fails, everything below the image is intact, a boot loader among it; and when
  stage 2 is entered again on a flash with the content the failure left, a complete download of the
  same or another image succeeds, and still nothing below the image has changed.\<close>

theorem interrupted_download_repeated:
  assumes "fmc_device io view over f" and "irq_fires fires f'" and "irq_quiet view fires"
    and "\<And>m. \<exists>m'. ctors m = Some m' \<and> chip_of view m' = chip_of view m"
    and "section_sizes (lk_sections l) (4 * n) (4 * k)"
    and "chip_idle (chip_of view m)" and "unat a mod 4096 = 0"
    and "unat a + 4096 * ((length img + 4095) div 4096) \<le> 0x40000"
    and "unat a + 4096 * ((length img' + 4095) div 4096) \<le> 0x40000"
    and "list_all chatter pre" and "list_all chatter pre'"
    and "prefix (map snd evs) (session_events (Chat pre # image_session er a img))"
    and "map snd evs' = session_events (Chat pre' # image_session er' a img') @ [Ev_setup (dnload_req N 0)]"
  shows "\<exists>s'. stage2_cpp_entry io fires ctors l evs m = Some (Running s') \<and>
    (\<forall>i < unat a. cells (chip_of view (s2_mach s')) i = cells (chip_of view m) i) \<and>
    (\<forall>m2. chip_idle (chip_of view m2) \<and> cells (chip_of view m2) = cells (chip_of view (s2_mach s')) \<longrightarrow>
      (\<exists>s2. stage2_cpp_entry io fires ctors l evs' m2 = Some (Reset s2) \<and>
        (\<forall>i < length img'. cells (chip_of view (s2_mach s2)) (unat a + i) = img' ! i) \<and>
        (\<forall>i < unat a. cells (chip_of view (s2_mach s2)) i = cells (chip_of view m) i)))"
proof -
  let ?cs = "Chat pre # image_session er a img"
  have top: "unat a + 4096 * ((length img + 4095) div 4096) \<le> 2 ^ 27" using assms(8) by simp
  have ok: "cmds_ok 0 ?cs" using image_session_ok [OF assms(7) top] assms(10) by simp
  have above: "cmds_from (unat a) 0 ?cs" using image_session_from [OF assms(7) top] by simp
  obtain s' cs' t where s': "stage2_cpp_entry io fires ctors l evs m = Some (Running s')" "prefix cs' ?cs"
    "spec_run 0x40000 cs' (programmer_start (cells (chip_of view m))) t"
    "memory t = cells (chip_of view (s2_mach s'))"
    using entry_cut [OF assms(1-6) ok assms(12)] by blast
  have low: "\<forall>i < unat a. cells (chip_of view (s2_mach s')) i = cells (chip_of view m) i"
    using spec_run_below [OF s'(3)] cmds_from_prefix [OF s'(2) above] s'(4) by simp
  have again: "\<exists>s2. stage2_cpp_entry io fires ctors l evs' m2 = Some (Reset s2) \<and>
      (\<forall>i < length img'. cells (chip_of view (s2_mach s2)) (unat a + i) = img' ! i) \<and>
      (\<forall>i < unat a. cells (chip_of view (s2_mach s2)) i = cells (chip_of view m) i)"
    if m2: "chip_idle (chip_of view m2)" "cells (chip_of view m2) = cells (chip_of view (s2_mach s'))" for m2
    using session_image_stored [OF assms(1-5) m2(1) assms(7,9,13,11)] low m2(2) by auto
  from s'(1) low again show ?thesis by blast
qed

theorem interrupted_download_repeated_witness:
  "\<exists>s' s2. stage2_cpp_entry chip_bus (\<lambda>d. (True, d)) Some demo_linked
      (timed (take 99 (session_events (Chat enumerate_evs # image_session True 0x4000 (replicate 5000 7))))) chip_mach =
      Some (Running s') \<and>
    stage2_cpp_entry chip_bus (\<lambda>d. (True, d)) Some demo_linked
      (timed (session_events (Chat enumerate_evs # image_session True 0x4000 (replicate 5000 9)) @ [Ev_setup (dnload_req 2 0)]))
      (chip_mach\<lparr>dev := reset_chip\<lparr>cells := cells (dev (s2_mach s'))\<rparr>\<rparr>) = Some (Reset s2) \<and>
    cells (dev (s2_mach s2)) 0x4001 = 9 \<and> cells (dev (s2_mach s2)) 0x3FFF = 0"
proof -
  let ?cs = "Chat enumerate_evs # image_session True 0x4000 (replicate 5000 (7 :: u8))"
  have idle: "chip_idle (dev chip_mach)" by simp
  have cut: "prefix (map snd (timed (take 99 (session_events ?cs)))) (session_events ?cs)"
    unfolding timed_events by (rule take_is_prefix)
  from interrupted_download_repeated [OF chip_device tick_fires tick_quiet no_ctors demo_linked_sizes idle _ _ _
      enumerate_evs_ok enumerate_evs_ok cut timed_events, of "replicate 5000 9" True 2]
  obtain s' where s': "stage2_cpp_entry chip_bus (\<lambda>d. (True, d)) Some demo_linked (timed (take 99 (session_events ?cs)))
      chip_mach = Some (Running s')"
    and again: "\<And>m2. chip_idle (dev m2) \<Longrightarrow> cells (dev m2) = cells (dev (s2_mach s')) \<Longrightarrow>
      \<exists>s2. stage2_cpp_entry chip_bus (\<lambda>d. (True, d)) Some demo_linked
        (timed (session_events (Chat enumerate_evs # image_session True 0x4000 (replicate 5000 9)) @ [Ev_setup (dnload_req 2 0)]))
        m2 = Some (Reset s2) \<and>
      (\<forall>i < 5000. cells (dev (s2_mach s2)) (0x4000 + i) = replicate 5000 (9 :: u8) ! i) \<and>
      (\<forall>i < 0x4000. cells (dev (s2_mach s2)) i = cells (dev chip_mach) i)"
    by auto
  have "chip_idle (dev (chip_mach\<lparr>dev := reset_chip\<lparr>cells := cells (dev (s2_mach s'))\<rparr>\<rparr>))"
    by (simp add: reset_chip_def chip_idle_def)
  from again [OF this] obtain s2 where s2: "stage2_cpp_entry chip_bus (\<lambda>d. (True, d)) Some demo_linked
        (timed (session_events (Chat enumerate_evs # image_session True 0x4000 (replicate 5000 9)) @ [Ev_setup (dnload_req 2 0)]))
        (chip_mach\<lparr>dev := reset_chip\<lparr>cells := cells (dev (s2_mach s'))\<rparr>\<rparr>) = Some (Reset s2)"
    "\<forall>i < 5000. cells (dev (s2_mach s2)) (0x4000 + i) = replicate 5000 (9 :: u8) ! i"
    "\<forall>i < 0x4000. cells (dev (s2_mach s2)) i = cells (dev chip_mach) i"
    by auto
  from spec [OF s2(2), of 1] spec [OF s2(3), of "0x3FFF"] s2(1) s' show ?thesis by auto
qed

end
