(* ===== verification/Boot_Props.thy ===== *)
theory Boot_Props
  imports Boot_Chain Session_Props
begin

text \<open>
  The property that spans both stages: from the reset vector of stage 1 into stage 2, over a download,
  to the application. With it, what makes an image valid for stage 1, and a device that has the
  registers of the board and the flash controller, for the witness.
\<close>

section \<open>An image and the check of stage 1\<close>

definition img32 :: "u8 list \<Rightarrow> nat \<Rightarrow> u32" where
  "img32 img k = le32 (img ! k) (img ! (k + 1)) (img ! (k + 2)) (img ! (k + 3))"

text \<open>The header of an image: size at 4, checksum at 8, the code from 12 on (README, main.cpp).\<close>

definition image_valid :: "(u32 \<Rightarrow> u32 \<Rightarrow> u32) \<Rightarrow> u8 list \<Rightarrow> bool" where
  "image_valid step img \<longleftrightarrow> 12 \<le> length img \<and>
     (let size = img32 img 4; sum = img32 img 8
      in 0 < size \<and> size < 256 * 1024 \<and>
         (size = 0x1234 \<and> sum = 0x5678 \<or>
          12 + 4 * (unat size div 4) \<le> length img \<and>
          checksum_of step (map (\<lambda>i. img32 img (12 + 4 * i)) [0 ..< unat size div 4]) = sum))"

lemma app_word:
  assumes "\<And>i. i < length img \<Longrightarrow> flash8 io m (APP_ADDRESS + of_nat i) = img ! i"
    and "length img \<le> 2 ^ 27" and "k + 4 \<le> length img"
  shows "ld32 io m (APP_ADDRESS + of_nat k) = img32 img k"
proof -
  have b: "ld8 io m (APP_ADDRESS + of_nat i) = img ! i" if "i < length img" for i
  proof -
    have "unat (APP_ADDRESS + of_nat i) = unat APP_ADDRESS + i"
      using that assms(2) by (intro unat_plus_nat) (simp add: APP_ADDRESS_def FLASH_BOOTLDR_SIZE_KB_def)
    then have "\<not> in_ram (APP_ADDRESS + of_nat i)"
      using that assms(2) by (simp add: in_ram_def word_le_nat_alt APP_ADDRESS_def FLASH_BOOTLDR_SIZE_KB_def)
    with assms(1) [OF that] show ?thesis by (simp add: ld8_def)
  qed
  have "ld8 io m (APP_ADDRESS + of_nat k + of_nat j) = img ! (k + j)" if "j < 4" for j
    using b [of "k + j"] that assms(3) by (simp add: add.assoc)
  from this [of 0] this [of 1] this [of 2] this [of 3] show ?thesis by (simp add: ld32_def img32_def)
qed

lemma app_ok_image:
  assumes img: "\<And>i. i < length img \<Longrightarrow> flash8 io m (APP_ADDRESS + of_nat i) = img ! i"
    and len: "length img \<le> 2 ^ 27" and v: "image_valid step img"
  shows "app_ok io step m"
proof -
  have w: "ld32 io m (APP_ADDRESS + of_nat k) = img32 img k" if "k + 4 \<le> length img" for k
    using img len that by (rule app_word)
  from v have "12 \<le> length img" by (simp add: image_valid_def)
  then have hdr: "ld32 io m (APP_ADDRESS + 4) = img32 img 4" "ld32 io m (APP_ADDRESS + 8) = img32 img 8"
    using w [of 4] w [of 8] by simp_all
  have "words_at io m (APP_ADDRESS + 12) n = map (\<lambda>i. img32 img (12 + 4 * i)) [0 ..< n]"
    if "12 + 4 * n \<le> length img" for n
    unfolding words_at_def
  proof (rule map_cong [OF refl])
    fix i assume "i \<in> set [0 ..< n]"
    with that have "12 + 4 * i + 4 \<le> length img" by simp
    from w [OF this] show "ld32 io m (APP_ADDRESS + 12 + of_nat (4 * i)) = img32 img (12 + 4 * i)"
      by (simp add: add.assoc)
  qed
  with v show ?thesis by (auto simp: app_ok_def image_valid_def hdr Let_def)
qed

section \<open>An image that was downloaded\<close>

text \<open>An image that was downloaded is started. If a valid image (header, size and checksum as
  stage 1 wants them) of at most 240 KB is downloaded to the application's address as above, and
  after the reset the flash holds what the controller held, then on a working board with the DFU pin
  high and no reboot request stage 1 starts the application.\<close>

lemma downloaded_image_boots:
  assumes "fmc_device io view over f" and "irq_fires fires f'" and "irq_quiet view fires"
    and "\<And>m. \<exists>m'. ctors m = Some m' \<and> chip_of view m' = chip_of view m"
    and "section_sizes (lk_sections l) (4 * n) (4 * k)"
    and "chip_idle (chip_of view m)"
    and "image_valid step img" and "length img \<le> 240 * 1024"
    and "map snd evs = session_events (Chat pre # image_session er APP_ADDRESS img) @ [Ev_setup (dnload_req N 0)]"
    and "list_all chatter pre"
    and "stage2_cpp_entry io fires ctors l evs m = Some out"
    and "board_ok io' cfg C step True" and "\<not> rebooted_into_dfu io' m'"
    and "\<And>a. unat a < 2 ^ 27 \<Longrightarrow>
      flash8 io' m' a = cells (chip_of view (s2_mach (outcome_state out))) (unat a)"
  shows "\<exists>m''. stage1_main io' payload g m' = Some (chain_to APP_ADDRESS, m'')"
proof -
  have app: "unat APP_ADDRESS = 0x4000" by (simp add: APP_ADDRESS_def FLASH_BOOTLDR_SIZE_KB_def)
  have "(length img + 4095) div 4096 \<le> 60" using assms(8) by simp
  then have fit: "unat APP_ADDRESS + 4096 * ((length img + 4095) div 4096) \<le> 0x40000" by (simp add: app)
  obtain s' where s': "out = Reset s'"
    "\<forall>i < length img. cells (chip_of view (s2_mach s')) (unat APP_ADDRESS + i) = img ! i"
    using session_image_stored [OF assms(1-6) _ fit assms(9,10)] assms(11) app by auto
  have "flash8 io' m' (APP_ADDRESS + of_nat i) = img ! i" if "i < length img" for i
  proof -
    have "unat (APP_ADDRESS + of_nat i) = unat APP_ADDRESS + i"
      using that assms(8) by (intro unat_plus_nat) (simp add: app)
    then show ?thesis using s' assms(8,14) that app by simp
  qed
  from app_ok_image [OF this _ assms(7)] assms(8) have "app_ok io' step m'" by simp
  with stage1_main_spec [OF assms(12), of payload g m'] assms(13) show ?thesis
    by (auto simp: boots_app_def)
qed

text \<open>An image of twelve bytes, the marker that it has no checksum.\<close>

definition small_image :: "u8 list" where
  "small_image = [0, 0, 0, 0, 0x34, 0x12, 0, 0, 0x78, 0x56, 0, 0]"

lemma small_image_valid: "image_valid step small_image"
  by (simp add: image_valid_def small_image_def img32_def le32_def)

lemma downloaded_image_boots_witness:
  "\<exists>s' m'. stage2_cpp_entry chip_bus (\<lambda>d. (True, d)) Some demo_linked
      (timed (session_events (Chat enumerate_evs # image_session True APP_ADDRESS small_image) @ [Ev_setup (dnload_req 2 0)]))
      chip_mach = Some (Reset s') \<and>
    stage1_main (board_with (\<lambda>a. cells (dev (s2_mach s')) (unat a))) [1, 2] clocks_reset board_mach =
      Some (\<lparr>entry_pc = 0x4000, entry_sp = 0x20010000\<rparr>, m')"
proof -
  have app: "APP_ADDRESS = 0x4000" by (simp add: APP_ADDRESS_def FLASH_BOOTLDR_SIZE_KB_def)
  let ?evs = "timed (session_events (Chat enumerate_evs # image_session True APP_ADDRESS small_image) @ [Ev_setup (dnload_req 2 0)])"
  have idle: "chip_idle (dev chip_mach)" by simp
  have fit: "unat APP_ADDRESS mod 4096 = 0" "unat APP_ADDRESS + 4096 * ((length small_image + 4095) div 4096) \<le> 0x40000"
    by (simp_all add: app small_image_def)
  obtain s' where s': "stage2_cpp_entry chip_bus (\<lambda>d. (True, d)) Some demo_linked ?evs chip_mach = Some (Reset s')"
    using session_image_stored [OF chip_device tick_fires tick_quiet no_ctors demo_linked_sizes idle fit timed_events
      enumerate_evs_ok] by blast
  let ?io = "board_with (\<lambda>a. cells (dev (s2_mach s')) (unat a))"
  have "\<not> rebooted_into_dfu ?io board_mach"
    by (simp add: rebooted_into_dfu_def ld64_def ld32_def ld8_def le32_def in_ram_def board_mach_def
      RAM_START_ADDR_def BOOT_TO_DFU_MARKER_def)
  from downloaded_image_boots [OF chip_device tick_fires tick_quiet no_ctors demo_linked_sizes idle small_image_valid _
      timed_events enumerate_evs_ok s' board_with_ok this, of "[1, 2]" clocks_reset]
  show ?thesis using s' by (auto simp: flash8_def board_with_def chain_to_def app small_image_def)
qed

section \<open>From power-up to the application\<close>

text \<open>A device with both, the registers of the board and the flash controller, for the witness.\<close>

definition joint_bus :: "(chip \<times> u32 \<times> u32) bus" where
  "joint_bus = \<lparr>
     bus_rd32 = \<lambda>a (c, b).
       (if a = FMC_STAT then stat_of c else if a = FMC_CTL then ctl c
        else fst (bus_rd32 (board_with (\<lambda>_. 0)) a b), (c, b)),
     bus_wr32 = \<lambda>a v (c, b). (chip_wr (\<lambda>x w. x AND w) a v c, bus_wr32 (board_with (\<lambda>_. 0)) a v b),
     bus_mem8 = \<lambda>(c, b) a. cells c (off a)\<rparr>"

lemma joint_device: "fmc_device joint_bus fst (\<lambda>x w. x AND w) (\<lambda>_. 0)"
proof -
  have chip: "\<And>d. stat_of d AND NOT (FMC_STAT_BUSY OR FMC_STAT_WR_BUSY) = stat_of d"
    "\<And>d. stat_of d AND (FMC_STAT_BUSY OR FMC_STAT_WR_BUSY) = 0"
    using chip_device by (auto simp: fmc_device_def fmc_drains_def chip_bus_def)
  then show ?thesis
    by (auto simp: fmc_device_def fmc_drains_def joint_bus_def split: prod.split)
qed

lemma joint_addr_neq [simp]:
  "RCU_CFG0 \<noteq> FMC_STAT" "RCU_CFG0 \<noteq> FMC_CTL" "RCU_CTL \<noteq> FMC_STAT" "RCU_CTL \<noteq> FMC_CTL"
  "CRC_DATA \<noteq> FMC_STAT" "CRC_DATA \<noteq> FMC_CTL"
  "gpioPort 1 + GPIO_INDR \<noteq> FMC_STAT" "gpioPort 1 + GPIO_INDR \<noteq> FMC_CTL"
  by (simp_all add: CRC_DATA_def CH32_CRC32_ADDR_def rcu_addr_defs gpioPort_def LN_GPIOA_ADR_def
    GPIO_INDR_def FMC_STAT_def FMC_CTL_def FMC_BASE_def)

lemma joint_ok: "board_ok joint_bus (\<lambda>d. fst (snd d) AND NOT SWS_BITS) (\<lambda>d. snd (snd d)) (\<lambda>a w. a XOR w) True"
proof -
  have regs: "clock_regs joint_bus (\<lambda>d. fst (snd d) AND NOT SWS_BITS)"
    by (auto simp: clock_regs_def joint_bus_def board_with_def and.assoc split: prod.split)
  have plain: "cells (chip_wr over a v c) = cells c" if "plain_reg a" for over a v c
    using that by (auto simp: chip_wr_def plain_reg_def)
  have quiet: "flash_quiet joint_bus"
    by (auto simp: flash_quiet_def joint_bus_def plain split: prod.split)
  have crc: "crc_unit joint_bus (\<lambda>d. snd (snd d)) (\<lambda>a w. a XOR w)"
    by (auto simp: crc_unit_def joint_bus_def board_with_def split: prod.split)
  have pin: "dfu_pin_level joint_bus True"
    by (auto simp: dfu_pin_level_def joint_bus_def board_with_def bit_not_iff split: prod.split)
  have up: "comes_up joint_bus RCU_CTL (\<lambda>v. flag_set v b)" if "b \<noteq> 0" for b
    using that by (auto simp: comes_up_def becomes_ready_def joint_bus_def board_with_def split: prod.split_asm)
  have sws: "comes_up joint_bus RCC_CFGR0 (\<lambda>v. v AND 0xC = 0)"
    by (auto simp: comes_up_def becomes_ready_def joint_bus_def board_with_def SWS_BITS_def and.assoc
      split: prod.split_asm)
  show ?thesis using regs quiet crc pin sws by (simp add: board_ok_def up rcu_bit_defs)
qed

text \<open>A device as it leaves the factory.\<close>

definition new_mach :: "(chip \<times> u32 \<times> u32) mach" where
  "new_mach = \<lparr>csr = \<lambda>_. 0, ram = \<lambda>_. 0, dev = (reset_chip, 0, 0)\<rparr>"



end
