(* ===== verification/Flash_Errors.thy ===== *)
theory Flash_Errors
  imports Devices
begin

text \<open>
  Flash that refuses to change: write protection is set, and the controller ends every operation with
  an error flag. The driver sees the flag, and the DFU handlers report it to the host.
\<close>

section \<open>The controller\<close>

definition write_protected :: "'h bus \<Rightarrow> ('h \<Rightarrow> nat) \<Rightarrow> bool" where
  "write_protected io f \<longleftrightarrow> fmc_drains io f \<and>
     (\<forall>d. flag_set (fst (bus_rd32 io FMC_STAT d)) (FMC_STAT_PG_ERR OR FMC_STAT_WP_ERR)) \<and>
     (\<forall>a d. bus_mem8 io (snd (bus_rd32 io a d)) = bus_mem8 io d) \<and>
     (\<forall>a v d. bus_mem8 io (bus_wr32 io a v d) = bus_mem8 io d)"

lemma flash8_csr [simp]: "flash8 io (csrs c w m) = flash8 io m" "flash8 io (csrc c w m) = flash8 io m"
  by (simp_all add: flash8_def csrs_def csrc_def fun_eq_iff)

lemma protected_view: "write_protected io f \<Longrightarrow> bus_view io (flash8 io) (\<lambda>_. True)"
  by unfold_locales (auto simp: write_protected_def flash8_def fun_eq_iff wr32_def dest!: rd32_dev)

lemmas protected_rd32 = bus_view.rd32_view [OF protected_view]
lemmas protected_access = bus_view.access_view [OF protected_view TrueI]

lemma protected_stat:
  "write_protected io f \<Longrightarrow> rd32 io FMC_STAT m = (v, m') \<Longrightarrow> flag_set v (FMC_STAT_PG_ERR OR FMC_STAT_WP_ERR)"
  by (auto simp: write_protected_def rd32_def split: prod.split_asm dest: spec [of _ "dev m"])

lemma protected_unlock:
  assumes P: "write_protected io f" shows "flash8 io (fmc_fast_unlock io m) = flash8 io m"
  by (simp add: fmc_fast_unlock_def Let_def split: prod.split)
    (auto simp: protected_access [OF P] dest!: protected_rd32 [OF P])

lemma protected_wait:
  assumes "write_protected io f"
  shows "fmc_wait_busy io m = Some m' \<Longrightarrow> flash8 io m' = flash8 io m"
    and "fmc_wait_wr_busy io m = Some m' \<Longrightarrow> flash8 io m' = flash8 io m"
proof -
  show "fmc_wait_busy io m = Some m' \<Longrightarrow> flash8 io m' = flash8 io m"
  proof (rule fmc_wait_busy.raw_induct [where
      P = "\<lambda>io m m'. write_protected io f \<longrightarrow> flash8 io m' = flash8 io m", THEN mp])
  qed (use assms in \<open>auto split: prod.split_asm if_split_asm dest: protected_rd32\<close>)
  show "fmc_wait_wr_busy io m = Some m' \<Longrightarrow> flash8 io m' = flash8 io m"
  proof (rule fmc_wait_wr_busy.raw_induct [where
      P = "\<lambda>io m m'. write_protected io f \<longrightarrow> flash8 io m' = flash8 io m", THEN mp])
  qed (use assms in \<open>auto split: prod.split_asm if_split_asm dest: protected_rd32\<close>)
qed

section \<open>The driver on it\<close>

lemma protected_status:
  assumes "write_protected io f" "rd32 io FMC_STAT m = (v, m')"
  shows "flash8 io m' = flash8 io m \<and> flag_set v (FMC_STAT_PG_ERR OR FMC_STAT_WP_ERR)"
  using protected_rd32 [OF assms] protected_stat [OF assms] by simp

lemma protected_erase_page:
  assumes P: "write_protected io f" and "fmc_erase_page io a m = Some (ok, m')"
  shows "\<not> ok \<and> flash8 io m' = flash8 io m"
  using assms(2)
  by (auto simp: fmc_erase_page_def Let_def protected_access [OF P] protected_unlock [OF P]
    elim!: AutoNoInterruptE bind_SomeE split: prod.split_asm if_split_asm
    dest!: protected_wait [OF P] protected_status [OF P])

lemma protected_erase_32k:
  assumes P: "write_protected io f" and "fmc_erase_32k io a m = Some (ok, m')"
  shows "\<not> ok \<and> flash8 io m' = flash8 io m"
  using assms(2)
  by (auto simp: fmc_erase_32k_def Let_def protected_access [OF P] protected_unlock [OF P]
    elim!: AutoNoInterruptE bind_SomeE split: prod.split_asm if_split_asm
    dest!: protected_wait [OF P] protected_status [OF P])

lemma protected_fill:
  assumes P: "write_protected io f"
  shows "fill_aligned io n p rd m = Some m' \<Longrightarrow> flash8 io m' = flash8 io m"
proof (induction n arbitrary: p rd m)
  case (Suc n)
  then show ?case
    by (auto simp: protected_access [OF P] elim!: bind_SomeE dest!: protected_wait [OF P])
qed simp

lemma protected_write_block:
  assumes P: "write_protected io f" and "fmc_write_block io a d m = Some (ok, m')"
  shows "\<not> ok \<and> flash8 io m' = flash8 io m"
  using assms(2)
  by (auto simp: fmc_write_block_def Let_def fill_unaligned_eq_aligned protected_access [OF P]
    elim!: AutoNoInterruptE bind_SomeE split: prod.split_asm if_split_asm
    dest!: protected_wait [OF P] protected_status [OF P] protected_fill [OF P])

text \<open>The operations the DFU handlers use: refused, with the flash as it was.\<close>

lemma protected_refuses:
  assumes P: "write_protected io f"
  shows "\<exists>m'. fmc_erase_page io a m = Some (False, m') \<and> flash8 io m' = flash8 io m"
    and "\<exists>m'. fmc_erase_32k io a m = Some (False, m') \<and> flash8 io m' = flash8 io m"
    and "0 < k \<Longrightarrow> \<exists>m'. fmc_erase_range io a k m = Some (False, m') \<and> flash8 io m' = flash8 io m"
    and "256 \<le> length (cp_bytes d) \<Longrightarrow> 0 < n \<Longrightarrow>
      \<exists>m'. fmc_write io a d n m = Some (False, m') \<and> flash8 io m' = flash8 io m"
proof -
  have D: "fmc_drains io f" using P by (simp add: write_protected_def)
  show page: "\<exists>m'. fmc_erase_page io a m = Some (False, m') \<and> flash8 io m' = flash8 io m" for a m
    using fmc_erase_page_returns [OF D, of a m] protected_erase_page [OF P, of a m] by fastforce
  show "\<exists>m'. fmc_erase_32k io a m = Some (False, m') \<and> flash8 io m' = flash8 io m"
    using fmc_erase_32k_returns [OF D, of a m] protected_erase_32k [OF P, of a m] by fastforce
  show "\<exists>m'. fmc_erase_range io a k m = Some (False, m') \<and> flash8 io m' = flash8 io m" if "0 < k"
  proof -
    have "0 < nat (k * 4)" using that by simp
    then obtain j where "nat (k * 4) = Suc j" by (metis gr0_implies_Suc)
    with page [of a m] show ?thesis by (auto simp: fmc_erase_range_def)
  qed
  show "\<exists>m'. fmc_write io a d n m = Some (False, m') \<and> flash8 io m' = flash8 io m"
    if "256 \<le> length (cp_bytes d)" "0 < n"
  proof -
    let ?m = "fmc_fast_unlock io m"
    from fmc_write_block_returns [OF D that(1), of a ?m]
    obtain ok m' where w: "fmc_write_block io a d ?m = Some (ok, m')" by fastforce
    with protected_write_block [OF P w] protected_unlock [OF P, of m] that(2) show ?thesis
      by (simp add: fmc_write_def write_blocks.simps [of io a d n ?m])
  qed
qed

section \<open>The DFU handlers on it\<close>

text \<open>A driver whose every change is refused, as an interface: no operation reports success, and none
  changes what the flash holds.\<close>

locale refusing_driver = flash_driver +
  assumes erase_page_refused: "\<exists>s'. erase_page fl a s = Some (False, s') \<and> content s' = content s"
    and erase_32k_refused: "\<exists>s'. erase_32k fl a s = Some (False, s') \<and> content s' = content s"
    and erase_range_refused: "0 < k \<Longrightarrow> \<exists>s'. erase_range fl a k s = Some (False, s') \<and> content s' = content s"
    and write_refused: "256 \<le> length (cp_bytes d) \<Longrightarrow> 0 < n \<Longrightarrow>
      \<exists>s'. flash_write fl a d n s = Some (False, s') \<and> content s' = content s"
    and led_content: "content (set_led fl b s) = content s"
begin

lemma erase_dirty_refused:
  "all_pages_erased fl a lim s = Some e \<Longrightarrow>
   (if e then erase_dirty_pages fl a lim s = Some (True, s)
    else \<exists>s'. erase_dirty_pages fl a lim s = Some (False, s') \<and> content s' = content s)"
proof (rule all_pages_erased.raw_induct [where
    P = "\<lambda>fl' a lim s e. fl' = fl \<longrightarrow> (if e then erase_dirty_pages fl a lim s = Some (True, s)
      else \<exists>s'. erase_dirty_pages fl a lim s = Some (False, s') \<and> content s' = content s)", THEN mp], intro impI)
  fix g fl' a lim s e
  assume IH: "\<And>fl' a lim s e. g fl' a lim s = Some e \<Longrightarrow> fl' = fl \<longrightarrow>
      (if e then erase_dirty_pages fl a lim s = Some (True, s)
       else \<exists>s'. erase_dirty_pages fl a lim s = Some (False, s') \<and> content s' = content s)"
    and run: "(if a < lim then if \<not> page_is_erased fl' a s then Some False
        else g fl' (a + of_nat FLASH_SECTOR_SIZE) lim s else Some True) = Some e"
    and fl': "fl' = fl"
  obtain s' where "erase_page fl a s = Some (False, s')" "content s' = content s"
    using erase_page_refused by blast
  with run fl' IH [of fl "a + of_nat FLASH_SECTOR_SIZE" lim s e]
  show "if e then erase_dirty_pages fl a lim s = Some (True, s)
      else \<exists>s'. erase_dirty_pages fl a lim s = Some (False, s') \<and> content s' = content s"
    by (simp add: erase_dirty_pages.simps [of fl a lim s] split: if_split_asm)
qed simp_all

lemma write_block_refused:
  assumes d: "wa = write_address (dfu_address d) (dfu_block_num d)" "\<not> wa + ucast len > flash_end d"
    and e: "all_pages_erased fl (page_base wa) (wa + ucast len) (plat d) = Some e"
    and buf: "256 \<le> length (cp_bytes data)" and len: "0 < len"
  shows "\<exists>s. dfu_write_block fl data len d =
      Some (dfu_fail (if e then DFU_STATUS_ERR_WRITE else DFU_STATUS_ERR_ERASE) (d\<lparr>plat := s\<rparr>)) \<and>
    content s = content (plat d)"
proof -
  have "0 < uint len" using len by (simp add: word_less_def)
  then obtain s where s: "flash_write fl wa data (uint len) (plat d) = Some (False, s)" "content s = content (plat d)"
    using write_refused [OF buf] by blast
  show ?thesis
  proof (cases e)
    case True
    with erase_dirty_refused [OF e] s d show ?thesis by (auto simp: dfu_write_block_def Let_def)
  next
    case False
    with erase_dirty_refused [OF e] d show ?thesis by (auto simp: dfu_write_block_def Let_def)
  qed
qed

lemma erase_command_refused:
  assumes "all_pages_erased fl (sector_base a) (sector_base a + of_nat DFU_SECTOR_SIZE) (set_led fl True (plat d)) = Some e"
  shows "\<exists>s. dfu_erase_command fl a d =
      Some (if e then d\<lparr>plat := s, status := DFU_STATUS_OK\<rparr> else dfu_fail DFU_STATUS_ERR_ERASE (d\<lparr>plat := s\<rparr>)) \<and>
    content s = content (plat d)"
proof -
  let ?s = "set_led fl True (plat d)" and ?b = "sector_base a"
  obtain s1 where "erase_32k fl ?b ?s = Some (False, s1)" "content s1 = content ?s"
    using erase_32k_refused by blast
  moreover have "0 < int DFU_SECTOR_SIZE_KB" by (simp add: DFU_SECTOR_SIZE_KB_def)
  then obtain s2 where "erase_range fl ?b (int DFU_SECTOR_SIZE_KB) ?s = Some (False, s2)" "content s2 = content ?s"
    using erase_range_refused by blast
  ultimately show ?thesis
    by (intro exI [of _ "set_led fl False (if e then ?s else if ?b mod 32768 = 0 then s1 else s2)"])
      (simp add: dfu_erase_command_def Let_def assms led_content dfu_fail_def)
qed

end

lemma protected_LED:
  "write_protected io f \<Longrightarrow> flash8 io (lnDigitalWrite io LED_PIN v m) = flash8 io m"
  by (simp add: lnDigitalWrite_def decode_pins Let_def protected_access)

lemma protected_driver: "write_protected io f \<Longrightarrow> refusing_driver (fmc_ops io) (flash8 io)"
  by unfold_locales (simp_all add: protected_refuses protected_LED)

lemma all_pages_erased_returns:
  assumes lim: "unat lim \<le> 2 ^ 32 - 256"
  shows "\<exists>e. all_pages_erased fl a lim s = Some e"
proof (induction "unat lim - unat a" arbitrary: a rule: less_induct)
  case less
  show ?case
  proof (cases "a < lim")
    case True
    then have "unat (a + of_nat FLASH_SECTOR_SIZE) = unat a + 256"
      using unat_step_below [OF True, of 256] lim by (simp add: FLASH_SECTOR_SIZE_def)
    with True have "\<exists>e. all_pages_erased fl (a + of_nat FLASH_SECTOR_SIZE) lim s = Some e"
      by (intro less) (simp add: word_less_nat_alt)
    then show ?thesis by (auto simp: all_pages_erased.simps [of fl a lim s])
  qed (auto simp: all_pages_erased.simps [of fl a lim s])
qed

text \<open>A board with nothing but a protected flash full of zeros.\<close>

definition locked_bus :: "unit bus" where
  "locked_bus = \<lparr>bus_rd32 = (\<lambda>a d. (if a = FMC_STAT then FMC_STAT_WP_ERR else 0, d)),
                 bus_wr32 = (\<lambda>a v d. d), bus_mem8 = (\<lambda>d a. 0)\<rparr>"

lemma locked_protected: "write_protected locked_bus (\<lambda>_. 0)"
  by (auto simp: write_protected_def fmc_drains_def locked_bus_def FMC_STAT_WP_ERR_def FMC_STAT_PG_ERR_def
    FMC_STAT_BUSY_def FMC_STAT_WR_BUSY_def)

interpretation locked: refusing_driver "fmc_ops locked_bus" "flash8 locked_bus"
  by (rule protected_driver [OF locked_protected])

section \<open>Properties\<close>



end
