(* ===== verification/Usb_Props.thy ===== *)
theory Usb_Props
  imports Usb_Dfu Devices
begin

text \<open>
  The properties of the USB driver and of the whole path from the bus to the flash: \<open>host_step\<close> is
  one event on the bus followed by one poll, \<open>dfu_class (fmc_ops io)\<close> the bootloader's own DFU
  handlers and flash driver behind the USB driver.
\<close>

text \<open>C9: No sequence of bus events makes the device fault or hang. After initialisation, every
  sequence of SETUP packets (with any content), IN tokens, OUT packets of at most 64 bytes, bus
  resets and suspends is handled; no access is outside a buffer, every busy wait ends, and the
  receive offset stays within the 4096-byte receive buffer.\<close>

theorem usb_never_faults:
  assumes "dfu_ready io f d" and "delay 30 (x, d) = Some (y, dd)" and "dfu_ready io f dd"
    and "list_all packet_sized evs"
  shows "\<exists>u0 u. usb_init delay (x, usb_reset_state a0 a1 d) = Some (y, u0) \<and>
    host_steps (dfu_class (fmc_ops io)) evs u0 = Some u \<and>
    length (ep0_buffer u) = EP0_MAX_PACKET \<and> length (dfu_rx_buffer u) = DFU_TRANSFER_SIZE \<and>
    unat (dfu_rx_offset u) \<le> DFU_TRANSFER_SIZE"
proof -
  have "usb_ok (dfu_ready io f) (usb_reset_state a0 a1 d)"
    by (rule usb_ok_reset) (rule assms(1))
  from usb_init_ok [OF this, of delay x y dd] assms(2,3) obtain u0 where
    "usb_init delay (x, usb_reset_state a0 a1 d) = Some (y, u0)" and "usb_ok (dfu_ready io f) u0"
    by (auto simp: usb_reset_state_def)
  with dfu_usb.host_steps_ok [OF this(2) assms(4)] show ?thesis
    by (auto dest: usb_okD)
qed

theorem usb_never_faults_witness:
  "\<exists>u0 u. usb_init (\<lambda>n p. Some p) ((), usb_reset_state 0x20001000 0x20002000 blank_dfu) = Some ((), u0) \<and>
    host_steps (dfu_class (fmc_ops blank_bus))
      [Ev_reset, Ev_setup \<lparr>bmRequestType = 0x21, bRequest = 1, wValue = 2, wIndex = 0, wLength = 65\<rparr>,
       Ev_out (replicate 64 7), Ev_out [7], Ev_in, Ev_suspend] u0 = Some u \<and>
    length (ep0_buffer u) = EP0_MAX_PACKET \<and> length (dfu_rx_buffer u) = DFU_TRANSFER_SIZE \<and>
    unat (dfu_rx_offset u) \<le> DFU_TRANSFER_SIZE"
  by (rule usb_never_faults [where f = "\<lambda>_. 0" and dd = blank_dfu])
    (simp_all add: dfu_ready_def blank_drains EP0_MAX_PACKET_def)

text \<open>C8: A download over USB programs the flash. A DNLOAD request for block \<open>N \<ge> 2\<close> followed by
  its data in 64-byte packets is handled completely, and if the device then reports status OK, the
  flash holds exactly these bytes at the address of the block: \<open>dfu_address + (N - 2) * 4096\<close>.\<close>

theorem usb_download_programs:
  assumes "usb_ok (dfu_ready io f) u"
    and "bmRequestType r = 0x21" and "bRequest r = DFU_DNLOAD" and "2 \<le> wValue r"
    and "unat (wLength r) = length bs" and "bs \<noteq> []" and "length bs \<le> DFU_TRANSFER_SIZE"
  shows "\<exists>u'. host_steps (dfu_class (fmc_ops io)) (Ev_setup r # map Ev_out (packets bs)) u = Some u' \<and>
    phase u' = CTRL_IDLE \<and>
    (status (cls u') = DFU_STATUS_OK \<longrightarrow>
      (\<forall>i < length bs. flash8 io (plat (cls u'))
         ((write_address (dfu_address (cls u)) (ucast (wValue r)) OR FLASH_ALIAS) + of_nat i) = bs ! i))"
proof -
  let ?d = "(cls u)\<lparr>dfu_block_num := ucast (wValue r), state := STATE_DFU_DNLOAD_SYNC,
                     status := DFU_STATUS_OK\<rparr>"
  from assms(5,6) have "wLength r \<noteq> 0" by auto
  with assms(3) have req: "cls_request (dfu_class (fmc_ops io)) r (cls u) = ((None, 0), ?d)"
    by (simp add: dfu_handle_request_simps)
  obtain u' b where run: "host_steps (dfu_class (fmc_ops io)) (Ev_setup r # map Ev_out (packets bs)) u = Some u'"
      "phase u' = CTRL_IDLE" "length b = DFU_TRANSFER_SIZE" "take (length bs) b = bs"
    and handled: "dfu_handle_data (fmc_ops io) \<lparr>cp_addr = dfu_rx_addr u, cp_bytes = b\<rparr> (wLength r) ?d
      = Some (cls u')"
    using dfu_usb.control_write [OF assms(1) _ _ assms(3,5,6,7) req] assms(2)
    by (auto simp: USB_DIR_IN_def)
  have "2 \<le> unat (ucast (wValue r) :: u32)" using assms(4) by (simp add: word_le_nat_alt)
  then have "2 \<le> (ucast (wValue r) :: u32)" by (simp add: word_le_nat_alt)
  then have block: "2 \<le> dfu_block_num ?d" "dfu_block_num ?d \<noteq> 0" by auto
  have "0 < wLength r" using \<open>wLength r \<noteq> 0\<close> by (simp add: word_neq_0_conv)
  have byte: "b ! i = bs ! i" if "i < length bs" for i
    using that run(4) by (metis nth_take)
  have "\<forall>i < length bs. flash8 io (plat (cls u'))
      ((write_address (dfu_address (cls u)) (ucast (wValue r)) OR FLASH_ALIAS) + of_nat i) = bs ! i"
    if ok: "status (cls u') = DFU_STATUS_OK"
  proof -
    have "dfu_write_block (fmc_ops io) \<lparr>cp_addr = dfu_rx_addr u, cp_bytes = b\<rparr> (wLength r) ?d
        = Some (cls u')"
      using handled block \<open>0 < wLength r\<close> by (simp add: dfu_handle_data_def)
    from fmc.dfu_write_block_programs [OF this ok] run(3) assms(5,7) byte show ?thesis by simp
  qed
  with run show ?thesis by blast
qed

theorem usb_download_programs_witness:
  "\<exists>u'. host_steps (dfu_class (fmc_ops blank_bus))
     (Ev_setup \<lparr>bmRequestType = 0x21, bRequest = DFU_DNLOAD, wValue = 2, wIndex = 0, wLength = 4\<rparr> #
      map Ev_out (packets [0x39, 0xE3, 0x39, 0xE3])) (usb_reset_state 0x20001000 0x20002000 blank_dfu)
     = Some u' \<and> phase u' = CTRL_IDLE"
proof -
  have "usb_ok (dfu_ready blank_bus (\<lambda>_. 0)) (usb_reset_state 0x20001000 0x20002000 blank_dfu)"
    by (rule usb_ok_reset) (simp add: dfu_ready_def blank_drains)
  from usb_download_programs [OF this, of "\<lparr>bmRequestType = 0x21, bRequest = DFU_DNLOAD, wValue = 2,
      wIndex = 0, wLength = 4\<rparr>" "[0x39, 0xE3, 0x39, 0xE3]"]
  show ?thesis by (auto simp: DFU_TRANSFER_SIZE_def)
qed

text \<open>C11: A GET_DESCRIPTOR request delivers the descriptor: the host reads, in 64-byte packets, the
  first \<open>wLength\<close> bytes of it, whatever the lengths, and the driver is idle afterwards.\<close>

theorem descriptor_read:
  assumes "usb_ok ok u" and "bmRequestType r = 0x80" and "bRequest r = USB_REQ_GET_DESCRIPTOR"
    and "wLength r \<noteq> 0" and "get_descriptor (wValue r) = Some (answer bs)" and "bs \<noteq> []"
  shows "\<exists>u1 u2. host_step k (Ev_setup r) u = Some u1 \<and>
    read_packets k ((min (length bs) (unat (wLength r)) + 63) div 64) u1 =
      Some (take (unat (wLength r)) bs, u2) \<and> phase u2 = CTRL_IDLE \<and> cls u2 = cls u"
proof -
  have "unat (of_nat (length bs) :: u16) = length bs"
    using get_descriptor_returns [of "wValue r"] assms(5) by (auto simp: answer_def valid_answer_def)
  moreover have "(setup_state r u)\<lparr>cls := cls u\<rparr> = setup_state r u" by simp
  then have "route_request k r (setup_state r u) =
      Some ((Some bs, of_nat (length bs)), (setup_state r u)\<lparr>cls := cls u\<rparr>)"
    using assms(2,3,5) by (simp add: route_standard handle_std_request_def answer_def
      USB_REQ_GET_DESCRIPTOR_def USB_REQ_SET_ADDRESS_def)
  ultimately show ?thesis
    using control_read [OF assms(1) _ assms(4), of k bs "of_nat (length bs)" "cls u"] assms(2,6)
    by (simp add: USB_DIR_IN_def min_def split: if_split_asm)
qed

theorem descriptor_read_witness:
  "\<exists>u1 u2. host_step (dfu_class (fmc_ops blank_bus)) (Ev_setup \<lparr>bmRequestType = 0x80, bRequest = USB_REQ_GET_DESCRIPTOR,
       wValue = 0x0304, wIndex = 0x0409, wLength = 255\<rparr>) (usb_reset_state 0 0 blank_dfu) = Some u1 \<and>
    read_packets (dfu_class (fmc_ops blank_bus)) 2 u1 = Some (the (string_descriptor STRIDX_DFUSE), u2) \<and> phase u2 = CTRL_IDLE"
proof -
  let ?r = "\<lparr>bmRequestType = 0x80, bRequest = USB_REQ_GET_DESCRIPTOR, wValue = 0x0304, wIndex = 0x0409,
             wLength = 255\<rparr>"
  obtain bs where bs: "string_descriptor STRIDX_DFUSE = Some bs"
    using string_descriptor_returns by blast
  have len: "length bs = 96"
    using bs by (simp add: string_descriptor_def string_for_def dfuse_string store_utf16_eq
      STRIDX_MFR_def STRIDX_PRODUCT_def STRIDX_SERIAL_def STRIDX_DFUSE_def SBUF_SIZE_def) auto
  have "get_descriptor (wValue ?r) = Some (answer bs)"
    using bs by (simp add: get_descriptor_def USB_DT_DEVICE_def USB_DT_CONFIG_def USB_DT_STRING_def
      STRIDX_DFUSE_def)
  then have "\<exists>u1 u2. host_step (dfu_class (fmc_ops blank_bus)) (Ev_setup ?r) (usb_reset_state 0 0 blank_dfu) = Some u1 \<and>
    read_packets (dfu_class (fmc_ops blank_bus)) ((min (length bs) (unat (wLength ?r)) + 63) div 64) u1 =
      Some (take (unat (wLength ?r)) bs, u2) \<and> phase u2 = CTRL_IDLE \<and>
      cls u2 = cls (usb_reset_state 0 0 blank_dfu)"
    using len by (intro descriptor_read [OF usb_ok_reset [where ok = "\<lambda>_. True"]]) auto
  moreover have "(min (length bs) (unat (wLength ?r)) + 63) div 64 = 2" "take (unat (wLength ?r)) bs = bs"
    using len by simp_all
  ultimately show ?thesis unfolding bs option.sel by metis
qed



text \<open>C17: SET_ADDRESS takes effect after its status stage: the address register is not written when
  the request is handled; an empty packet is armed, and when the host has fetched it the register
  gets the seven address bits.\<close>

theorem set_address_deferred:
  assumes "bmRequestType r = 0x00" and "bRequest r = USB_REQ_SET_ADDRESS" and "wLength r = 0"
  shows "\<exists>u1 u2. host_step k (Ev_setup r) u = Some u1 \<and> armed_packet u1 = [] \<and>
    addr_writes u1 = addr_writes u \<and> host_step k Ev_in u1 = Some u2 \<and> phase u2 = CTRL_IDLE \<and>
    addr_writes u2 = addr_writes u @ [ucast (ucast (wValue r AND 0x7F) :: u8)]"
  by (rule set_address_steps) (simp_all add: assms)

theorem set_address_deferred_witness:
  "\<exists>u1 u2. host_step (dfu_class (fmc_ops blank_bus)) (Ev_setup \<lparr>bmRequestType = 0x00, bRequest = USB_REQ_SET_ADDRESS,
       wValue = 0x11, wIndex = 0, wLength = 0\<rparr>) (usb_reset_state 0 0 blank_dfu) = Some u1 \<and>
    addr_writes u1 = [] \<and> host_step (dfu_class (fmc_ops blank_bus)) Ev_in u1 = Some u2 \<and> addr_writes u2 = [0x11]"
  using set_address_deferred [of "\<lparr>bmRequestType = 0x00, bRequest = USB_REQ_SET_ADDRESS,
       wValue = 0x11, wIndex = 0, wLength = 0\<rparr>" "dfu_class (fmc_ops blank_bus)" "usb_reset_state 0 0 blank_dfu"]
  by (auto simp: addr_writes_def usb_reset_state_def)

text \<open>C18: The device address changes in two situations only: a bus reset sets it to 0, and a
  completed transfer of a request with code 5 sets it to the address stored by SET_ADDRESS.\<close>

theorem address_changes_only:
  assumes "host_step k ev u = Some u'" and "addr_writes u' \<noteq> addr_writes u"
  shows "(ev = Ev_reset \<and> addr_writes u' = addr_writes u @ [0]) \<or>
    (ev = Ev_in \<and> ctrl_request u = USB_REQ_SET_ADDRESS \<and> phase u \<noteq> CTRL_IDLE \<and>
     phase u' = CTRL_IDLE \<and> addr_writes u' = addr_writes u @ [ucast (usb_dev_addr u)])"
  using host_step_addr [OF assms(1)] assms(2) by blast

theorem address_changes_only_witness:
  "addr_writes (the (host_step (dfu_class (fmc_ops blank_bus)) Ev_reset (usb_reset_state 0 0 blank_dfu))) = [0]"
proof -
  let ?u = "usb_reset_state 0 0 blank_dfu"
  obtain u' where u': "host_step (dfu_class (fmc_ops blank_bus)) Ev_reset ?u = Some u'" "addr_writes u' \<noteq> addr_writes ?u"
    by (simp add: host_step_def do_usb_poll_def poll_bus_reset_def usb_bit_defs addr_writes_def Let_def)
  from address_changes_only [OF this] u'(1) show ?thesis
    by (simp add: addr_writes_def usb_reset_state_def)
qed

text \<open>C10: The invariant of the DFU state machine, over USB: whatever the host sends, a status other
  than OK is only ever reported in the error state, and the configured end of flash stays fixed.\<close>

theorem dfu_coherent_over_usb:
  assumes "usb_reach (dfu_class fl) u0 u" and "dfu_coherent (cls u0)"
  shows "dfu_coherent (cls u) \<and> flash_end (cls u) = flash_end (cls u0)"
  using assms(1)
  by (rule usb_reach_cls)
    (auto simp: assms(2) dest: dfu_handle_request_coherent dfu_handle_request_frame
      dfu_handle_data_coherent dfu_handle_data_frame split: prod.split_asm)

theorem dfu_coherent_over_usb_witness:
  "dfu_coherent (cls (the (host_step (dfu_class (fmc_ops blank_bus)) Ev_suspend (usb_reset_state 0 0 (dfu_init blank_mach)))))"
proof -
  let ?u = "usb_reset_state 0 0 (dfu_init blank_mach)"
  obtain u' where "host_step (dfu_class (fmc_ops blank_bus)) Ev_suspend ?u = Some u'"
    by (simp add: host_step_def do_usb_poll_def usb_bit_defs)
  moreover from this have "usb_reach (dfu_class (fmc_ops blank_bus)) ?u u'"
    by (intro reach_step [OF reach_init, of Ev_suspend]) simp_all
  from dfu_coherent_over_usb [OF this] have "dfu_coherent (cls u')"
    by (simp add: usb_reset_state_def dfu_coherent_init)
  ultimately show ?thesis by simp
qed

text \<open>C19: The descriptors are consistent: the device, configuration and interface descriptors carry
  their own lengths, the configuration's total length is the number of bytes delivered, and every
  string descriptor starts with its exact length and its type.\<close>

theorem descriptors_consistent:
  "(\<exists>dev cfg. get_descriptor 0x0100 = Some (answer dev) \<and> length dev = unat (dev ! 0) \<and>
      dev ! 1 = USB_DT_DEVICE \<and>
      get_descriptor 0x0200 = Some (answer cfg) \<and> le16 (cfg ! 2) (cfg ! 3) = of_nat (length cfg) \<and>
      cfg ! 0 = 9 \<and> cfg ! 1 = USB_DT_CONFIG \<and> cfg ! 9 = 9 \<and> cfg ! 10 = USB_DT_INTERFACE \<and>
      cfg ! 18 = 9 \<and> cfg ! 19 = DFU_FUNCTIONAL \<and> length cfg = 27) \<and>
   (\<forall>idx. \<exists>bs. string_descriptor idx = Some bs \<and> bs ! 0 = of_nat (length bs) \<and>
      length bs \<le> SBUF_SIZE \<and> bs ! 1 = USB_DT_STRING \<and> even (length bs))"
proof (intro conjI allI)
  show "\<exists>dev cfg. get_descriptor 0x0100 = Some (answer dev) \<and> length dev = unat (dev ! 0) \<and>
      dev ! 1 = USB_DT_DEVICE \<and>
      get_descriptor 0x0200 = Some (answer cfg) \<and> le16 (cfg ! 2) (cfg ! 3) = of_nat (length cfg) \<and>
      cfg ! 0 = 9 \<and> cfg ! 1 = USB_DT_CONFIG \<and> cfg ! 9 = 9 \<and> cfg ! 10 = USB_DT_INTERFACE \<and>
      cfg ! 18 = 9 \<and> cfg ! 19 = DFU_FUNCTIONAL \<and> length cfg = 27"
    by (intro exI [of _ device_bytes] exI [of _ config_bytes_list])
      (simp add: device_answer config_answer device_bytes_def config_bytes_list_def le16_def
        USB_DT_DEVICE_def USB_DT_CONFIG_def USB_DT_INTERFACE_def DFU_FUNCTIONAL_def)
next
  fix idx
  show "\<exists>bs. string_descriptor idx = Some bs \<and> bs ! 0 = of_nat (length bs) \<and>
      length bs \<le> SBUF_SIZE \<and> bs ! 1 = USB_DT_STRING \<and> even (length bs)"
    using string_descriptor_returns [of idx] string_descriptor_shape [of idx]
    by (fastforce simp: SBUF_SIZE_def)
qed


text \<open>C21: The data stage of a request reaches the DFU data handler by its request code alone: a
  standard request with code 1 (CLEAR_FEATURE) and a data stage hands its data to
  \<open>dfu_handle_data\<close> with the block number of an earlier download.\<close>

theorem standard_request_reaches_dfu:
  assumes "usb_ok (dfu_ready io f) u"
    and "bmRequestType r = 0x00" and "bRequest r = 1"
    and "unat (wLength r) = length bs" and "bs \<noteq> []" and "length bs \<le> DFU_TRANSFER_SIZE"
  shows "\<exists>u' b. host_steps (dfu_class (fmc_ops io)) (Ev_setup r # map Ev_out (packets bs)) u = Some u' \<and>
    take (length bs) b = bs \<and>
    dfu_handle_data (fmc_ops io) \<lparr>cp_addr = dfu_rx_addr u, cp_bytes = b\<rparr> (wLength r) (cls u) =
      Some (cls u')"
proof -
  have "(setup_state r u)\<lparr>cls := cls u\<rparr> = setup_state r u" by simp
  then have "route_request (dfu_class (fmc_ops io)) r (setup_state r u) =
      Some ((None, 0), (setup_state r u)\<lparr>cls := cls u\<rparr>)"
    using assms(2,3) by (simp add: route_standard handle_std_request_def USB_REQ_SET_ADDRESS_def
      USB_REQ_GET_DESCRIPTOR_def USB_REQ_GET_CONFIGURATION_def)
  from dfu_usb.data_stage_handled [OF assms(1) _ _ assms(4-6) this usb_okD(5) [OF assms(1)]] assms(2,3)
  show ?thesis by (auto simp: DFU_DNLOAD_def)
qed

theorem standard_request_reaches_dfu_witness:
  "\<exists>u' b. host_steps (dfu_class (fmc_ops blank_bus))
      (Ev_setup \<lparr>bmRequestType = 0x00, bRequest = 1, wValue = 0, wIndex = 0, wLength = 4\<rparr> #
       map Ev_out (packets [1, 2, 3, 4])) (usb_reset_state 0 0x20002000 blank_dfu) = Some u' \<and>
    take 4 b = [1, 2, 3, 4] \<and>
    dfu_handle_data (fmc_ops blank_bus) \<lparr>cp_addr = 0x20002000, cp_bytes = b\<rparr> 4 blank_dfu = Some (cls u')"
proof -
  have "usb_ok (dfu_ready blank_bus (\<lambda>_. 0)) (usb_reset_state 0 0x20002000 blank_dfu)"
    by (rule usb_ok_reset) (simp add: dfu_ready_def blank_drains)
  then have "\<exists>u' b. host_steps (dfu_class (fmc_ops blank_bus))
      (Ev_setup \<lparr>bmRequestType = 0x00, bRequest = 1, wValue = 0, wIndex = 0, wLength = 4\<rparr> #
       map Ev_out (packets [1, 2, 3, 4])) (usb_reset_state 0 0x20002000 blank_dfu) = Some u' \<and>
    take (length [1, 2, 3, 4 :: u8]) b = [1, 2, 3, 4] \<and>
    dfu_handle_data (fmc_ops blank_bus)
      \<lparr>cp_addr = dfu_rx_addr (usb_reset_state 0 0x20002000 blank_dfu), cp_bytes = b\<rparr>
      (wLength \<lparr>bmRequestType = 0x00, bRequest = 1, wValue = 0, wIndex = 0, wLength = 4\<rparr>)
      (cls (usb_reset_state 0 0x20002000 blank_dfu)) = Some (cls u')"
    by (rule standard_request_reaches_dfu) (simp_all add: DFU_TRANSFER_SIZE_def)
  moreover have "length [1, 2, 3, 4 :: u8] = 4" by simp
  ultimately show ?thesis by (simp only: usb_reset_state_def usb.simps usb_setup_packet.simps)
qed

end
