(* ===== verification/Printf_Spec.thy ===== *)
theory Printf_Spec
  imports Printf
begin

text \<open>
  What the formatter writes, as a function from the format and its arguments to text (\<open>render\<close>),
  and the proof that \<open>vformat\<close> writes exactly this text to whatever output function it is given.
  The contract of an output function is the locale \<open>out_sink\<close>; the four of printf.c provide it.
\<close>

section \<open>Runs of output calls\<close>

lemma emits_Nil [simp]: "emits out maxlen [] = Some"
  by (simp add: fun_eq_iff)

lemma emit_index: "emit out maxlen c (b, i) = Some (b', i') \<Longrightarrow> i' = i + 1"
  by (auto simp: emit_def elim!: bind_SomeE)

lemma emits_append:
  "emits out maxlen (cs @ ds) st = do { st \<leftarrow> emits out maxlen cs st; emits out maxlen ds st }"
  by (induction cs arbitrary: st) (auto intro: Option.bind_cong)

lemma emits_index: "emits out maxlen cs (b, i) = Some (b', i') \<Longrightarrow> i' = i + of_nat (length cs)"
proof (induction cs arbitrary: b i)
  case (Cons c cs)
  from Cons.prems obtain b1 i1 where "emit out maxlen c (b, i) = Some (b1, i1)"
    and "emits out maxlen cs (b1, i1) = Some (b', i')"
    by (auto elim!: bind_SomeE)
  with Cons.IH [of b1 i1] show ?case by (simp add: emit_index)
qed simp

lemma emit_times_emits: "emit_times out maxlen n c st = emits out maxlen (replicate n c) st"
  by (induction n arbitrary: st) (auto intro: Option.bind_cong)

lemma pad_right_emits:
  "pad_right out maxlen start width b idx =
     emits out maxlen (replicate (unat width - unat (idx - start)) CHR '' '') (b, idx)"
proof (induction out maxlen start width b idx rule: pad_right.induct)
  case (1 out maxlen start width b idx)
  show ?case
  proof (cases "idx - start < width")
    case True
    then have less: "unat (idx - start) < unat width" by (simp add: word_less_nat_alt)
    then have "unat (idx - start + 1) = unat (idx - start) + 1"
      using unat_add_small [of "idx - start" 1] unsigned_less [where ?'a = nat, of width] by simp
    then have "unat (idx + 1 - start) = unat (idx - start) + 1"
      by (simp add: algebra_simps)
    then have "Suc (unat width - unat (idx + 1 - start)) = unat width - unat (idx - start)"
      using less by simp
    then have "emits out maxlen (replicate (unat width - unat (idx - start)) CHR '' '') (b, idx) =
        emits out maxlen (CHR '' '' # replicate (unat width - unat (idx + 1 - start)) CHR '' '') (b, idx)"
      by (metis replicate_Suc)
    then show ?thesis
      using True 1 by (subst pad_right.simps) (auto simp: emit_def intro: Option.bind_cong)
  next
    case False
    then have "unat width \<le> unat (idx - start)" by (simp add: word_le_nat_alt not_less)
    with False show ?thesis by (subst pad_right.simps) simp
  qed
qed

section \<open>The text of a number\<close>

abbreviation spaces :: "nat \<Rightarrow> char list" where
  "spaces n \<equiv> replicate n CHR '' ''"

definition padded :: "u32 \<Rightarrow> bool \<Rightarrow> nat \<Rightarrow> char list \<Rightarrow> char list" where
  "padded flags left n cs =
     (if flag_set flags FLAGS_LEFT then cs @ spaces n else if left then spaces n @ cs else cs)"

lemma out_rev_emits:
  assumes "length buf < 2 ^ 32"
  shows "out_rev out maxlen buf width flags st =
    emits out maxlen (padded flags (\<not> flag_set flags FLAGS_ZEROPAD) (unat width - length buf) (rev buf)) st"
proof (cases st)
  case (Pair b i)
  have tail: "pad_right out maxlen i width b' i' =
      emits out maxlen (spaces (unat width - length buf)) (b', i')"
    if "emits out maxlen (rev buf) (b, i) = Some (b', i')" for b' i'
    using emits_index [OF that] assms
    by (simp add: pad_right_emits unat_of_nat take_bit_eq_mod)
  show ?thesis
  proof (cases "flag_set flags FLAGS_LEFT")
    case True
    then have "out_rev out maxlen buf width flags st =
        do { st \<leftarrow> emits out maxlen (rev buf) (b, i); pad_right out maxlen i width (fst st) (snd st) }"
      by (simp add: out_rev_def Pair)
    also have "\<dots> = do { st \<leftarrow> emits out maxlen (rev buf) (b, i);
                        emits out maxlen (spaces (unat width - length buf)) st }"
      by (rule Option.bind_cong) (auto simp: tail)
    finally show ?thesis using True by (simp add: padded_def emits_append Pair)
  next
    case False
    then show ?thesis
      by (simp add: out_rev_def padded_def emits_append emit_times_emits)
  qed
qed

definition ntoa_chars :: "char list \<Rightarrow> bool \<Rightarrow> u32 \<Rightarrow> u32 \<Rightarrow> u32 \<Rightarrow> u32 \<Rightarrow> char list" where
  "ntoa_chars buf negative base prec width flags =
     (let (width, buf) = ntoa_zero_padding negative prec width flags buf
      in ntoa_sign negative flags (ntoa_hash base prec width flags buf))"

definition ntoa_text :: "u32 \<Rightarrow> bool \<Rightarrow> u32 \<Rightarrow> u32 \<Rightarrow> u32 \<Rightarrow> u32 \<Rightarrow> char list" where
  "ntoa_text value negative base prec width flags =
     (let flags = (if value = 0 then flags AND NOT FLAGS_HASH else flags);
          digits = (if \<not> flag_set flags FLAGS_PRECISION \<or> value \<noteq> 0
                    then ntoa_digits flags base value [] else []);
          width' = fst (ntoa_zero_padding negative prec width flags digits);
          buf = ntoa_chars digits negative base prec width flags
      in padded flags (\<not> flag_set flags FLAGS_ZEROPAD) (unat width' - length buf) (rev buf))"

text \<open>The digit buffer never holds more than its 32 characters.\<close>

lemma pad_zeros_length: "length (pad_zeros lim buf) \<le> max (length buf) PRINTF_NTOA_BUFFER_SIZE"
proof (induction lim buf rule: pad_zeros.induct)
  case (1 lim buf)
  then show ?case by (subst pad_zeros.simps) auto
qed

lemma push_if_room_length [simp]:
  "length buf \<le> PRINTF_NTOA_BUFFER_SIZE \<Longrightarrow> length (push_if_room c buf) \<le> PRINTF_NTOA_BUFFER_SIZE"
  by (simp add: push_if_room_def)

lemma ntoa_zero_padding_length:
  "ntoa_zero_padding negative prec width flags buf = (width', buf') \<Longrightarrow>
   length buf \<le> PRINTF_NTOA_BUFFER_SIZE \<Longrightarrow> length buf' \<le> PRINTF_NTOA_BUFFER_SIZE"
  using pad_zeros_length [of "unat prec" buf]
    pad_zeros_length [of "unat width'" "pad_zeros (unat prec) buf"]
  by (auto simp: ntoa_zero_padding_def Let_def split: if_splits)

lemma ntoa_hash_length:
  "length buf \<le> PRINTF_NTOA_BUFFER_SIZE \<Longrightarrow>
   length (ntoa_hash base prec width flags buf) \<le> PRINTF_NTOA_BUFFER_SIZE"
  by (auto simp: ntoa_hash_def Let_def push_if_room_def)

lemma ntoa_sign_length:
  "length buf \<le> PRINTF_NTOA_BUFFER_SIZE \<Longrightarrow>
   length (ntoa_sign negative flags buf) \<le> PRINTF_NTOA_BUFFER_SIZE"
  by (auto simp: ntoa_sign_def)

lemma ntoa_chars_length:
  "length buf \<le> PRINTF_NTOA_BUFFER_SIZE \<Longrightarrow>
   length (ntoa_chars buf negative base prec width flags) \<le> PRINTF_NTOA_BUFFER_SIZE"
  by (auto simp: ntoa_chars_def split: prod.splits
    intro!: ntoa_sign_length ntoa_hash_length dest: ntoa_zero_padding_length)

lemma ntoa_digits_length:
  "length buf < PRINTF_NTOA_BUFFER_SIZE \<Longrightarrow>
   length (ntoa_digits flags base v buf) \<le> PRINTF_NTOA_BUFFER_SIZE"
proof (induction flags base v buf rule: ntoa_digits.induct)
  case (1 flags base v buf)
  then show ?case by (subst ntoa_digits.simps) (auto simp: Let_def)
qed

lemma ntoa_format_emits:
  assumes "length buf \<le> PRINTF_NTOA_BUFFER_SIZE"
  shows "ntoa_format out maxlen buf negative base prec width flags st =
    emits out maxlen
      (padded flags (\<not> flag_set flags FLAGS_ZEROPAD)
         (unat (fst (ntoa_zero_padding negative prec width flags buf)) -
            length (ntoa_chars buf negative base prec width flags))
         (rev (ntoa_chars buf negative base prec width flags))) st"
proof -
  have "length (ntoa_chars buf negative base prec width flags) < 2 ^ 32"
    using ntoa_chars_length [OF assms, of negative base prec width flags]
    by (simp add: PRINTF_NTOA_BUFFER_SIZE_def)
  then show ?thesis
    by (auto simp: ntoa_format_def ntoa_chars_def out_rev_emits split: prod.splits)
qed

lemma ntoa_long_emits:
  "ntoa_long out maxlen value negative base prec width flags st =
     emits out maxlen (ntoa_text value negative base prec width flags) st"
proof -
  have "length (ntoa_digits f base value []) \<le> PRINTF_NTOA_BUFFER_SIZE" for f
    by (rule ntoa_digits_length) (simp add: PRINTF_NTOA_BUFFER_SIZE_def)
  then show ?thesis
    by (simp add: ntoa_long_def ntoa_text_def ntoa_format_emits Let_def)
qed

section \<open>The text of a format\<close>

definition int_text :: "char \<Rightarrow> u32 \<Rightarrow> u32 \<Rightarrow> u32 \<Rightarrow> u32 \<Rightarrow> char list" where
  "int_text c flags width precision w =
     (let base = conv_base c; flags = conv_flags c flags in
      if c = CHR ''i'' \<or> c = CHR ''d'' then
        (let n = (if flag_set flags FLAGS_LONG then w else signed_arg flags w)
         in ntoa_text (magnitude n) (n <s 0) base precision width flags)
      else ntoa_text (if flag_set flags FLAGS_LONG then w else unsigned_arg flags w)
             False base precision width flags)"

text \<open>The part of a string a precision lets through.\<close>

definition string_text :: "u32 \<Rightarrow> u32 \<Rightarrow> char list \<Rightarrow> char list" where
  "string_text flags precision p =
     (let cs = takeWhile (\<lambda>c. c \<noteq> NUL) p
      in if flag_set flags FLAGS_PRECISION then take (unat precision) cs else cs)"

definition arg_text ::
  "char \<Rightarrow> u32 \<Rightarrow> u32 \<Rightarrow> u32 \<Rightarrow> va_arg list \<Rightarrow> (va_arg list \<times> char list) option" where
  "arg_text c flags width precision va =
     (if int_conversion c then
        if flag_set (conv_flags c flags) FLAGS_LONG_LONG then Some (va, [])
        else do { (w, va) \<leftarrow> va_int va; Some (va, int_text c flags width precision w) }
      else if c = CHR ''c'' then do {
        (w, va) \<leftarrow> va_int va;
        Some (va, padded flags True (unat width - 1) [char_of (unat (ucast w :: u8))]) }
      else if c = CHR ''s'' then do {
        (p, va) \<leftarrow> va_str va;
        let l = strnlen_s p (if precision \<noteq> 0 then precision else - 1);
        let l = (if flag_set flags FLAGS_PRECISION then (if l < precision then l else precision) else l);
        Some (va, padded flags True (unat width - unat l) (string_text flags precision p)) }
      else if c = CHR ''p'' then do {
        (p, va) \<leftarrow> va_ptr va;
        Some (va, ntoa_text p False 16 precision 8 (flags OR (FLAGS_ZEROPAD OR FLAGS_UPPERCASE))) }
      else Some (va, [c]))"

function render :: "char list \<Rightarrow> va_arg list \<Rightarrow> char list option" where
  "render fmt va =
     (case fmt of
        [] \<Rightarrow> Some []
      | c # s \<Rightarrow>
          if c = NUL then Some []
          else if c \<noteq> CHR ''%'' then do { cs \<leftarrow> render s va; Some (c # cs) }
          else do {
            (flags, width, precision, fmt, va) \<leftarrow> parse_spec s va;
            (va, cs) \<leftarrow> arg_text (cur fmt) flags width precision va;
            fmt \<leftarrow> advance fmt;
            ds \<leftarrow> render fmt va;
            Some (cs @ ds) })"
  by pat_completeness auto
termination
  by (relation "measure (\<lambda>(fmt, va). length fmt)")
    (auto dest!: parse_spec_shrinks advance_shrinks)

declare render.simps [simp del]

lemma out_string_emits:
  "out_string out maxlen flags precision p st = emits out maxlen (string_text flags precision p) st"
proof (induction out maxlen flags precision p st rule: out_string.induct)
  case (2 out maxlen flags precision c p st)
  have "unat precision = Suc (unat (precision - 1))" if "precision \<noteq> 0"
    using that unat_minus_one [OF that] unat_gt_0 [of precision] by simp
  then have "take (unat precision) (c # xs) = c # take (unat (precision - 1)) xs"
    if "precision \<noteq> 0" for xs
    using that by simp
  with 2 show ?case
    by (auto simp: string_text_def intro: Option.bind_cong)
qed (simp add: string_text_def)

lemma conv_int_emits:
  "int_conversion c \<Longrightarrow> conv_int out maxlen c flags width precision va st =
     do { (va, cs) \<leftarrow> arg_text c flags width precision va;
          st \<leftarrow> emits out maxlen cs st; Some (va, st) }"
  by (auto simp: conv_int_def arg_text_def int_text_def Let_def ntoa_long_emits
    split: option.splits prod.splits intro!: Option.bind_cong)

lemma conv_char_emits:
  "conv_char out maxlen flags width va st =
     do { (va, cs) \<leftarrow> arg_text CHR ''c'' flags width precision va;
          st \<leftarrow> emits out maxlen cs st; Some (va, st) }"
proof (cases "va_int va")
  case None
  then show ?thesis
    by (simp add: conv_char_def arg_text_def int_conversion_def)
next
  case (Some a)
  then show ?thesis
    by (cases a; cases "flag_set flags FLAGS_LEFT")
      (simp_all add: conv_char_def arg_text_def int_conversion_def padded_def pad_to_def
        emits_append emit_times_emits)
qed

lemma conv_str_emits:
  "conv_str out maxlen flags width precision va st =
     do { (va, cs) \<leftarrow> arg_text CHR ''s'' flags width precision va;
          st \<leftarrow> emits out maxlen cs st; Some (va, st) }"
proof (cases "va_str va")
  case None
  then show ?thesis by (simp add: conv_str_def arg_text_def int_conversion_def)
next
  case (Some a)
  then show ?thesis
    by (cases a; cases "flag_set flags FLAGS_LEFT")
      (simp_all add: conv_str_def arg_text_def int_conversion_def Let_def out_string_emits
        padded_def pad_to_def emits_append emit_times_emits)
qed

lemma conv_ptr_emits:
  "conv_ptr out maxlen flags precision va st =
     do { (va, cs) \<leftarrow> arg_text CHR ''p'' flags width precision va;
          st \<leftarrow> emits out maxlen cs st; Some (va, st) }"
  by (cases "va_ptr va") (auto simp: conv_ptr_def arg_text_def int_conversion_def Let_def
    ntoa_long_emits split: prod.splits)

lemma conversion_emits:
  "conversion out maxlen fmt va st = do {
     (flags, width, precision, fmt, va) \<leftarrow> parse_spec fmt va;
     (va, cs) \<leftarrow> arg_text (cur fmt) flags width precision va;
     fmt \<leftarrow> advance fmt;
     st \<leftarrow> emits out maxlen cs st;
     Some (fmt, va, st) }"
proof -
  have one: "(if int_conversion c then conv_int out maxlen c flags width precision va st
        else if c = CHR ''c'' then conv_char out maxlen flags width va st
        else if c = CHR ''s'' then conv_str out maxlen flags width precision va st
        else if c = CHR ''p'' then conv_ptr out maxlen flags precision va st
        else do { st \<leftarrow> emit out maxlen c st; Some (va, st) }) =
      do { (va, cs) \<leftarrow> arg_text c flags width precision va;
           st \<leftarrow> emits out maxlen cs st; Some (va, st) }" for c flags width precision va
    by (simp add: conv_int_emits conv_char_emits [where precision = precision] conv_str_emits
      conv_ptr_emits [where width = width]) (simp add: arg_text_def)
  show ?thesis
    unfolding conversion_def one
    by (intro Option.bind_cong refl) (auto split: Option.bind_splits)
qed

lemma vformat_emits:
  "vformat out maxlen fmt va st = do { cs \<leftarrow> render fmt va; emits out maxlen cs st }"
proof (induction out maxlen fmt va st rule: vformat.induct)
  case (1 out maxlen fmt va st)
  show ?case
  proof (cases fmt)
    case Nil
    then show ?thesis by (simp add: vformat.simps [of _ _ "[]"] render.simps [of "[]"])
  next
    case (Cons c s)
    consider "c = NUL" | "c \<noteq> NUL" "c \<noteq> CHR ''%''" | "c = CHR ''%''" by auto
    then show ?thesis
    proof cases
      case 1
      then show ?thesis by (subst vformat.simps, subst render.simps) (simp add: Cons)
    next
      case 2
      then show ?thesis
        using "1.IH"(1) [OF Cons 2]
        by (subst vformat.simps, subst render.simps)
          (cases "render s va"; auto simp: Cons intro!: Option.bind_cong split: Option.bind_splits)
    next
      case 3
      then show ?thesis
        using "1.IH"(2) [OF Cons]
        by (subst vformat.simps, subst render.simps)
          (auto simp: Cons conversion_emits emits_append split: Option.bind_splits)
    qed
  qed
qed

section \<open>Output functions\<close>

text \<open>
  The contract of an output function: on a state that \<open>fits\<close> the limit it returns, whatever the
  character and the index, and leaves such a state.
\<close>

locale out_sink =
  fixes out :: "'b out_fct_type" and fits :: "u32 \<Rightarrow> 'b \<Rightarrow> bool"
  assumes out_fits: "fits maxlen b \<Longrightarrow> \<exists>b'. out c b idx maxlen = Some b' \<and> fits maxlen b'"
begin

lemma emits_fits:
  "fits maxlen b \<Longrightarrow>
   \<exists>b'. emits out maxlen cs (b, i) = Some (b', i + of_nat (length cs)) \<and> fits maxlen b'"
proof (induction cs arbitrary: b i)
  case (Cons c cs)
  from out_fits [OF Cons.prems] obtain b1 where "out c b i maxlen = Some b1" and "fits maxlen b1"
    by blast
  with Cons.IH [of b1 "i + 1"] show ?case by (auto simp: emit_def algebra_simps)
qed simp

lemma core_returns:
  assumes "fits maxlen b" and "render fmt va = Some cs"
  shows "\<exists>b'. vsnprintf_core False out maxlen fmt va b = Some (of_nat (length cs), b') \<and> fits maxlen b'"
proof -
  from emits_fits [OF assms(1), of cs 0] obtain b1 where
    b1: "emits out maxlen cs (b, 0) = Some (b1, of_nat (length cs))" and "fits maxlen b1" by auto
  from out_fits [OF this(2)] obtain b2 where
    "out NUL b1 (if of_nat (length cs) < maxlen then of_nat (length cs) else maxlen - 1) maxlen = Some b2"
    and "fits maxlen b2" by blast
  with b1 show ?thesis by (simp add: vsnprintf_core_def vformat_emits assms(2))
qed

lemma core_undefined: "render fmt va = None \<Longrightarrow> vsnprintf_core False out maxlen fmt va b = None"
  by (simp add: vsnprintf_core_def vformat_emits)

end

interpretation buffer_sink: out_sink out_buffer "\<lambda>maxlen b. unat maxlen \<le> length b"
  by unfold_locales (auto simp: out_buffer_def word_less_nat_alt)

interpretation null_sink: out_sink out_null "\<lambda>maxlen b. True"
  by unfold_locales (simp add: out_null_def)

interpretation char_sink: out_sink "out_char putchar" "\<lambda>maxlen b. True" for putchar
  by unfold_locales (simp add: out_char_def)

interpretation fct_sink: out_sink "out_fct fct" "\<lambda>maxlen b. True" for fct
  by unfold_locales (simp add: out_fct_def)

lemma emits_out_buffer:
  assumes "unat maxlen \<le> length b" and "length cs < 2 ^ 32"
  shows "emits out_buffer maxlen cs (b, 0) =
    Some (take (unat maxlen) cs @ drop (min (unat maxlen) (length cs)) b, of_nat (length cs))"
  using assms(2)
proof (induction cs rule: rev_induct)
  case (snoc c cs)
  have idx: "unat (of_nat (length cs) :: u32) = length cs"
    using snoc.prems by (simp add: unat_of_nat take_bit_eq_mod)
  show ?case
  proof (cases "length cs < unat maxlen")
    case True
    then have "drop (length cs) b = b ! length cs # drop (Suc (length cs)) b"
      "min (unat maxlen) (length cs) = length cs"
      "min (unat maxlen) (length (cs @ [c])) = Suc (length cs)"
      using assms(1) by (simp_all add: Cons_nth_drop_Suc)
    with True snoc assms(1) show ?thesis
      by (simp add: emits_append emit_def out_buffer_def word_less_nat_alt idx list_update_append
        algebra_simps)
  next
    case False
    with snoc assms(1) show ?thesis
      by (simp add: emits_append emit_def out_buffer_def word_less_nat_alt idx algebra_simps)
  qed
qed simp

lemma core_out_buffer:
  assumes fits: "0 < maxlen" "unat maxlen \<le> length b"
    and rendered: "render fmt va = Some cs" "length cs < 2 ^ 32"
  shows "vsnprintf_core False out_buffer maxlen fmt va b =
    Some (of_nat (length cs),
      take (unat maxlen - 1) cs @ NUL # drop (min (unat maxlen - 1) (length cs) + 1) b)"
proof -
  define m where "m = unat maxlen"
  have idx: "unat (of_nat (length cs) :: u32) = length cs"
    using rendered(2) by (simp add: unat_of_nat take_bit_eq_mod)
  have m: "0 < m" "m \<le> length b" using fits by (simp_all add: m_def word_less_nat_alt)
  have last: "unat (maxlen - 1) = m - 1" "unat maxlen = m"
    using fits(1) by (simp_all add: m_def unat_minus_one word_neq_0_conv)
  note run = emits_out_buffer [OF fits(2) rendered(2)]
  have room: "k < m \<Longrightarrow> drop k b = b ! k # drop (Suc k) b" for k
    using m(2) by (simp add: Cons_nth_drop_Suc)
  show ?thesis
  proof (cases "length cs < m")
    case True
    then have "min m (length cs) = length cs" "take m cs = cs" "take (m - 1) cs = cs"
      "min (m - 1) (length cs) = length cs" by auto
    with True m room [of "length cs"] show ?thesis
      by (simp add: vsnprintf_core_def vformat_emits rendered(1) run fits(1) last
        out_buffer_def word_less_nat_alt idx list_update_append)
  next
    case False
    then have "take m cs = take (m - 1) cs @ [cs ! (m - 1)]" "min m (length cs) = m"
      "min (m - 1) (length cs) = m - 1"
      using m(1) take_Suc_conv_app_nth [of "m - 1" cs] by auto
    with False m show ?thesis
      by (simp add: vsnprintf_core_def vformat_emits rendered(1) run fits(1) last
        out_buffer_def word_less_nat_alt idx list_update_append)
  qed
qed

section \<open>The digits of a number\<close>

lemma ntoa_digits_value:
  assumes "2 \<le> base" and "unat v < unat base ^ k" and "0 < k"
    and "k \<le> PRINTF_NTOA_BUFFER_SIZE - length buf"
  shows "\<exists>ds. ntoa_digits flags base v buf = buf @ map (digit_char flags) ds \<and>
    horner_sum unat (unat base) ds = unat v \<and> (\<forall>d \<in> set ds. d < base) \<and> length ds \<le> k"
  using assms
proof (induction flags base v buf arbitrary: k rule: ntoa_digits.induct)
  case (1 flags base v buf)
  have base: "0 < unat base" "v mod base < base"
    using "1.prems"(1) by (auto simp: word_le_nat_alt word_less_nat_alt unat_mod_distrib)
  let ?buf = "buf @ [digit_char flags (v mod base)]"
  have step: "unat v = unat (v mod base) + unat base * unat (v div base)"
    by (simp add: unat_mod_distrib unat_div_distrib)
  have small: "unat (v div base) < unat base ^ (k - 1)"
    using "1.prems"(2,3) base(1)
    by (cases k) (simp_all add: unat_div_distrib less_mult_imp_div_less mult.commute)
  show ?case
  proof (cases "v div base \<noteq> 0")
    case True
    then have "0 < unat (v div base)" unfolding unat_gt_0 .
    with small have "1 < unat base ^ (k - 1)" by linarith
    then have k: "0 < k - 1" by (metis bot_nat_0.not_eq_extremum less_irrefl power_0)
    with "1.prems"(4) have room: "length ?buf < PRINTF_NTOA_BUFFER_SIZE"
      "k - 1 \<le> PRINTF_NTOA_BUFFER_SIZE - length ?buf" by auto
    from "1.IH" [OF refl refl conjI [OF True room(1)] "1.prems"(1) small k room(2)]
    obtain ds where "ntoa_digits flags base (v div base) ?buf = ?buf @ map (digit_char flags) ds"
      and "horner_sum unat (unat base) ds = unat (v div base)" and "\<forall>d \<in> set ds. d < base"
      and "length ds \<le> k - 1"
      by auto
    then show ?thesis
      using True room(1) step base(2) k
      by (intro exI [of _ "v mod base # ds"]) (subst ntoa_digits.simps, simp)
  next
    case False
    then show ?thesis
      using step base(2) "1.prems"(3)
      by (intro exI [of _ "[v mod base]"]) (subst ntoa_digits.simps, simp add: Let_def)
  qed
qed

text \<open>The decimal text of a number, and \<open>_atoi\<close> reading it back.\<close>

definition decimal :: "u32 \<Rightarrow> char list" where
  "decimal v = rev (ntoa_digits 0 10 v [])"

lemma digit_char_decimal:
  assumes "d < 10"
  shows "is_digit (digit_char flags d)" and "of_nat (of_char (digit_char flags d) - 48) = d"
proof -
  from assms have "48 + unat d < 58" by (simp add: word_less_nat_alt)
  then show "is_digit (digit_char flags d)" "of_nat (of_char (digit_char flags d) - 48) = d"
    using assms by (simp_all add: digit_char_def is_digit_def take_bit_eq_mod)
qed

lemma atoi_append_digits:
  "\<forall>c \<in> set cs. is_digit c \<Longrightarrow> atoi i (cs @ s) = atoi (fst (atoi i cs)) s"
  by (induction i cs rule: atoi.induct) auto

lemma atoi_digits:
  "\<forall>d \<in> set ds. d < 10 \<Longrightarrow>
   atoi 0 (rev (map (digit_char flags) ds)) = (of_nat (horner_sum unat 10 ds), [])"
proof (induction ds)
  case (Cons d ds)
  have "\<forall>c \<in> set (rev (map (digit_char flags) ds)). is_digit c"
    using Cons.prems by (auto intro: digit_char_decimal)
  with Cons show ?case
    by (simp add: atoi_append_digits digit_char_decimal algebra_simps)
qed simp

lemma decimal_digits:
  obtains ds where "ntoa_digits 0 10 v [] = map (digit_char 0) ds"
    and "horner_sum unat 10 ds = unat v" and "\<forall>d \<in> set ds. d < 10" and "length ds \<le> 10"
proof -
  have "unat v < unat (10 :: u32) ^ 10"
    using unsigned_less [where ?'a = nat, of v] by (rule order_less_le_trans) simp
  then show thesis
    using ntoa_digits_value [of 10 v 10 "[]" 0] that by (auto simp: PRINTF_NTOA_BUFFER_SIZE_def)
qed

lemma atoi_decimal: "atoi 0 (decimal v) = (v, [])"
  by (rule decimal_digits [of v]) (simp add: decimal_def atoi_digits)

lemma decimal_length: "length (decimal v) \<le> 10"
  by (rule decimal_digits [of v]) (simp add: decimal_def)

lemma magnitude_abs: "uint (magnitude w) = \<bar>sint w\<bar>"
proof (cases "0 <s w")
  case True
  then have pos: "0 < sint w" by (simp add: word_sless_alt)
  then have "uint w = sint w"
    using sint_lt [of w] by (simp add: uint_sint take_bit_int_eq_self)
  with True pos show ?thesis by (simp add: magnitude_def)
next
  case False
  then have neg: "sint w \<le> 0" by (simp add: word_sless_alt)
  have "- w = word_of_int (- sint w)" by simp
  then have "uint (- w) = uint (word_of_int (- sint w) :: u32)" by (rule arg_cong)
  also have "\<dots> = take_bit 32 (- sint w)" by (simp only: uint_word_of_int_eq) simp
  also have "\<dots> = - sint w"
    using neg sint_ge [of w] by (simp add: take_bit_int_eq_self)
  finally show ?thesis using False neg by (simp add: magnitude_def)
qed

lemma pad_zeros_0 [simp]: "pad_zeros 0 buf = buf"
  by (subst pad_zeros.simps) simp

lemma ntoa_text_plain:
  "ntoa_text v negative 10 0 0 0 = (if negative then ''-'' else []) @ decimal v"
proof -
  have "length (ntoa_digits 0 10 v []) < PRINTF_NTOA_BUFFER_SIZE"
    using decimal_length [of v] by (simp add: decimal_def PRINTF_NTOA_BUFFER_SIZE_def)
  then show ?thesis
    by (cases "v = 0") (simp_all add: ntoa_text_def ntoa_chars_def ntoa_zero_padding_def ntoa_hash_def ntoa_sign_def
      padded_def decimal_def flags_defs Let_def)
qed

lemmas parse_defs = parse_spec_def parse_width_def parse_precision_def parse_length_def cur_def
  is_digit_def advance_def

lemma render_d: "render ''%d'' [VInt w] =
    Some ((if w <s 0 then ''-'' else []) @ decimal (magnitude w))"
  by (simp add: render.simps parse_defs arg_text_def int_conversion_def conv_flags_def
    conv_base_def flags_defs va_int_def int_text_def signed_arg_def ntoa_text_plain)

lemma render_u: "render ''%u'' [VInt w] = Some (decimal w)"
  by (simp add: render.simps parse_defs arg_text_def int_conversion_def conv_flags_def
    conv_base_def flags_defs va_int_def int_text_def unsigned_arg_def ntoa_text_plain)

end
