(* ===== verification/Printf_Props.thy ===== *)
theory Printf_Props
  imports Printf_Spec
begin

text \<open>The properties of the formatter.\<close>

text \<open>C22: \<open>snprintf\<close> into a buffer of at least \<open>count\<close> characters never writes outside the buffer,
  whatever the length of the text: the buffer holds the first \<open>count - 1\<close> characters of the text
  and a terminator, the characters after it are untouched, and the returned value is the length of
  the whole text.\<close>

theorem snprintf_truncates:
  assumes "0 < count" and "unat count \<le> length buffer"
    and "render fmt va = Some cs" and "length cs < 2 ^ 32"
  shows "c_snprintf False count fmt va buffer =
    Some (of_nat (length cs),
      take (unat count - 1) cs @ NUL # drop (min (unat count - 1) (length cs) + 1) buffer)"
  using assms by (simp add: c_snprintf_def core_out_buffer)

theorem snprintf_truncates_witness:
  "render ''<%5d>'' [VInt (- 42)] = Some ''<  -42>'' \<and>
   c_snprintf False 5 ''<%5d>'' [VInt (- 42)] ''abcdefgh'' = Some (7, ''<  -'' @ [NUL] @ ''fgh'')"
proof -
  have "render ''<%5d>'' [VInt (- 42)] = Some ''<  -42>''" by code_simp
  with snprintf_truncates [of 5 "''abcdefgh''" "''<%5d>''" "[VInt (- 42)]"] show ?thesis by simp
qed



text \<open>C25: The 32-character digit buffer of \<open>_ntoa_long\<close> is never overrun: digits, zero padding,
  prefix and sign fit for every value, base, precision, width and flags.\<close>

theorem digit_buffer_bound:
  "length (ntoa_digits flags base v []) \<le> PRINTF_NTOA_BUFFER_SIZE \<and>
   length (snd (ntoa_zero_padding negative prec width flags (ntoa_digits flags base v [])))
     \<le> PRINTF_NTOA_BUFFER_SIZE \<and>
   length (ntoa_sign negative flags (ntoa_hash base prec width' flags
     (snd (ntoa_zero_padding negative prec width flags (ntoa_digits flags base v [])))))
     \<le> PRINTF_NTOA_BUFFER_SIZE"
proof -
  have "length (ntoa_digits flags base v []) \<le> PRINTF_NTOA_BUFFER_SIZE"
    by (rule ntoa_digits_length) (simp add: PRINTF_NTOA_BUFFER_SIZE_def)
  moreover from this have
    "length (snd (ntoa_zero_padding negative prec width flags (ntoa_digits flags base v [])))
     \<le> PRINTF_NTOA_BUFFER_SIZE"
    by (metis ntoa_zero_padding_length prod.collapse)
  ultimately show ?thesis by (simp add: ntoa_sign_length ntoa_hash_length)
qed

text \<open>A format that ends in a lone \<open>%\<close> has no defined result: the formatter steps over the
  terminator and goes on reading behind the string.\<close>

lemma lone_percent_undefined:
  "vformat out maxlen (''a%'') va (b, idx) = None"
  by (simp add: vformat_emits render.simps parse_defs arg_text_def int_conversion_def)

end
