(* ===== verification/Dfu_Props.thy ===== *)
theory Dfu_Props
  imports Devices
begin

text \<open>
  The properties of the flash driver and of the DFU handlers, stated over the model's own
  definitions (\<open>fmc_ops io\<close> is the driver of \<^verbatim>\<open>flash.h\<close> on an arbitrary bus \<open>io\<close>), each with a
  witness on the concrete device of \<^verbatim>\<open>Devices\<close>.
\<close>

section \<open>The buffer's address\<close>

lemma fill_addr: "fill_aligned io n prog \<lparr>cp_addr = x, cp_bytes = b\<rparr> = fill_aligned io n prog \<lparr>cp_addr = y, cp_bytes = b\<rparr>"
proof (induction n arbitrary: x y b prog)
  case (Suc n)
  have "fill_aligned io n p \<lparr>cp_addr = x + 4, cp_bytes = drop 4 b\<rparr> =
      fill_aligned io n p \<lparr>cp_addr = y + 4, cp_bytes = drop 4 b\<rparr>" for p by (rule Suc.IH)
  then show ?case by (intro ext) (simp add: cp_rd32_def cp_rd8_def cp_add_def)
qed (simp add: fun_eq_iff)

lemma write_block_addr:
  "fmc_write_block io a \<lparr>cp_addr = x, cp_bytes = b\<rparr> = fmc_write_block io a \<lparr>cp_addr = y, cp_bytes = b\<rparr>"
  unfolding fun_eq_iff fmc_write_block_def fill_unaligned_eq_aligned if_cancel Let_def fill_addr [of io 64 _ x b y] by simp

lemma write_blocks_addr:
  "write_blocks io a \<lparr>cp_addr = x, cp_bytes = b\<rparr> n m = write_blocks io a \<lparr>cp_addr = y, cp_bytes = b\<rparr> n m"
proof (induction "nat n" arbitrary: a x y b n m rule: less_induct)
  case less
  have "write_blocks io (a + 256) \<lparr>cp_addr = x + 256, cp_bytes = drop 256 b\<rparr> (n - 256) m' =
      write_blocks io (a + 256) \<lparr>cp_addr = y + 256, cp_bytes = drop 256 b\<rparr> (n - 256) m'" if "n > 0" for m'
    using that by (intro less) simp
  then show ?case
    by (simp add: write_blocks.simps [of io a _ n m] write_block_addr [of io a x b y] cp_add_def cong: if_cong)
qed

lemma verify_addr:
  "verify_bytes io m a \<lparr>cp_addr = x, cp_bytes = b\<rparr> i n = verify_bytes io m a \<lparr>cp_addr = y, cp_bytes = b\<rparr> i n"
  by (induction n arbitrary: i) (simp_all add: cp_rd8_def)

lemma ops_addr:
  "flash_write (fmc_ops io) a \<lparr>cp_addr = x, cp_bytes = b\<rparr> = flash_write (fmc_ops io) a \<lparr>cp_addr = y, cp_bytes = b\<rparr>"
  "flash_verify (fmc_ops io) a \<lparr>cp_addr = x, cp_bytes = b\<rparr> = flash_verify (fmc_ops io) a \<lparr>cp_addr = y, cp_bytes = b\<rparr>"
  by (simp_all add: fun_eq_iff fmc_write_def fmc_verify_def write_blocks_addr [of io _ x b _ _ y]
    verify_addr [of io _ _ x b _ _ y])

section \<open>Programming\<close>

text \<open>A data block that the device reports as written (status OK after the data stage) is in
  the flash: every byte of the block reads back, through the flash alias, at the address
  the DfuSe address pointer and the block number give. Nothing is assumed about the controller.\<close>

theorem dfu_block_programmed:
  assumes "dfu_handle_data (fmc_ops io) data len d = Some d'"
    and "dfu_block_num d \<ge> 2" and "len > 0" and "status d' = DFU_STATUS_OK"
    and "unat len \<le> length (cp_bytes data)"
  shows "\<forall>k < unat len.
           flash8 io (plat d') ((write_address (dfu_address d) (dfu_block_num d) OR FLASH_ALIAS)
             + of_nat k) = cp_bytes data ! k"
proof -
  from assms(2) have "dfu_block_num d \<noteq> 0" by auto
  with assms(1-3) have "dfu_write_block (fmc_ops io) data len d = Some d'"
    by (simp add: dfu_handle_data_def)
  from fmc.dfu_write_block_programs [OF this assms(4,5)] show ?thesis by blast
qed

theorem dfu_block_programmed_witness:
  "flash8 blank_bus (irq_cycle blank_mach) 0x08004000 = cp_bytes blank_data ! 0 \<and>
   flash8 blank_bus (irq_cycle blank_mach) (0x08004000 + of_nat 3) = cp_bytes blank_data ! 3"
proof -
  have "write_address (dfu_address blank_dfu) (dfu_block_num blank_dfu) OR FLASH_ALIAS = 0x08004000"
    by (simp add: blank_dfu_def write_address_def FLASH_ALIAS_def)
  then have *: "\<forall>k < 4. flash8 blank_bus (irq_cycle blank_mach) (0x08004000 + of_nat k) =
      cp_bytes blank_data ! k"
    using dfu_block_programmed [OF blank_write_run] by (simp add: blank_dfu_def)
  show ?thesis using spec [OF *, of 0] spec [OF *, of 3] by simp
qed

text \<open>C15: on a controller that is not busy for ever, handling a data stage returns, whatever the
  host sent, for every buffer of the transfer size and every length up to it; no byte outside the
  receive buffer is read.\<close>

theorem dfu_data_returns:
  assumes "fmc_drains io f" and "unat (flash_end d) \<le> 2 ^ 32 - 256"
    and "length (cp_bytes data) = DFU_TRANSFER_SIZE" and "unat len \<le> DFU_TRANSFER_SIZE"
  shows "\<exists>d'. dfu_handle_data (fmc_ops io) data len d = Some d'"
  using fmc.dfu_handle_data_returns [OF fmc_ops_return [OF assms(1)] assms(2-4)] by auto

theorem dfu_data_returns_witness:
  "\<exists>d'. dfu_handle_data (fmc_ops blank_bus) blank_data 4096 blank_dfu = Some d'"
  by (rule dfu_data_returns [OF blank_drains])
    (simp_all add: blank_dfu_def DFU_TRANSFER_SIZE_def)

section \<open>The address check\<close>

text \<open>C13: the address check of a data block. A block that ends past the end of the flash is refused
  with an address error, and neither the flash nor anything else is touched. But the sum is taken in
  32 bits: a block that ends past the end of the address space is not refused if the sum wraps to an
  address within the flash.\<close>

theorem block_range_check:
  assumes "dfu_block_num d \<ge> 2" and "len > 0"
    and "wa = write_address (dfu_address d) (dfu_block_num d)"
  shows "(unat (flash_end d) < unat wa + unat len \<and> unat wa + unat len < 2 ^ 32 \<longrightarrow>
      dfu_handle_data (fmc_ops io) data len d =
        Some (d\<lparr>status := DFU_STATUS_ERR_ADDRESS, state := STATE_DFU_ERROR\<rparr>)) \<and>
    (2 ^ 32 \<le> unat wa + unat len \<and> unat wa + unat len - 2 ^ 32 \<le> unat (flash_end d) \<longrightarrow>
      (\<forall>d'. dfu_handle_data (fmc_ops io) data len d = Some d' \<longrightarrow> status d' \<noteq> DFU_STATUS_ERR_ADDRESS))"
proof -
  have "dfu_block_num d \<noteq> 0" using assms(1) by auto
  then have run: "dfu_handle_data (fmc_ops io) data len d = dfu_write_block (fmc_ops io) data len d"
    using assms(1,2) by (simp add: dfu_handle_data_def)
  have sum: "unat (wa + ucast len) = (unat wa + unat len) mod 2 ^ 32"
    by (simp add: unat_word_ariths)
  have refused: "flash_end d < wa + ucast len"
    if "unat (flash_end d) < unat wa + unat len" "unat wa + unat len < 2 ^ 32"
    using that sum by (simp add: word_less_nat_alt)
  have accepted: "\<not> flash_end d < wa + ucast len"
    if "2 ^ 32 \<le> unat wa + unat len" "unat wa + unat len - 2 ^ 32 \<le> unat (flash_end d)"
  proof -
    have "unat wa + unat len - 2 ^ 32 < 2 ^ 32"
      using unsigned_less [where ?'a = nat, of wa] unsigned_less [where ?'a = nat, of len] by simp
    then have "unat (wa + ucast len) = unat wa + unat len - 2 ^ 32"
      using that(1) by (simp add: sum mod_if)
    with that(2) show ?thesis by (simp add: word_less_nat_alt)
  qed
  show ?thesis
    using refused accepted dfu_write_block_out_of_range [of d len "fmc_ops io" data]
      dfu_write_block_address_error [of "fmc_ops io" data len d]
    by (auto simp: run assms(3) dfu_fail_def)
qed

theorem block_range_check_witness:
  "dfu_handle_data (fmc_ops blank_bus) blank_data 4 (blank_dfu\<lparr>dfu_address := 0x3FFFE\<rparr>) =
     Some (blank_dfu\<lparr>dfu_address := 0x3FFFE, status := DFU_STATUS_ERR_ADDRESS, state := STATE_DFU_ERROR\<rparr>) \<and>
   map_option status (dfu_handle_data (fmc_ops blank_bus) blank_data 512 (blank_dfu\<lparr>dfu_address := 0xFFFFFF00\<rparr>))
     \<notin> {None, Some DFU_STATUS_ERR_ADDRESS}"
proof -
  let ?d = "blank_dfu\<lparr>dfu_address := 0xFFFFFF00\<rparr>"
  have "dfu_handle_data (fmc_ops blank_bus) blank_data 512 ?d \<noteq> None"
    by (rule fmc.dfu_handle_data_returns [OF fmc_ops_return [OF blank_drains]])
      (simp_all add: DFU_TRANSFER_SIZE_def)
  moreover have "\<forall>d'. dfu_handle_data (fmc_ops blank_bus) blank_data 512 ?d = Some d' \<longrightarrow>
      status d' \<noteq> DFU_STATUS_ERR_ADDRESS"
    using block_range_check [of ?d 512 "0xFFFFFF00" blank_bus blank_data] by (simp add: write_address_def)
  ultimately show ?thesis
    using block_range_check [of "blank_dfu\<lparr>dfu_address := 0x3FFFE\<rparr>" 4 "0x3FFFE" blank_bus blank_data]
    by (auto simp: write_address_def)
qed

text \<open>C14: the two ways a page is filled are one. A page is read from the receive buffer in 32-bit words
  where its address is a multiple of four and byte by byte otherwise; every data stage, with all its
  blocks, errors and accesses to the controller, runs the same wherever the buffer lies.\<close>

theorem alignment_irrelevant:
  "dfu_handle_data (fmc_ops io) \<lparr>cp_addr = x, cp_bytes = b\<rparr> len d =
   dfu_handle_data (fmc_ops io) \<lparr>cp_addr = y, cp_bytes = b\<rparr> len d"
  unfolding dfu_handle_data_def dfu_write_block_def cp_rd8_def ops_addr [of io _ x b y] by simp

end
