(* ===== verification/Stubs.thy ===== *)
theory Stubs
  imports Prelude
begin

text \<open>
  The string functions of \<^verbatim>\<open>src_common/stubs.cpp\<close>. A C object is the list of its bytes from the pointer
  on; a read or write past its end is undefined in C and \<open>None\<close> here. The pointers of one call
  address different objects.
\<close>

section \<open>Operations\<close>

text \<open>\<open>while (src[nb]) nb++;\<close>\<close>

fun xstrlen_from :: "u8 list \<Rightarrow> nat \<Rightarrow> nat option" where
  "xstrlen_from [] nb = None"
| "xstrlen_from (c # src) nb = (if c \<noteq> 0 then xstrlen_from src (nb + 1) else Some nb)"

definition xstrlen :: "u8 list \<Rightarrow> nat option" where
  "xstrlen src = xstrlen_from src 0"

text \<open>The copy loop, with \<open>i\<close> the offset of \<open>tgt\<close> in its object.\<close>

definition put8 :: "u8 list \<Rightarrow> nat \<Rightarrow> u8 \<Rightarrow> u8 list option" where
  "put8 buf i c = (if i < length buf then Some (buf[i := c]) else None)"

fun copy_str :: "u8 list \<Rightarrow> nat \<Rightarrow> u8 list \<Rightarrow> u8 list option" where
  "copy_str tgt i [] = None"
| "copy_str tgt i (c # src) =
     (if c \<noteq> 0 then do { tgt \<leftarrow> put8 tgt i c; copy_str tgt (i + 1) src } else put8 tgt i 0)"

definition xstrcpy :: "u8 list \<Rightarrow> u8 list \<Rightarrow> u8 list option" where
  "xstrcpy tgt src = copy_str tgt 0 src"

definition xstrcat :: "u8 list \<Rightarrow> u8 list \<Rightarrow> u8 list option" where
  "xstrcat tgt src = do { n \<leftarrow> xstrlen tgt; copy_str tgt n src }"

section \<open>Strings\<close>

text \<open>The string an object holds: the bytes before the terminator.\<close>

definition c_string :: "u8 list \<Rightarrow> u8 list \<Rightarrow> bool" where
  "c_string buf s \<longleftrightarrow> 0 \<notin> set s \<and> (\<exists>rest. buf = s @ 0 # rest)"

lemma xstrlen_from_spec:
  "xstrlen_from buf k = Some n \<longleftrightarrow> (\<exists>s. c_string buf s \<and> n = k + length s)"
proof (induction buf arbitrary: k)
  case Nil
  then show ?case by (simp add: c_string_def)
next
  case (Cons c buf)
  show ?case
  proof (cases "c = 0")
    case True
    have "c_string (c # buf) s \<longleftrightarrow> s = []" for s
      using True by (cases s) (auto simp: c_string_def)
    with True show ?thesis by auto
  next
    case False
    have "c_string (c # buf) s \<longleftrightarrow> (\<exists>t. s = c # t \<and> c_string buf t)" for s
      using False by (cases s) (auto simp: c_string_def)
    with False show ?thesis by (auto simp: Cons.IH)
  qed
qed

lemma xstrlen_spec: "xstrlen buf = Some n \<longleftrightarrow> (\<exists>s. c_string buf s \<and> n = length s)"
  by (simp add: xstrlen_def xstrlen_from_spec)

lemma copy_str_fits:
  assumes "0 \<notin> set s" "i + length s < length tgt"
  shows "copy_str tgt i (s @ 0 # rest) =
    Some (take i tgt @ s @ 0 # drop (Suc (i + length s)) tgt)"
  using assms
proof (induction s arbitrary: tgt i)
  case Nil
  then show ?case by (simp add: put8_def upd_conv_take_nth_drop)
next
  case (Cons c s)
  then have "copy_str (tgt[i := c]) (Suc i) (s @ 0 # rest) =
      Some (take (Suc i) (tgt[i := c]) @ s @ 0 # drop (Suc (Suc i + length s)) (tgt[i := c]))"
    by (intro Cons.IH) auto
  moreover have "take (Suc i) (tgt[i := c]) = take i tgt @ [c]"
    using Cons.prems by (simp add: take_Suc_conv_app_nth)
  ultimately show ?case using Cons.prems by (auto simp: put8_def)
qed

lemma copy_str_overflows:
  assumes "0 \<notin> set s" "length tgt \<le> i + length s"
  shows "copy_str tgt i (s @ 0 # rest) = None"
  using assms
proof (induction s arbitrary: tgt i)
  case (Cons c s)
  then show ?case by (auto simp: put8_def bind_eq_None_conv)
qed (simp add: put8_def)

section \<open>Properties\<close>

text \<open>Xstrlen returns the length of the string its argument holds, and has no defined result exactly
  for an object without terminator.\<close>

lemma xstrlen_is_length:
  "xstrlen buf = Some n \<longleftrightarrow> (\<exists>s. c_string buf s \<and> n = length s)"
  by (rule xstrlen_spec)

text \<open>Xstrcat appends: when the two strings and a terminator fit, the target holds their
  concatenation and the bytes behind it are untouched; otherwise it writes past the target.\<close>

lemma xstrcat_appends:
  assumes "c_string tgt a" and "c_string src b"
  shows "xstrcat tgt src =
    (if length a + length b < length tgt
     then Some (a @ b @ 0 # drop (Suc (length a + length b)) tgt) else None)"
proof -
  have len: "xstrlen tgt = Some (length a)" using assms(1) by (auto simp: xstrlen_spec)
  from assms obtain r where src: "src = b @ 0 # r" "0 \<notin> set b" by (auto simp: c_string_def)
  moreover have "take (length a) tgt = a" using assms(1) by (auto simp: c_string_def)
  ultimately show ?thesis
    using copy_str_fits [of b "length a" tgt r] copy_str_overflows [of b tgt "length a" r]
    by (simp add: xstrcat_def len)
qed

lemma xstrcat_example:
  "xstrcat [65, 0, 9, 9, 9] [66, 67, 0] = Some [65, 66, 67, 0, 9]"
proof -
  have "c_string [65, 0, 9, 9, 9] [65]" "c_string [66, 67, 0] [66, 67]"
    by (auto simp: c_string_def)
  from xstrcat_appends [OF this] show ?thesis by simp
qed

end
