(* ===== verification/Halt.thy ===== *)
theory Halt
  imports Timer
begin

text \<open>
  How the boot loader stops: \<^verbatim>\<open>esprit_mini/debug.cpp\<close>, the macro \<^verbatim>\<open>xAssert\<close>, the handler of unexpected
  interrupts in \<^verbatim>\<open>src_stage2/stage2_irq.cpp\<close> and the functions of \<^verbatim>\<open>src_common/stubs.cpp\<close> that only
  assert. What \<^verbatim>\<open>ebreak\<close> does is up to the debugger (or the trap handler), so it is a parameter; it may
  return. \<open>None\<close> is a run that never returns.
\<close>

section \<open>Operations\<close>

text \<open>\<open>while (1) nop;\<close>\<close>

partial_function (option) spin :: "'h mach \<Rightarrow> 'h mach option" where
  "spin m = spin m"

definition MSTATUS_MIE :: u32 where "MSTATUS_MIE = push_bit 3 1"

definition deadEnd :: "('h mach \<Rightarrow> 'h mach option) \<Rightarrow> int \<Rightarrow> 'h mach \<Rightarrow> 'h mach option" where
  "deadEnd ebreak code m = do {
     m \<leftarrow> ebreak m;
     let m = csrc MSTATUS MSTATUS_MIE m;
     spin m }"

definition do_assert :: "('h mach \<Rightarrow> 'h mach option) \<Rightarrow> char list \<Rightarrow> 'h mach \<Rightarrow> 'h mach option" where
  "do_assert ebreak msg m = do {
     m \<leftarrow> deadEnd ebreak 1 m;
     spin m }"

definition xAssert ::
  "('h mach \<Rightarrow> 'h mach option) \<Rightarrow> bool \<Rightarrow> char list \<Rightarrow> 'h mach \<Rightarrow> 'h mach option" where
  "xAssert ebreak a msg m = (if \<not> a then do_assert ebreak msg m else Some m)"

definition Logger_crash :: "('h mach \<Rightarrow> 'h mach option) \<Rightarrow> char list \<Rightarrow> 'h mach \<Rightarrow> 'h mach option" where
  "Logger_crash ebreak st = xAssert ebreak False ''0''"

definition default_handler :: "('h mach \<Rightarrow> 'h mach option) \<Rightarrow> 'h mach \<Rightarrow> 'h mach option" where
  "default_handler ebreak = xAssert ebreak False ''0''"

definition sys_write :: "('h mach \<Rightarrow> 'h mach option) \<Rightarrow> 'h mach \<Rightarrow> 'h mach option" where
  "sys_write ebreak = xAssert ebreak False ''0''"

text \<open>The null pointer \<open>_sbrk\<close> would return is address 0.\<close>

definition sys_sbrk :: "('h mach \<Rightarrow> 'h mach option) \<Rightarrow> int \<Rightarrow> 'h mach \<Rightarrow> (u32 \<times> 'h mach) option" where
  "sys_sbrk ebreak incr m = do {
     m \<leftarrow> xAssert ebreak False ''0'' m;
     Some (0, m) }"

text \<open>The empty \<open>printf\<close> of the stubs.\<close>

definition stub_printf :: "char list \<Rightarrow> 'h mach \<Rightarrow> int \<times> 'h mach" where
  "stub_printf fmt m = (0, m)"

section \<open>They never return\<close>

lemma spin_None [simp]: "spin m = None"
proof -
  have "spin m \<noteq> Some m'" for m'
    using spin.raw_induct [where P = "\<lambda>m m'. False"] by blast
  then show ?thesis by (cases "spin m") auto
qed

lemma deadEnd_None [simp]: "deadEnd ebreak code m = None"
  by (cases "ebreak m") (simp_all add: deadEnd_def Let_def)

lemma halts [simp]:
  "do_assert ebreak msg m = None" "Logger_crash ebreak st m = None" "default_handler ebreak m = None"
  "sys_write ebreak m = None" "sys_sbrk ebreak incr m = None"
  by (simp_all add: do_assert_def Logger_crash_def default_handler_def sys_write_def sys_sbrk_def xAssert_def)

lemma xAssert_returns: "xAssert ebreak a msg m = Some m' \<longleftrightarrow> a \<and> m' = m"
  by (auto simp: xAssert_def)

end
